(* ===== verification/Prelude.thy ===== *)
theory Prelude
  imports Main "HOL-Library.Word" "HOL-Library.List_Lexorder"
begin

text \<open>
  What every other theory shares: the machine integers, Rust's \<open>Result\<close> with panics as a third
  outcome and non-termination as a fourth, the \<open>?\<close> operator, \<open>while\<close> loops, slices and indexing that panic out of range, \<open>usize\<close> arithmetic,
  and big- and little-endian byte strings.

  Conventions. A \<open>u8\<close>, \<open>u16\<close>, \<open>u32\<close> or \<open>u64\<close> of the code is a word of that width. A byte slice or
  vector is a list of bytes. A \<open>usize\<close> is a natural number bounded by \<open>usize_MAX\<close>: the model is of
  a 64-bit target, and every \<open>checked_add\<close>, \<open>try_from\<close> and plain \<open>+\<close> of the code on a \<open>usize\<close> is
  written out, the last one panicking on overflow.
\<close>

section \<open>Machine integers\<close>

type_synonym u8 = "8 word"
type_synonym u16 = "16 word"
type_synonym u32 = "32 word"
type_synonym u64 = "64 word"
type_synonym bytes = "u8 list"

definition usize_MAX :: nat where
  "usize_MAX = 2 ^ 64 - 1"

definition isize_MAX :: nat where
  "isize_MAX = 2 ^ 63 - 1"

text \<open>Rust bounds every slice and vector by \<open>isize::MAX\<close> bytes.\<close>

definition rust_slice :: "'a list \<Rightarrow> bool" where
  "rust_slice bs \<longleftrightarrow> length bs \<le> isize_MAX"

section \<open>Outcomes\<close>

datatype ('e, 'a) outcome = Ok 'a | Err 'e | Panic | Diverges

named_theorems outcome_simps \<open>when a step, or a chain of steps, yields a given outcome\<close>

text \<open>\<open>andThen m f\<close> is \<open>let x = m?; f x\<close>: an error returns early, a panic unwinds.\<close>

fun andThen :: "('e, 'a) outcome \<Rightarrow> ('a \<Rightarrow> ('e, 'b) outcome) \<Rightarrow> ('e, 'b) outcome" where
  "andThen (Ok x) f = f x"
| "andThen (Err e) f = Err e"
| "andThen Panic f = Panic"
| "andThen Diverges f = Diverges"

lemma andThen_cong [fundef_cong]:
  "m = m' \<Longrightarrow> (\<And>x. m' = Ok x \<Longrightarrow> f x = f' x) \<Longrightarrow> andThen m f = andThen m' f'"
  by (cases m') auto

lemma andThen_eq_Ok [outcome_simps]:
  "andThen m f = Ok y \<longleftrightarrow> (\<exists>x. m = Ok x \<and> f x = Ok y)"
  by (cases m) auto

lemma andThen_eq_Err [outcome_simps]:
  "andThen m f = Err e \<longleftrightarrow> m = Err e \<or> (\<exists>x. m = Ok x \<and> f x = Err e)"
  by (cases m) auto

lemma andThen_eq_Panic [outcome_simps]:
  "andThen m f = Panic \<longleftrightarrow> m = Panic \<or> (\<exists>x. m = Ok x \<and> f x = Panic)"
  by (cases m) auto

lemma andThen_eq_Diverges [outcome_simps]:
  "andThen m f = Diverges \<longleftrightarrow> m = Diverges \<or> (\<exists>x. m = Ok x \<and> f x = Diverges)"
  by (cases m) auto

lemma andThen_assoc: "andThen (andThen m f) g = andThen m (\<lambda>x. andThen (f x) g)"
  by (cases m) auto

text \<open>\<open>ok_or\<close> turns an absent value into an error, \<open>map_err\<close> changes the error.\<close>

fun ok_or :: "'e \<Rightarrow> 'a option \<Rightarrow> ('e, 'a) outcome" where
  "ok_or e None = Err e"
| "ok_or e (Some x) = Ok x"

fun map_err :: "('e \<Rightarrow> 'f) \<Rightarrow> ('e, 'a) outcome \<Rightarrow> ('f, 'a) outcome" where
  "map_err h (Ok x) = Ok x"
| "map_err h (Err e) = Err (h e)"
| "map_err h Panic = Panic"
| "map_err h Diverges = Diverges"

lemma ok_or_eq_Ok [outcome_simps]: "ok_or e m = Ok x \<longleftrightarrow> m = Some x"
  by (cases m) auto

lemma ok_or_eq_Err [outcome_simps]: "ok_or e m = Err e' \<longleftrightarrow> m = None \<and> e' = e"
  by (cases m) auto

lemma ok_or_not_Panic [simp]: "ok_or e m \<noteq> Panic"
  by (cases m) auto

lemma ok_or_not_Diverges [simp]: "ok_or e m \<noteq> Diverges"
  by (cases m) auto

lemma map_err_eq_Ok [outcome_simps]: "map_err h m = Ok x \<longleftrightarrow> m = Ok x"
  by (cases m) auto

lemma map_err_eq_Err [outcome_simps]: "map_err h m = Err e' \<longleftrightarrow> (\<exists>e. m = Err e \<and> e' = h e)"
  by (cases m) auto

lemma map_err_eq_Panic [outcome_simps]: "map_err h m = Panic \<longleftrightarrow> m = Panic"
  by (cases m) auto

lemma map_err_eq_Diverges [outcome_simps]: "map_err h m = Diverges \<longleftrightarrow> m = Diverges"
  by (cases m) auto

text \<open>An early \<open>return Err(e)\<close> under a condition.\<close>

definition guard :: "bool \<Rightarrow> 'e \<Rightarrow> ('e, unit) outcome" where
  "guard bad e = (if bad then Err e else Ok ())"

lemma guard_eq_Ok [outcome_simps]: "guard b e = Ok u \<longleftrightarrow> \<not> b"
  by (simp add: guard_def)

lemma guard_eq_Err [outcome_simps]: "guard b e = Err e' \<longleftrightarrow> b \<and> e' = e"
  by (auto simp: guard_def)

lemma guard_not_Panic [simp]: "guard b e \<noteq> Panic"
  by (simp add: guard_def)

lemma guard_not_Diverges [simp]: "guard b e \<noteq> Diverges"
  by (simp add: guard_def)

lemma guard_False [simp]: "guard False e = Ok ()"
  by (simp add: guard_def)

lemma guard_True [simp]: "guard True e = Err e"
  by (simp add: guard_def)

text \<open>\<open>iter().map(f).collect::<Result<Vec<_>, _>>()\<close>: the first error wins.\<close>

fun collect_results :: "('a \<Rightarrow> ('e, 'b) outcome) \<Rightarrow> 'a list \<Rightarrow> ('e, 'b list) outcome" where
  "collect_results f [] = Ok []"
| "collect_results f (x # xs) =
     andThen (f x) (\<lambda>y. andThen (collect_results f xs) (\<lambda>ys. Ok (y # ys)))"

lemma collect_results_Ok_map:
  "(\<And>x. x \<in> set xs \<Longrightarrow> f x = Ok (g x)) \<Longrightarrow> collect_results f xs = Ok (map g xs)"
  by (induction xs) auto

lemma collect_results_Ok_iff:
  "collect_results f xs = Ok ys \<longleftrightarrow> list_all2 (\<lambda>x y. f x = Ok y) xs ys"
proof (induction xs arbitrary: ys)
  case Nil
  then show ?case by auto
next
  case (Cons x xs)
  show ?case
    by (cases ys) (auto simp: andThen_eq_Ok Cons.IH)
qed

section \<open>Loops\<close>

text \<open>
  A \<open>while\<close> loop is a body on the loop's variables: \<open>Ok (Inl s)\<close> goes round again, \<open>Ok (Inr r)\<close>
  leaves the loop, an error or a panic leaves the function. A loop that never leaves has the
  outcome \<open>Diverges\<close>, so termination is a statement of its own.
\<close>

partial_function (option) loop_result ::
  "('s \<Rightarrow> ('e, 's + 'r) outcome) \<Rightarrow> 's \<Rightarrow> ('e, 'r) outcome option" where
  "loop_result body s =
     (case body s of
        Ok x \<Rightarrow> (case x of Inl s' \<Rightarrow> loop_result body s' | Inr r \<Rightarrow> Some (Ok r))
      | Err e \<Rightarrow> Some (Err e)
      | Panic \<Rightarrow> Some Panic
      | Diverges \<Rightarrow> None)"

definition run_loop :: "('s \<Rightarrow> ('e, 's + 'r) outcome) \<Rightarrow> 's \<Rightarrow> ('e, 'r) outcome" where
  "run_loop body s = (case loop_result body s of None \<Rightarrow> Diverges | Some r \<Rightarrow> r)"

lemma run_loop_unfold:
  "run_loop body s =
     (case body s of
        Ok x \<Rightarrow> (case x of Inl s' \<Rightarrow> run_loop body s' | Inr r \<Rightarrow> Ok r)
      | Err e \<Rightarrow> Err e
      | Panic \<Rightarrow> Panic
      | Diverges \<Rightarrow> Diverges)"
  unfolding run_loop_def
  by (subst loop_result.simps) (simp split: outcome.split sum.split)

lemma run_loop_andThen:
  "run_loop body s = andThen (body s) (\<lambda>x. case x of Inl s' \<Rightarrow> run_loop body s' | Inr r \<Rightarrow> Ok r)"
  by (subst run_loop_unfold) (simp split: outcome.split)

text \<open>
  The rule for total correctness: an invariant the body keeps, a measure it decreases, and what
  each way out of the loop gives.
\<close>

lemma run_loop_rule:
  assumes inv: "I s"
    and step: "\<And>s s'. I s \<Longrightarrow> body s = Ok (Inl s') \<Longrightarrow> I s' \<and> (m s' :: nat) < m s"
    and exit: "\<And>s r. I s \<Longrightarrow> body s = Ok (Inr r) \<Longrightarrow> Q (Ok r)"
    and err: "\<And>s e. I s \<Longrightarrow> body s = Err e \<Longrightarrow> Q (Err e)"
    and safe: "\<And>s. I s \<Longrightarrow> body s \<noteq> Panic \<and> body s \<noteq> Diverges"
  shows "Q (run_loop body s)"
  using inv
proof (induction "m s" arbitrary: s rule: less_induct)
  case less
  show ?case
  proof (cases "body s")
    case (Ok x)
    show ?thesis
    proof (cases x)
      case (Inl s')
      with Ok have "I s' \<and> m s' < m s" using step [OF less.prems, of s'] by simp
      then have "Q (run_loop body s')" using less.hyps by blast
      with Ok Inl show ?thesis by (simp add: run_loop_unfold [of body s])
    next
      case (Inr r)
      with Ok exit [OF less.prems, of r] show ?thesis by (simp add: run_loop_unfold [of body s])
    qed
  next
    case (Err e)
    with err [OF less.prems, of e] show ?thesis by (simp add: run_loop_unfold [of body s])
  qed (use safe [OF less.prems] in auto)
qed

text \<open>Partial correctness, for a loop that need not return: what holds of a result it does return.\<close>

lemma run_loop_partial:
  assumes ret: "run_loop body s = Ok r" and inv: "I s"
    and step: "\<And>s s'. I s \<Longrightarrow> body s = Ok (Inl s') \<Longrightarrow> I s'"
    and exit: "\<And>s r. I s \<Longrightarrow> body s = Ok (Inr r) \<Longrightarrow> Q r"
  shows "Q r"
proof -
  from ret have res: "loop_result body s = Some (Ok r)"
    by (simp add: run_loop_def split: option.splits)
  have "\<And>y. loop_result body s = Some y \<Longrightarrow> body = body \<longrightarrow> I s \<longrightarrow> (\<forall>r'. y = Ok r' \<longrightarrow> Q r')"
  proof (erule loop_result.raw_induct [where
        P = "\<lambda>b s y. b = body \<longrightarrow> I s \<longrightarrow> (\<forall>r'. y = Ok r' \<longrightarrow> Q r')", rotated])
    fix f b s y
    assume "\<And>b s y. f b s = Some y \<Longrightarrow> b = body \<longrightarrow> I s \<longrightarrow> (\<forall>r'. y = Ok r' \<longrightarrow> Q r')"
      and "(case b s of Ok x \<Rightarrow> (case x of Inl s' \<Rightarrow> f b s' | Inr r \<Rightarrow> Some (Ok r))
        | Err e \<Rightarrow> Some (Err e) | Panic \<Rightarrow> Some Panic | Diverges \<Rightarrow> None) = Some y"
    then show "b = body \<longrightarrow> I s \<longrightarrow> (\<forall>r'. y = Ok r' \<longrightarrow> Q r')"
      using step exit by (auto split: outcome.splits sum.splits)
  qed
  from this [OF res] inv show ?thesis by blast
qed

text \<open>A loop whose invariant never lets it leave does not return.\<close>

lemma run_loop_diverges:
  assumes inv: "I s" and step: "\<And>s. I s \<Longrightarrow> \<exists>s'. body s = Ok (Inl s') \<and> I s'"
  shows "run_loop body s = Diverges"
proof (cases "loop_result body s")
  case (Some y)
  have "body = body \<longrightarrow> \<not> I s"
  proof (rule loop_result.raw_induct [where P = "\<lambda>b s y. b = body \<longrightarrow> \<not> I s", OF _ Some])
    fix f b s y
    assume "\<And>b s y. f b s = Some y \<Longrightarrow> b = body \<longrightarrow> \<not> I s"
      and "(case b s of Ok x \<Rightarrow> (case x of Inl s' \<Rightarrow> f b s' | Inr r \<Rightarrow> Some (Ok r))
        | Err e \<Rightarrow> Some (Err e) | Panic \<Rightarrow> Some Panic | Diverges \<Rightarrow> None) = Some y"
    then show "b = body \<longrightarrow> \<not> I s" using step [of s] by auto
  qed
  with inv show ?thesis by simp
qed (simp add: run_loop_def)

section \<open>Slices and \<open>usize\<close> arithmetic\<close>

definition index_at :: "'a list \<Rightarrow> nat \<Rightarrow> ('e, 'a) outcome" where
  "index_at xs i = (if i < length xs then Ok (xs ! i) else Panic)"

definition slice_range :: "'a list \<Rightarrow> nat \<Rightarrow> nat \<Rightarrow> ('e, 'a list) outcome" where
  "slice_range xs a b = (if a \<le> b \<and> b \<le> length xs then Ok (take (b - a) (drop a xs)) else Panic)"

definition slice_from :: "'a list \<Rightarrow> nat \<Rightarrow> ('e, 'a list) outcome" where
  "slice_from xs a = (if a \<le> length xs then Ok (drop a xs) else Panic)"

definition checked_add :: "nat \<Rightarrow> nat \<Rightarrow> nat option" where
  "checked_add a b = (if a + b \<le> usize_MAX then Some (a + b) else None)"

definition plain_mul :: "nat \<Rightarrow> nat \<Rightarrow> ('e, nat) outcome" where
  "plain_mul a b = (if a * b \<le> usize_MAX then Ok (a * b) else Panic)"

definition u128_MAX :: nat where
  "u128_MAX = 2 ^ 128 - 1"

definition checked_mul_u128 :: "nat \<Rightarrow> nat \<Rightarrow> nat option" where
  "checked_mul_u128 a b = (if a * b \<le> u128_MAX then Some (a * b) else None)"

definition checked_sub :: "nat \<Rightarrow> nat \<Rightarrow> nat option" where
  "checked_sub a b = (if b \<le> a then Some (a - b) else None)"

definition plain_add :: "nat \<Rightarrow> nat \<Rightarrow> ('e, nat) outcome" where
  "plain_add a b = (if a + b \<le> usize_MAX then Ok (a + b) else Panic)"

definition usize_of_u64 :: "u64 \<Rightarrow> nat option" where
  "usize_of_u64 v = (if unat v \<le> usize_MAX then Some (unat v) else None)"

lemma index_at_Ok [outcome_simps]: "index_at xs i = Ok x \<longleftrightarrow> i < length xs \<and> x = xs ! i"
  by (auto simp: index_at_def)

lemma index_at_Panic [outcome_simps]: "index_at xs i = Panic \<longleftrightarrow> length xs \<le> i"
  by (auto simp: index_at_def)

lemma index_at_not_Err [simp]: "index_at xs i \<noteq> Err e"
  by (simp add: index_at_def)

lemma index_at_not_Diverges [simp]: "index_at xs i \<noteq> Diverges"
  by (simp add: index_at_def)

lemma slice_range_Ok [outcome_simps]:
  "slice_range xs a b = Ok ys \<longleftrightarrow> a \<le> b \<and> b \<le> length xs \<and> ys = take (b - a) (drop a xs)"
  by (auto simp: slice_range_def)

lemma slice_range_Panic [outcome_simps]: "slice_range xs a b = Panic \<longleftrightarrow> b < a \<or> length xs < b"
  by (auto simp: slice_range_def)

lemma slice_range_not_Err [simp]: "slice_range xs a b \<noteq> Err e"
  by (simp add: slice_range_def)

lemma slice_range_not_Diverges [simp]: "slice_range xs a b \<noteq> Diverges"
  by (simp add: slice_range_def)

lemma slice_from_Ok [outcome_simps]:
  "slice_from xs a = Ok ys \<longleftrightarrow> a \<le> length xs \<and> ys = drop a xs"
  by (auto simp: slice_from_def)

lemma slice_from_Panic [outcome_simps]: "slice_from xs a = Panic \<longleftrightarrow> length xs < a"
  by (auto simp: slice_from_def)

lemma slice_from_not_Err [simp]: "slice_from xs a \<noteq> Err e"
  by (simp add: slice_from_def)

lemma slice_from_not_Diverges [simp]: "slice_from xs a \<noteq> Diverges"
  by (simp add: slice_from_def)

lemma plain_add_Ok [outcome_simps]: "plain_add a b = Ok c \<longleftrightarrow> c = a + b \<and> a + b \<le> usize_MAX"
  by (auto simp: plain_add_def)

lemma plain_mul_Ok [outcome_simps]: "plain_mul a b = Ok c \<longleftrightarrow> c = a * b \<and> a * b \<le> usize_MAX"
  by (auto simp: plain_mul_def)

lemma plain_mul_Panic [outcome_simps]: "plain_mul a b = Panic \<longleftrightarrow> usize_MAX < a * b"
  by (auto simp: plain_mul_def)

lemma plain_mul_not_Err [simp]: "plain_mul a b \<noteq> Err e"
  by (simp add: plain_mul_def)

lemma plain_mul_not_Diverges [simp]: "plain_mul a b \<noteq> Diverges"
  by (simp add: plain_mul_def)

lemma plain_add_Panic [outcome_simps]: "plain_add a b = Panic \<longleftrightarrow> usize_MAX < a + b"
  by (auto simp: plain_add_def)

lemma plain_add_not_Err [simp]: "plain_add a b \<noteq> Err e"
  by (simp add: plain_add_def)

lemma plain_add_not_Diverges [simp]: "plain_add a b \<noteq> Diverges"
  by (simp add: plain_add_def)

lemma checked_add_Some [outcome_simps]:
  "checked_add a b = Some c \<longleftrightarrow> c = a + b \<and> a + b \<le> usize_MAX"
  by (auto simp: checked_add_def)

lemma checked_add_None [outcome_simps]: "checked_add a b = None \<longleftrightarrow> usize_MAX < a + b"
  by (auto simp: checked_add_def)

lemma checked_sub_Some [outcome_simps]: "checked_sub a b = Some c \<longleftrightarrow> b \<le> a \<and> c = a - b"
  by (auto simp: checked_sub_def)

lemma checked_sub_None [outcome_simps]: "checked_sub a b = None \<longleftrightarrow> a < b"
  by (auto simp: checked_sub_def)

lemma unat_lt2p: "unat (w :: 'a::len word) < 2 ^ LENGTH('a)"
  by (rule unsigned_less)

lemma unat_u64_le_usize_MAX: "unat (v :: u64) \<le> usize_MAX"
  using unat_lt2p [of v] by (simp add: usize_MAX_def)

text \<open>On a 64-bit target the conversion never fails.\<close>

lemma usize_of_u64_eq [simp]: "usize_of_u64 v = Some (unat v)"
  by (simp add: usize_of_u64_def unat_u64_le_usize_MAX)

lemma rust_slice_usize: "rust_slice bs \<Longrightarrow> length bs \<le> usize_MAX"
  by (simp add: rust_slice_def usize_MAX_def isize_MAX_def)

lemma rust_slice_drop [simp]: "rust_slice bs \<Longrightarrow> rust_slice (drop n bs)"
  by (simp add: rust_slice_def)

lemma rust_slice_append1: "rust_slice (xs @ ys) \<Longrightarrow> rust_slice xs"
  by (simp add: rust_slice_def)

lemma rust_slice_append2: "rust_slice (xs @ ys) \<Longrightarrow> rust_slice ys"
  by (simp add: rust_slice_def)

section \<open>Byte orders\<close>

text \<open>\<open>n\<close> bytes of a value, least significant first, and back.\<close>

fun le_list :: "nat \<Rightarrow> nat \<Rightarrow> bytes" where
  "le_list 0 v = []"
| "le_list (Suc n) v = word_of_nat (v mod 256) # le_list n (v div 256)"

fun le_nat :: "bytes \<Rightarrow> nat" where
  "le_nat [] = 0"
| "le_nat (b # bs) = unat b + 256 * le_nat bs"

definition be_list :: "nat \<Rightarrow> nat \<Rightarrow> bytes" where
  "be_list n v = rev (le_list n v)"

definition be_nat :: "bytes \<Rightarrow> nat" where
  "be_nat bs = le_nat (rev bs)"

lemma length_le_list [simp]: "length (le_list n v) = n"
  by (induction n arbitrary: v) auto

lemma length_be_list [simp]: "length (be_list n v) = n"
  by (simp add: be_list_def)

lemma unat_u8_mod [simp]: "unat (word_of_nat (v mod 256) :: u8) = v mod 256"
  by (simp add: unat_of_nat)

lemma le_nat_le_list: "v < 256 ^ n \<Longrightarrow> le_nat (le_list n v) = v"
proof (induction n arbitrary: v)
  case 0
  then show ?case by simp
next
  case (Suc n)
  then have "v div 256 < 256 ^ n" by (simp add: less_mult_imp_div_less mult.commute)
  with Suc.IH show ?case by simp
qed

lemma le_nat_bound: "le_nat bs < 256 ^ length bs"
proof (induction bs)
  case Nil
  then show ?case by simp
next
  case (Cons b bs)
  have "unat b < 256" using unat_lt2p [of b] by simp
  with Cons show ?case by simp
qed

lemma le_list_le_nat: "le_list (length bs) (le_nat bs) = bs"
proof (induction bs)
  case Nil
  then show ?case by simp
next
  case (Cons b bs)
  have "unat b < 256" using unat_lt2p [of b] by simp
  with Cons show ?case by simp
qed

lemma be_nat_be_list: "v < 256 ^ n \<Longrightarrow> be_nat (be_list n v) = v"
  by (simp add: be_nat_def be_list_def le_nat_le_list)

lemma be_list_be_nat: "be_list (length bs) (be_nat bs) = bs"
  using le_list_le_nat [of "rev bs"] by (simp add: be_nat_def be_list_def)

lemma be_nat_bound: "be_nat bs < 256 ^ length bs"
  using le_nat_bound [of "rev bs"] by (simp add: be_nat_def)

text \<open>The four conversions the code uses.\<close>

definition u16_to_be_bytes :: "u16 \<Rightarrow> bytes" where
  "u16_to_be_bytes w = be_list 2 (unat w)"

definition u16_from_be_bytes :: "bytes \<Rightarrow> u16" where
  "u16_from_be_bytes bs = word_of_nat (be_nat bs)"

definition u32_to_be_bytes :: "u32 \<Rightarrow> bytes" where
  "u32_to_be_bytes w = be_list 4 (unat w)"

definition u32_from_be_bytes :: "bytes \<Rightarrow> u32" where
  "u32_from_be_bytes bs = word_of_nat (be_nat bs)"

lemma length_u16_to_be_bytes [simp]: "length (u16_to_be_bytes w) = 2"
  by (simp add: u16_to_be_bytes_def)

lemma length_u32_to_be_bytes [simp]: "length (u32_to_be_bytes w) = 4"
  by (simp add: u32_to_be_bytes_def)

lemma u16_from_to_be_bytes [simp]: "u16_from_be_bytes (u16_to_be_bytes w) = w"
  using unat_lt2p [of w] by (simp add: u16_from_be_bytes_def u16_to_be_bytes_def be_nat_be_list)

lemma u32_from_to_be_bytes [simp]: "u32_from_be_bytes (u32_to_be_bytes w) = w"
  using unat_lt2p [of w] by (simp add: u32_from_be_bytes_def u32_to_be_bytes_def be_nat_be_list)

lemma u16_to_from_be_bytes: "length bs = 2 \<Longrightarrow> u16_to_be_bytes (u16_from_be_bytes bs) = bs"
  using be_nat_bound [of bs] be_list_be_nat [of bs]
  by (simp add: u16_from_be_bytes_def u16_to_be_bytes_def unat_of_nat)

lemma u32_to_from_be_bytes: "length bs = 4 \<Longrightarrow> u32_to_be_bytes (u32_from_be_bytes bs) = bs"
  using be_nat_bound [of bs] be_list_be_nat [of bs]
  by (simp add: u32_from_be_bytes_def u32_to_be_bytes_def unat_of_nat)

section \<open>Lists\<close>

text \<open>The ASCII bytes of a string literal, as \<open>as_bytes\<close> gives them.\<close>

definition ascii :: "string \<Rightarrow> bytes" where
  "ascii s = map (\<lambda>c. word_of_nat (of_char c)) s"

lemma length_ascii [simp]: "length (ascii s) = length s"
  by (simp add: ascii_def)

lemma take_append_exact [simp]: "n = length xs \<Longrightarrow> take n (xs @ ys) = xs"
  by simp

lemma length_concat_const:
  "(\<And>x. x \<in> set xs \<Longrightarrow> length x = n) \<Longrightarrow> length (concat xs) = n * length xs"
  by (induction xs) auto

end
