(* ===== verification/Ll_Types.thy ===== *)
theory Ll_Types
  imports Prelude
begin

text \<open>
  The enumerations and constants of the core crate (\<open>bip138-ll/src/lib.rs\<close>): errors, format version,
  encryption algorithm, content types and padding policies, with their one-byte codes.
\<close>

section \<open>Constants\<close>

definition DECRYPTION_SECRET :: bytes where
  "DECRYPTION_SECRET = ascii ''BIP138_DECRYPTION_SECRET''"

definition INDIVIDUAL_SECRET :: bytes where
  "INDIVIDUAL_SECRET = ascii ''BIP138_INDIVIDUAL_SECRET''"

definition MAGIC :: bytes where
  "MAGIC = ascii ''BIP138''"

definition PADDING_MIN_SIZE :: nat where
  "PADDING_MIN_SIZE = 10 * 1024"

definition PADDING_GROWTH_NUMERATOR :: nat where
  "PADDING_GROWTH_NUMERATOR = 5"

definition PADDING_GROWTH_DENOMINATOR :: nat where
  "PADDING_GROWTH_DENOMINATOR = 4"

definition COMMON_ACCOUNT_MAX :: nat where
  "COMMON_ACCOUNT_MAX = 9"

definition XONLY_KEY_SIZE :: nat where
  "XONLY_KEY_SIZE = 32"

definition NUMS_XONLY :: bytes where
  "NUMS_XONLY =
    [0x50, 0x92, 0x9b, 0x74, 0xc1, 0xa0, 0x49, 0x54, 0xb7, 0x8b, 0x4b, 0x60, 0x35, 0xe9, 0x7a, 0x5e,
     0x07, 0x8a, 0x5a, 0x0f, 0x28, 0xec, 0x96, 0xd5, 0x47, 0xbf, 0xee, 0x9a, 0xce, 0x80, 0x3a, 0xc0]"

lemma MAGIC_eq: "MAGIC = [66, 73, 80, 49, 51, 56]"
  by (simp add: MAGIC_def ascii_def)

lemma length_MAGIC [simp]: "length MAGIC = 6"
  by (simp add: MAGIC_def)

lemma length_NUMS_XONLY: "length NUMS_XONLY = XONLY_KEY_SIZE"
  by (simp add: NUMS_XONLY_def XONLY_KEY_SIZE_def)

section \<open>Errors\<close>

datatype ll_error =
    E_KeyCount
  | E_DerivPathCount
  | E_DerivPathLength
  | E_DerivPathEmpty
  | E_DataLength
  | E_Encrypt
  | E_Decrypt
  | E_Corrupted
  | E_Version
  | E_Magic
  | E_VarInt
  | E_WrongKey
  | E_IndividualSecretsEmpty
  | E_IndividualSecretsLength
  | E_CypherTextEmpty
  | E_CypherTextLength
  | E_ContentMetadata
  | E_Encryption
  | E_OffsetOverflow
  | E_EmptyBytes
  | E_Increment
  | E_ContentMetadataEmpty
  | E_ContentEnd
  | E_EncryptionReserved
  | E_ZeroedNonce
  | E_Padding

type_synonym 'a ll = "(ll_error, 'a) outcome"

section \<open>Version\<close>

datatype version = V0 | V1 | VersionUnknown

fun u8_of_version :: "version \<Rightarrow> u8" where
  "u8_of_version V0 = 0"
| "u8_of_version V1 = 1"
| "u8_of_version VersionUnknown = 0xFF"

definition version_of_u8 :: "u8 \<Rightarrow> version" where
  "version_of_u8 v = (if v = 0 then V0 else if v = 1 then V1 else VersionUnknown)"

definition version_max :: version where
  "version_max = V1"

fun version_is_valid :: "version \<Rightarrow> bool" where
  "version_is_valid VersionUnknown = False"
| "version_is_valid V0 = True"
| "version_is_valid V1 = True"

lemma version_of_u8_of_version [simp]: "version_of_u8 (u8_of_version v) = v"
  by (cases v) (simp_all add: version_of_u8_def)

section \<open>Encryption\<close>

datatype encryption = Undefined | ChaCha20Poly1305 | AesGcm256 | EncryptionUnknown

definition encryption_of_u8 :: "u8 \<Rightarrow> encryption" where
  "encryption_of_u8 v =
     (if v = 0 then Undefined else if v = 1 then ChaCha20Poly1305 else EncryptionUnknown)"

fun u8_of_encryption :: "encryption \<Rightarrow> u8" where
  "u8_of_encryption Undefined = 0x00"
| "u8_of_encryption ChaCha20Poly1305 = 0x01"
| "u8_of_encryption AesGcm256 = 0x01"
| "u8_of_encryption EncryptionUnknown = 0xFF"

fun encryption_is_defined :: "encryption \<Rightarrow> bool" where
  "encryption_is_defined Undefined = False"
| "encryption_is_defined EncryptionUnknown = False"
| "encryption_is_defined AesGcm256 = True"
| "encryption_is_defined ChaCha20Poly1305 = True"

section \<open>Content\<close>

datatype content =
    Content_None
  | Content_Bip138
  | Content_Bip139
  | Content_Bip380
  | Content_Bip388
  | Content_Bip329
  | Content_BIP u16
  | Content_Proprietary bytes
  | Content_String
  | Content_Unknown

definition CONTENT_END :: u8 where "CONTENT_END = 0x00"
definition CONTENT_BIP :: u8 where "CONTENT_BIP = 0x01"
definition CONTENT_PROPRIETARY :: u8 where "CONTENT_PROPRIETARY = 0x02"
definition CONTENT_STRING :: u8 where "CONTENT_STRING = 0x03"
definition CONTENT_UPGRADE :: u8 where "CONTENT_UPGRADE = 0x80"

lemmas content_type_defs =
  CONTENT_END_def CONTENT_BIP_def CONTENT_PROPRIETARY_def CONTENT_STRING_def CONTENT_UPGRADE_def

fun content_is_known :: "content \<Rightarrow> bool" where
  "content_is_known Content_None = False"
| "content_is_known Content_Unknown = False"
| "content_is_known (Content_Proprietary _) = False"
| "content_is_known Content_Bip138 = True"
| "content_is_known Content_Bip139 = True"
| "content_is_known Content_Bip380 = True"
| "content_is_known Content_Bip388 = True"
| "content_is_known Content_Bip329 = True"
| "content_is_known (Content_BIP _) = True"
| "content_is_known Content_String = True"

section \<open>Padding\<close>

datatype padding = Padding_None | Padding_Geometric

end
