(* ===== verification/Cursor.thy ===== *)
theory Cursor
  imports Ll_Types
begin

text \<open>
  The bounds checks every parser of the core goes through (\<open>check_offset\<close>, \<open>check_offset_lookahead\<close>,
  \<open>init_offset\<close>, \<open>increment_offset\<close>), and the one-byte header fields: magic, version, encryption.
  Shown: what each check means on slices, and that none of the field parsers panics.
\<close>

section \<open>Offsets\<close>

definition check_offset :: "nat \<Rightarrow> bytes \<Rightarrow> unit ll" where
  "check_offset offset bs = (if length bs \<le> offset then Err E_Corrupted else Ok ())"

definition check_offset_lookahead :: "nat \<Rightarrow> bytes \<Rightarrow> nat \<Rightarrow> unit ll" where
  "check_offset_lookahead offset bs lookahead =
     andThen (ok_or E_Increment (checked_add offset lookahead)) (\<lambda>t.
     andThen (ok_or E_Increment (checked_sub t 1)) (\<lambda>target.
     if length bs \<le> target then Err E_Corrupted else Ok ()))"

definition init_offset :: "bytes \<Rightarrow> nat \<Rightarrow> nat ll" where
  "init_offset bs value = andThen (check_offset value bs) (\<lambda>_. Ok value)"

text \<open>The first sum is a plain \<open>+\<close>, evaluated before the checked one.\<close>

definition increment_offset :: "bytes \<Rightarrow> nat \<Rightarrow> nat \<Rightarrow> nat ll" where
  "increment_offset bs offset incr =
     andThen (plain_add offset incr) (\<lambda>t.
     andThen (check_offset t bs) (\<lambda>_.
     ok_or E_OffsetOverflow (checked_add offset incr)))"

lemma check_offset_Ok [outcome_simps]: "check_offset a bs = Ok u \<longleftrightarrow> a < length bs"
  by (auto simp: check_offset_def)

lemma check_offset_Err [outcome_simps]:
  "check_offset a bs = Err e \<longleftrightarrow> length bs \<le> a \<and> e = E_Corrupted"
  by (auto simp: check_offset_def)

lemma check_offset_not_Panic [simp]: "check_offset a bs \<noteq> Panic"
  by (simp add: check_offset_def)

lemma check_offset_not_Diverges [simp]: "check_offset a bs \<noteq> Diverges"
  by (simp add: check_offset_def)

lemma check_offset_lookahead_Ok [outcome_simps]:
  "check_offset_lookahead a bs k = Ok u \<longleftrightarrow> 0 < a + k \<and> a + k \<le> length bs \<and> a + k \<le> usize_MAX"
  by (auto simp: check_offset_lookahead_def outcome_simps)

lemma check_offset_lookahead_not_Panic [simp]: "check_offset_lookahead a bs k \<noteq> Panic"
  by (auto simp: check_offset_lookahead_def outcome_simps)

lemma check_offset_lookahead_not_Diverges [simp]: "check_offset_lookahead a bs k \<noteq> Diverges"
  by (auto simp: check_offset_lookahead_def outcome_simps)

lemma check_offset_lookahead_Err:
  "check_offset_lookahead a bs k = Err e \<Longrightarrow> e = E_Increment \<or> e = E_Corrupted"
  by (auto simp: check_offset_lookahead_def outcome_simps split: if_splits)

lemma init_offset_Ok [outcome_simps]: "init_offset bs v = Ok w \<longleftrightarrow> v < length bs \<and> w = v"
  by (auto simp: init_offset_def outcome_simps)

lemma init_offset_Err [outcome_simps]:
  "init_offset bs v = Err e \<longleftrightarrow> length bs \<le> v \<and> e = E_Corrupted"
  by (auto simp: init_offset_def outcome_simps)

lemma init_offset_not_Panic [simp]: "init_offset bs v \<noteq> Panic"
  by (simp add: init_offset_def outcome_simps)

lemma init_offset_not_Diverges [simp]: "init_offset bs v \<noteq> Diverges"
  by (simp add: init_offset_def outcome_simps)

lemma increment_offset_Ok [outcome_simps]:
  "increment_offset bs a k = Ok b \<longleftrightarrow> b = a + k \<and> a + k < length bs \<and> a + k \<le> usize_MAX"
  by (auto simp: increment_offset_def outcome_simps)

lemma increment_offset_Panic [outcome_simps]:
  "increment_offset bs a k = Panic \<longleftrightarrow> usize_MAX < a + k"
  by (auto simp: increment_offset_def outcome_simps)

lemma increment_offset_not_Diverges [simp]: "increment_offset bs a k \<noteq> Diverges"
  by (auto simp: increment_offset_def outcome_simps)

lemma increment_offset_Err [outcome_simps]:
  "increment_offset bs a k = Err e \<longleftrightarrow> e = E_Corrupted \<and> length bs \<le> a + k \<and> a + k \<le> usize_MAX"
  by (auto simp: increment_offset_def outcome_simps)

section \<open>Magic, version, encryption\<close>

definition parse_magic_byte :: "bytes \<Rightarrow> nat ll" where
  "parse_magic_byte bs =
     (if length bs < length MAGIC \<or> take (length MAGIC) bs \<noteq> MAGIC then Err E_Magic
      else Ok (length MAGIC))"

definition parse_version :: "bytes \<Rightarrow> (nat \<times> u8) ll" where
  "parse_version bs =
     (if bs = [] then Err E_Version
      else andThen (index_at bs 0) (\<lambda>version.
        if version = u8_of_version V0 \<or> version > u8_of_version version_max then Err E_Version
        else Ok (1, version)))"

definition parse_encryption :: "bytes \<Rightarrow> (nat \<times> u8) ll" where
  "parse_encryption bs =
     (if bs = [] then Err E_Encryption
      else andThen (index_at bs 0) (\<lambda>encryption.
        if encryption = 0x00 then Err E_EncryptionReserved else Ok (1, encryption)))"

lemma parse_magic_byte_Ok [outcome_simps]:
  "parse_magic_byte bs = Ok n \<longleftrightarrow> n = 6 \<and> take 6 bs = MAGIC"
proof -
  have "take 6 bs = MAGIC \<Longrightarrow> 6 \<le> length bs"
    by (metis length_MAGIC length_take min.cobounded1)
  then show ?thesis by (auto simp: parse_magic_byte_def)
qed

lemma parse_magic_byte_not_Panic [simp]: "parse_magic_byte bs \<noteq> Panic"
  by (simp add: parse_magic_byte_def)

lemma parse_magic_byte_not_Diverges [simp]: "parse_magic_byte bs \<noteq> Diverges"
  by (simp add: parse_magic_byte_def)

lemma u8_between_0_1: "(v :: u8) \<noteq> 0 \<and> v \<le> 1 \<longleftrightarrow> v = 1"
  by (auto simp: word_le_nat_alt word_unat_eq_iff)

text \<open>Version 1 is the only one accepted.\<close>

lemma parse_version_Ok [outcome_simps]:
  "parse_version bs = Ok r \<longleftrightarrow> (\<exists>rest. bs = 1 # rest) \<and> r = (1, 1)"
  using u8_between_0_1
  by (cases bs) (auto simp: parse_version_def version_max_def outcome_simps not_less)

lemma parse_version_not_Panic [simp]: "parse_version bs \<noteq> Panic"
  by (auto simp: parse_version_def outcome_simps)

lemma parse_version_not_Diverges [simp]: "parse_version bs \<noteq> Diverges"
  by (auto simp: parse_version_def outcome_simps)

lemma parse_encryption_Ok [outcome_simps]:
  "parse_encryption bs = Ok r \<longleftrightarrow> (\<exists>b rest. bs = b # rest \<and> b \<noteq> 0 \<and> r = (1, b))"
  by (cases bs) (auto simp: parse_encryption_def outcome_simps)

lemma parse_encryption_not_Panic [simp]: "parse_encryption bs \<noteq> Panic"
  by (auto simp: parse_encryption_def outcome_simps)

lemma parse_encryption_not_Diverges [simp]: "parse_encryption bs \<noteq> Diverges"
  by (auto simp: parse_encryption_def outcome_simps)

end
