(* ===== verification/Codec.thy ===== *)
theory Codec
  imports Ll_Types
begin

text \<open>
  The contract every field of the wire format meets. A field has an encoder \<open>enc\<close>, a decoder \<open>dec\<close>
  that reads a value at the front of a byte string and reports how many bytes it used, and a
  predicate \<open>ok\<close> saying which values the encoder accepts. The law \<open>dec_enc\<close> is the round trip in
  the middle of a message: whatever follows the encoding, the decoder reads the value back and
  stops at the end of the encoding. The law \<open>dec_bound\<close> says the decoder never reports more bytes
  than there are.
\<close>

text \<open>\<open>k\<close> fields in a row: the values and the number of bytes used.\<close>

fun dec_many :: "(bytes \<Rightarrow> ('a \<times> nat) option) \<Rightarrow> nat \<Rightarrow> bytes \<Rightarrow> ('a list \<times> nat) option" where
  "dec_many dec 0 bs = Some ([], 0)"
| "dec_many dec (Suc k) bs =
     (case dec bs of None \<Rightarrow> None
      | Some (x, n) \<Rightarrow>
          (case dec_many dec k (drop n bs) of None \<Rightarrow> None
           | Some (xs, m) \<Rightarrow> Some (x # xs, n + m)))"

lemma dec_many_Suc_Some:
  "dec_many dec (Suc k) bs = Some r \<longleftrightarrow>
    (\<exists>x n xs m. dec bs = Some (x, n) \<and> dec_many dec k (drop n bs) = Some (xs, m) \<and> r = (x # xs, n + m))"
  by (auto split: option.splits)

locale prefix_codec =
  fixes enc :: "'a \<Rightarrow> bytes"
    and dec :: "bytes \<Rightarrow> ('a \<times> nat) option"
    and ok :: "'a \<Rightarrow> bool"
  assumes dec_enc: "ok x \<Longrightarrow> dec (enc x @ rest) = Some (x, length (enc x))"
    and dec_bound: "dec bs = Some (x, n) \<Longrightarrow> n \<le> length bs"
begin

lemma dec_enc_nil: "ok x \<Longrightarrow> dec (enc x) = Some (x, length (enc x))"
  using dec_enc [of x "[]"] by simp

text \<open>No encoding is a proper prefix of another: a field never needs a terminator.\<close>

lemma prefix_free: "ok x \<Longrightarrow> ok y \<Longrightarrow> enc x @ r = enc y @ s \<Longrightarrow> x = y \<and> r = s"
proof -
  assume x: "ok x" and y: "ok y" and eq: "enc x @ r = enc y @ s"
  have "Some (x, length (enc x)) = Some (y, length (enc y))"
    using dec_enc [OF x, of r] dec_enc [OF y, of s] eq by simp
  then have "x = y" by simp
  with eq show ?thesis by simp
qed

lemma enc_inj: "ok x \<Longrightarrow> ok y \<Longrightarrow> enc x = enc y \<Longrightarrow> x = y"
  using prefix_free [of x y "[]" "[]"] by simp

text \<open>A sequence of fields reads back as the sequence of values.\<close>

lemma dec_many_enc:
  "list_all ok xs \<Longrightarrow> dec_many dec (length xs) (concat (map enc xs) @ rest) =
    Some (xs, length (concat (map enc xs)))"
proof (induction xs)
  case Nil
  show ?case by simp
next
  case (Cons x xs)
  have "ok x" using Cons.prems by simp
  from dec_enc [OF this] have "dec (enc x @ concat (map enc xs) @ rest) = Some (x, length (enc x))" .
  moreover have "dec_many dec (length xs) (concat (map enc xs) @ rest) =
      Some (xs, length (concat (map enc xs)))"
    using Cons by simp
  ultimately show ?case by simp
qed

lemma dec_many_bound:
  "dec_many dec k bs = Some (xs, n) \<Longrightarrow> n \<le> length bs \<and> length xs = k"
proof (induction k arbitrary: bs xs n)
  case 0
  then show ?case by simp
next
  case (Suc k)
  then obtain x i ys m where d: "dec bs = Some (x, i)" "dec_many dec k (drop i bs) = Some (ys, m)"
    and r: "xs = x # ys" "n = i + m" by (auto simp: dec_many_Suc_Some simp del: dec_many.simps)
  from Suc.IH [OF d(2)] dec_bound [OF d(1)] r show ?case by auto
qed

lemma concat_enc_inj:
  assumes "list_all ok xs" and "list_all ok ys" and "length xs = length ys"
    and "concat (map enc xs) @ r = concat (map enc ys) @ s"
  shows "xs = ys"
proof -
  have "dec_many dec (length xs) (concat (map enc xs) @ r) = Some (xs, length (concat (map enc xs)))"
    by (rule dec_many_enc [OF assms(1)])
  moreover have "dec_many dec (length xs) (concat (map enc xs) @ r) =
      Some (ys, length (concat (map enc ys)))"
    unfolding assms(3,4) by (rule dec_many_enc [OF assms(2)])
  ultimately show ?thesis by simp
qed

end

text \<open>
  A canonical field has one encoding per value: what the decoder reads is what the encoder would
  have written. A decoder that accepted padded or non-minimal forms would not meet it.
\<close>

locale canonical_codec = prefix_codec +
  assumes dec_canonical: "dec bs = Some (x, n) \<Longrightarrow> ok x \<and> take n bs = enc x"
begin

lemma dec_split: "dec bs = Some (x, n) \<Longrightarrow> bs = enc x @ drop n bs \<and> n = length (enc x)"
proof -
  assume d: "dec bs = Some (x, n)"
  then have t: "take n bs = enc x" using dec_canonical by blast
  then have "bs = enc x @ drop n bs" by (metis append_take_drop_id)
  moreover have "n = length (enc x)" using t dec_bound [OF d] by (metis length_take min.absorb2)
  ultimately show ?thesis by simp
qed

lemma dec_iff: "dec bs = Some (x, n) \<longleftrightarrow> ok x \<and> n = length (enc x) \<and> take n bs = enc x"
proof
  assume "dec bs = Some (x, n)"
  then show "ok x \<and> n = length (enc x) \<and> take n bs = enc x"
    using dec_canonical dec_split by blast
next
  assume a: "ok x \<and> n = length (enc x) \<and> take n bs = enc x"
  then have "bs = enc x @ drop n bs" by (metis append_take_drop_id)
  with a show "dec bs = Some (x, n)" by (metis dec_enc)
qed

text \<open>Reading does not depend on what follows the field.\<close>

lemma dec_append: "dec bs = Some (x, n) \<Longrightarrow> dec (bs @ t) = Some (x, n)"
proof -
  assume d: "dec bs = Some (x, n)"
  then have "n \<le> length bs" by (rule dec_bound)
  with d show ?thesis by (auto simp: dec_iff)
qed

lemma dec_many_canonical:
  "dec_many dec k bs = Some (xs, n) \<Longrightarrow>
    list_all ok xs \<and> bs = concat (map enc xs) @ drop n bs \<and> n = length (concat (map enc xs))"
proof (induction k arbitrary: bs xs n)
  case 0
  then show ?case by simp
next
  case (Suc k)
  then obtain x i ys m where d: "dec bs = Some (x, i)" "dec_many dec k (drop i bs) = Some (ys, m)"
    and r: "xs = x # ys" "n = i + m" by (auto simp: dec_many_Suc_Some simp del: dec_many.simps)
  have i: "bs = enc x @ drop i bs" "i = length (enc x)" using dec_split [OF d(1)] by blast+
  have "ok x" using dec_canonical [OF d(1)] by blast
  have IH: "list_all ok ys" "drop i bs = concat (map enc ys) @ drop m (drop i bs)"
    "m = length (concat (map enc ys))" using Suc.IH [OF d(2)] by blast+
  have "bs = enc x @ concat (map enc ys) @ drop n bs"
    using i(1) IH(2) by (simp add: r(2) add.commute)
  with \<open>ok x\<close> IH i r show ?case by simp
qed

lemma dec_many_append: "dec_many dec k bs = Some (xs, n) \<Longrightarrow> dec_many dec k (bs @ t) = Some (xs, n)"
proof (induction k arbitrary: bs xs n)
  case 0
  then show ?case by simp
next
  case (Suc k)
  then obtain x i ys m where d: "dec bs = Some (x, i)" "dec_many dec k (drop i bs) = Some (ys, m)"
    and r: "xs = x # ys" "n = i + m" by (auto simp: dec_many_Suc_Some simp del: dec_many.simps)
  from dec_append [OF d(1)] Suc.IH [OF d(2)] dec_bound [OF d(1)] r show ?case by simp
qed

end

end
