(* ===== verification/Varint.thy ===== *)
theory Varint
  imports Codec
begin

text \<open>
  Bitcoin's CompactSize integers (\<open>bip138-ll/src/varint.rs\<close>): one byte below \<open>0xFD\<close>, else a marker
  byte and 2, 4 or 8 little-endian bytes. Non-minimal encodings are rejected. Shown: the round
  trip, that exactly the minimal encodings are accepted, and the sizes.
\<close>

definition varint_encode :: "u64 \<Rightarrow> bytes" where
  "varint_encode value =
     (if value \<le> 0xFC then [ucast value]
      else if value \<le> 0xFFFF then 0xFD # le_list 2 (unat (ucast value :: u16))
      else if value \<le> 0xFFFFFFFF then 0xFE # le_list 4 (unat (ucast value :: u32))
      else 0xFF # le_list 8 (unat value))"

definition get_range :: "bytes \<Rightarrow> nat \<Rightarrow> nat \<Rightarrow> bytes option" where
  "get_range bs a b = (if a \<le> b \<and> b \<le> length bs then Some (take (b - a) (drop a bs)) else None)"

definition varint_parse :: "bytes \<Rightarrow> (u64 \<times> nat) option" where
  "varint_parse bs =
     (case bs of [] \<Rightarrow> None
      | first # _ \<Rightarrow>
          if first = 0xFF then
            Option.bind (get_range bs 1 9) (\<lambda>raw.
              let value = (word_of_nat (le_nat raw) :: u64)
              in if value \<ge> 0x100000000 then Some (value, 9) else None)
          else if first = 0xFE then
            Option.bind (get_range bs 1 5) (\<lambda>raw.
              let value = (ucast (word_of_nat (le_nat raw) :: u32) :: u64)
              in if value \<ge> 0x10000 then Some (value, 5) else None)
          else if first = 0xFD then
            Option.bind (get_range bs 1 3) (\<lambda>raw.
              let value = (ucast (word_of_nat (le_nat raw) :: u16) :: u64)
              in if value \<ge> 0xFD then Some (value, 3) else None)
          else Some (ucast first, 1))"

section \<open>Word lemmas\<close>

lemma unat_ucast_fits:
  "unat (v :: 'a::len word) < 2 ^ LENGTH('b) \<Longrightarrow> unat (ucast v :: 'b::len word) = unat v"
  by (simp add: unsigned_ucast_eq take_bit_nat_eq_self)

lemma unat_ucast_up:
  "LENGTH('a) \<le> LENGTH('b) \<Longrightarrow> unat (ucast (v :: 'a::len word) :: 'b::len word) = unat v"
proof -
  assume "LENGTH('a) \<le> LENGTH('b)"
  then have "(2::nat) ^ LENGTH('a) \<le> 2 ^ LENGTH('b)" by simp
  with unat_lt2p [of v] show ?thesis by (intro unat_ucast_fits) linarith
qed

lemma unat_le_numeral_u64: "v \<le> (numeral k :: u64) \<longleftrightarrow> unat v \<le> unat (numeral k :: u64)"
  by (simp add: word_le_nat_alt)

text \<open>The three multi-byte forms, each with its marker and its range of values.\<close>

lemma varint_form_cases:
  fixes v :: u64
  obtains (one) "unat v < 0xFD" "varint_encode v = [ucast v]"
    | (three) "0xFD \<le> unat v" "unat v < 2 ^ 16" "varint_encode v = 0xFD # le_list 2 (unat v)"
    | (five) "2 ^ 16 \<le> unat v" "unat v < 2 ^ 32" "varint_encode v = 0xFE # le_list 4 (unat v)"
    | (nine) "2 ^ 32 \<le> unat v" "varint_encode v = 0xFF # le_list 8 (unat v)"
proof -
  have u16: "unat v \<le> 0xFFFF \<Longrightarrow> unat (ucast v :: u16) = unat v" by (rule unat_ucast_fits) simp
  have u32: "unat v \<le> 0xFFFFFFFF \<Longrightarrow> unat (ucast v :: u32) = unat v" by (rule unat_ucast_fits) simp
  consider "unat v \<le> 0xFC" | "0xFC < unat v" "unat v \<le> 0xFFFF"
    | "0xFFFF < unat v" "unat v \<le> 0xFFFFFFFF" | "0xFFFFFFFF < unat v" by linarith
  then show ?thesis
  proof cases
    case 1
    then show ?thesis by (intro one) (simp_all add: varint_encode_def word_le_nat_alt)
  next
    case 2
    then show ?thesis by (intro three) (simp_all add: varint_encode_def word_le_nat_alt u16)
  next
    case 3
    then show ?thesis by (intro five) (simp_all add: varint_encode_def word_le_nat_alt u32)
  next
    case 4
    then show ?thesis by (intro nine) (simp_all add: varint_encode_def word_le_nat_alt)
  qed
qed

lemma length_varint_encode_bounds: "1 \<le> length (varint_encode v) \<and> length (varint_encode v) \<le> 9"
  by (cases v rule: varint_form_cases) simp_all

lemma varint_encode_not_Nil [simp]: "varint_encode v \<noteq> []"
  using length_varint_encode_bounds [of v] by auto

section \<open>Reading a multi-byte form\<close>

lemma word_of_le_nat_u16: "length raw = 2 \<Longrightarrow> unat (word_of_nat (le_nat raw) :: u16) = le_nat raw"
  using le_nat_bound [of raw] by (simp add: unat_of_nat)

lemma word_of_le_nat_u32: "length raw = 4 \<Longrightarrow> unat (word_of_nat (le_nat raw) :: u32) = le_nat raw"
  using le_nat_bound [of raw] by (simp add: unat_of_nat)

lemma word_of_le_nat_u64: "length raw = 8 \<Longrightarrow> unat (word_of_nat (le_nat raw) :: u64) = le_nat raw"
  using le_nat_bound [of raw] by (simp add: unat_of_nat)

lemma get_range_1 [simp]:
  "get_range (b # bs) (Suc 0) (Suc k) = (if k \<le> length bs then Some (take k bs) else None)"
  by (simp add: get_range_def)

lemma varint_parse_Nil [simp]: "varint_parse [] = None"
  by (simp add: varint_parse_def)

lemma varint_parse_FF:
  "varint_parse (0xFF # bs) =
     (if 8 \<le> length bs \<and> 2 ^ 32 \<le> le_nat (take 8 bs) then Some (word_of_nat (le_nat (take 8 bs)), 9)
      else None)"
  by (simp add: varint_parse_def get_range_def Let_def word_le_nat_alt word_of_le_nat_u64)

lemma varint_parse_FE:
  "varint_parse (0xFE # bs) =
     (if 4 \<le> length bs \<and> 2 ^ 16 \<le> le_nat (take 4 bs) then Some (word_of_nat (le_nat (take 4 bs)), 5)
      else None)"
proof -
  have "ucast (word_of_nat (le_nat raw) :: u32) = (word_of_nat (le_nat raw) :: u64)"
    if "length raw = 4" for raw
    using that le_nat_bound [of raw]
    by (intro word_unat_eq_iff [THEN iffD2]) (simp add: unat_ucast_up word_of_le_nat_u32 unat_of_nat)
  then show ?thesis
    by (simp add: varint_parse_def get_range_def Let_def word_le_nat_alt word_of_le_nat_u32
        unat_ucast_up)
qed

lemma varint_parse_FD:
  "varint_parse (0xFD # bs) =
     (if 2 \<le> length bs \<and> 0xFD \<le> le_nat (take 2 bs) then Some (word_of_nat (le_nat (take 2 bs)), 3)
      else None)"
proof -
  have "ucast (word_of_nat (le_nat raw) :: u16) = (word_of_nat (le_nat raw) :: u64)"
    if "length raw = 2" for raw
    using that le_nat_bound [of raw]
    by (intro word_unat_eq_iff [THEN iffD2]) (simp add: unat_ucast_up word_of_le_nat_u16 unat_of_nat)
  then show ?thesis
    by (simp add: varint_parse_def get_range_def Let_def word_le_nat_alt word_of_le_nat_u16
        unat_ucast_up)
qed

lemma varint_parse_small:
  "b \<noteq> 0xFD \<Longrightarrow> b \<noteq> 0xFE \<Longrightarrow> b \<noteq> 0xFF \<Longrightarrow> varint_parse (b # bs) = Some (ucast b, 1)"
  by (simp add: varint_parse_def)

section \<open>Round trip and canonicity\<close>

lemma varint_parse_encode:
  "varint_parse (varint_encode v @ rest) = Some (v, length (varint_encode v))"
proof (cases v rule: varint_form_cases)
  case one
  then have u: "unat (ucast v :: u8) = unat v" by (intro unat_ucast_fits) simp
  have "(ucast v :: u8) \<noteq> 0xFD" "(ucast v :: u8) \<noteq> 0xFE" "(ucast v :: u8) \<noteq> 0xFF"
    using one(1) u by (auto simp: word_unat_eq_iff)
  moreover have "ucast (ucast v :: u8) = v"
    by (simp add: word_unat_eq_iff unat_ucast_up u)
  ultimately show ?thesis using one by (simp add: varint_parse_small)
next
  case three
  then show ?thesis by (simp add: varint_parse_FD le_nat_le_list)
next
  case five
  then show ?thesis by (simp add: varint_parse_FE le_nat_le_list)
next
  case nine
  have "unat v < 256 ^ 8" using unat_lt2p [of v] by simp
  with nine show ?thesis by (simp add: varint_parse_FF le_nat_le_list)
qed

lemma le_list_take: "n \<le> length bs \<Longrightarrow> le_list n (le_nat (take n bs)) = take n bs"
  using le_list_le_nat [of "take n bs"] by (simp add: min_absorb2)

lemma varint_parse_canonical:
  assumes p: "varint_parse bs = Some (v, n)"
  shows "n \<le> length bs \<and> take n bs = varint_encode v"
proof (cases bs)
  case Nil
  with p show ?thesis by simp
next
  case (Cons b bs')
  consider (FF) "b = 0xFF" | (FE) "b = 0xFE" | (FD) "b = 0xFD"
    | (small) "b \<noteq> 0xFD" "b \<noteq> 0xFE" "b \<noteq> 0xFF" by blast
  then show ?thesis
  proof cases
    case FF
    with p Cons have len: "8 \<le> length bs'" and big: "2 ^ 32 \<le> le_nat (take 8 bs')"
      and v: "v = word_of_nat (le_nat (take 8 bs'))" and n: "n = 9"
      by (auto simp: varint_parse_FF split: if_splits)
    from len v have "unat v = le_nat (take 8 bs')" by (simp add: word_of_le_nat_u64)
    with big len show ?thesis unfolding Cons FF n
      by (cases v rule: varint_form_cases) (simp_all add: le_list_take)
  next
    case FE
    with p Cons have len: "4 \<le> length bs'" and big: "2 ^ 16 \<le> le_nat (take 4 bs')"
      and v: "v = word_of_nat (le_nat (take 4 bs'))" and n: "n = 5"
      by (auto simp: varint_parse_FE split: if_splits)
    have small: "le_nat (take 4 bs') < 2 ^ 32" using le_nat_bound [of "take 4 bs'"] len by (simp add: min_absorb2)
    with v have "unat v = le_nat (take 4 bs')" by (simp add: unat_of_nat)
    with big small len show ?thesis unfolding Cons FE n
      by (cases v rule: varint_form_cases) (simp_all add: le_list_take)
  next
    case FD
    with p Cons have len: "2 \<le> length bs'" and big: "0xFD \<le> le_nat (take 2 bs')"
      and v: "v = word_of_nat (le_nat (take 2 bs'))" and n: "n = 3"
      by (auto simp: varint_parse_FD split: if_splits)
    have small: "le_nat (take 2 bs') < 2 ^ 16" using le_nat_bound [of "take 2 bs'"] len by (simp add: min_absorb2)
    with v have "unat v = le_nat (take 2 bs')" by (simp add: unat_of_nat)
    with big small len show ?thesis unfolding Cons FD n
      by (cases v rule: varint_form_cases) (simp_all add: le_list_take)
  next
    case small
    with p Cons have v: "v = ucast b" and n: "n = 1" by (auto simp: varint_parse_small)
    have ub: "unat v = unat b" by (simp add: v unat_ucast_up)
    have "unat b < 256" using unat_lt2p [of b] by simp
    with small have "unat b < 0xFD" by (auto simp: word_unat_eq_iff)
    moreover have "ucast v = b"
      using \<open>unat b < 256\<close> by (intro word_unat_eq_iff [THEN iffD2]) (simp add: unat_ucast_fits ub)
    ultimately show ?thesis unfolding Cons n using ub
      by (cases v rule: varint_form_cases) simp_all
  qed
qed

interpretation varint: canonical_codec varint_encode varint_parse "\<lambda>_. True"
  by unfold_locales (auto simp: varint_parse_encode dest: varint_parse_canonical)

lemma varint_parse_bounds: "varint_parse bs = Some (v, n) \<Longrightarrow> 1 \<le> n \<and> n \<le> 9 \<and> n \<le> length bs"
  using length_varint_encode_bounds [of v] varint.dec_split varint.dec_bound by metis

section \<open>Property\<close>

text \<open>
  C31. The parser of a varint accepts exactly the minimal encodings: it returns a value and a length if
  and only if the input starts with what the encoder writes for that value, of that length.
\<close>

theorem varint_exact:
  "varint_parse bs = Some (v, n) \<longleftrightarrow>
     (\<exists>rest. bs = varint_encode v @ rest \<and> n = length (varint_encode v))"
proof
  assume "varint_parse bs = Some (v, n)"
  from varint.dec_split [OF this] show "\<exists>rest. bs = varint_encode v @ rest \<and> n = length (varint_encode v)"
    by blast
qed (auto simp: varint_parse_encode)

end
