(* ===== verification/Ordered_Sets.thy ===== *)
theory Ordered_Sets
  imports Prelude
begin

text \<open>
  Rust's \<open>BTreeSet\<close>, as the code uses it: insert elements, then iterate in increasing order. The
  model is the strictly increasing list of the elements. \<open>sort()\<close> followed by \<open>dedup()\<close> on a
  vector is the other way the code normalises a collection; both give the increasing list of the
  distinct elements, so neither depends on the order or the repetitions of the input.
\<close>

section \<open>The interface\<close>

locale ordered_set =
  fixes empty :: "'s"
    and insert_elem :: "'a::linorder \<Rightarrow> 's \<Rightarrow> 's"
    and elems :: "'s \<Rightarrow> 'a list"
  assumes elems_empty: "elems empty = []"
    and sorted_insert: "sorted_wrt (<) (elems s) \<Longrightarrow> sorted_wrt (<) (elems (insert_elem x s))"
    and set_insert: "set (elems (insert_elem x s)) = insert x (set (elems s))"
begin

lemma sorted_extend:
  "sorted_wrt (<) (elems s) \<Longrightarrow> sorted_wrt (<) (elems (fold insert_elem xs s))"
  by (induction xs arbitrary: s) (auto simp: sorted_insert)

lemma set_extend: "set (elems (fold insert_elem xs s)) = set xs \<union> set (elems s)"
  by (induction xs arbitrary: s) (auto simp: set_insert)

lemma sorted_collect: "sorted_wrt (<) (elems (fold insert_elem xs empty))"
  by (rule sorted_extend) (simp add: elems_empty)

lemma set_collect: "set (elems (fold insert_elem xs empty)) = set xs"
  by (simp add: set_extend elems_empty)

lemma collect_eq: "elems (fold insert_elem xs empty) = sorted_list_of_set (set xs)"
  by (rule strict_sorted_equal) (simp_all add: sorted_collect set_collect)

lemma collect_cong:
  "set xs = set ys \<Longrightarrow> elems (fold insert_elem xs empty) = elems (fold insert_elem ys empty)"
  by (simp add: collect_eq)

end

section \<open>The model\<close>

fun btree_insert :: "'a::linorder \<Rightarrow> 'a list \<Rightarrow> 'a list" where
  "btree_insert x [] = [x]"
| "btree_insert x (y # ys) =
     (if x < y then x # y # ys else if x = y then y # ys else y # btree_insert x ys)"

definition btree_extend :: "'a::linorder list \<Rightarrow> 'a list \<Rightarrow> 'a list" where
  "btree_extend s xs = fold btree_insert xs s"

definition btree_collect :: "'a::linorder list \<Rightarrow> 'a list" where
  "btree_collect xs = btree_extend [] xs"

definition sort_dedup :: "'a::linorder list \<Rightarrow> 'a list" where
  "sort_dedup xs = remdups_adj (sort xs)"

lemma btree_extend_Nil [simp]: "btree_extend s [] = s"
  by (simp add: btree_extend_def)

lemma btree_extend_Cons [simp]: "btree_extend s (x # xs) = btree_extend (btree_insert x s) xs"
  by (simp add: btree_extend_def)

lemma set_btree_insert [simp]: "set (btree_insert x s) = insert x (set s)"
  by (induction s) auto

lemma sorted_btree_insert: "sorted_wrt (<) s \<Longrightarrow> sorted_wrt (<) (btree_insert x s)"
  by (induction s) auto

interpretation bts: ordered_set "[]" btree_insert "\<lambda>s. s"
  by unfold_locales (auto simp: sorted_btree_insert)

lemma btree_collect_eq: "btree_collect xs = sorted_list_of_set (set xs)"
  using bts.collect_eq by (simp add: btree_collect_def btree_extend_def)

lemma btree_extend_eq:
  "sorted_wrt (<) s \<Longrightarrow> btree_extend s xs = sorted_list_of_set (set s \<union> set xs)"
  unfolding btree_extend_def
  by (rule strict_sorted_equal) (auto simp: bts.sorted_extend bts.set_extend)

lemma set_btree_collect [simp]: "set (btree_collect xs) = set xs"
  by (simp add: btree_collect_eq)

lemma sorted_btree_collect [simp]: "sorted_wrt (<) (btree_collect xs)"
  by (simp add: btree_collect_eq)

lemma sorted_remdups_adj_strict: "sorted xs \<Longrightarrow> sorted_wrt (<) (remdups_adj xs)"
  by (induction xs rule: remdups_adj.induct) (auto simp: less_le)

lemma sort_dedup_eq: "sort_dedup xs = sorted_list_of_set (set xs)"
  unfolding sort_dedup_def
  by (rule strict_sorted_equal) (simp_all add: sorted_remdups_adj_strict)

lemma set_sort_dedup [simp]: "set (sort_dedup xs) = set xs"
  by (simp add: sort_dedup_eq)

lemma sorted_sort_dedup [simp]: "sorted_wrt (<) (sort_dedup xs)"
  by (simp add: sort_dedup_eq)

lemma sort_dedup_idem: "sorted_wrt (<) xs \<Longrightarrow> sort_dedup xs = xs"
  by (rule strict_sorted_equal) simp_all

lemma btree_collect_idem: "sorted_wrt (<) xs \<Longrightarrow> btree_collect xs = xs"
  by (rule strict_sorted_equal) simp_all

lemma length_sorted_list_of_set_le: "length (sorted_list_of_set (set xs)) \<le> length xs"
  by (metis card_length length_sorted_list_of_set)

lemma sorted_wrt_less_distinct: "sorted_wrt (<) (xs :: 'a::linorder list) \<Longrightarrow> distinct xs"
  by (simp add: strict_sorted_iff)

end
