(* ===== verification/Derivation.thy ===== *)
theory Derivation
  imports Ll_Types Ordered_Sets
begin

text \<open>
  BIP32 derivation paths in the core crate (\<open>bip138-ll/src/derivation.rs\<close>) and the common paths a
  decoder tries by itself (\<open>common_derivation_paths\<close>). Paths are ordered lexicographically on the
  raw child numbers, as the derived \<open>Ord\<close> is.
\<close>

unbundle bit_operations_syntax

definition HARDENED_BIT :: u32 where
  "HARDENED_BIT = push_bit 31 1"

datatype deriv_path = DerivationPath "u32 list"

fun to_u32_vec :: "deriv_path \<Rightarrow> u32 list" where
  "to_u32_vec (DerivationPath cs) = cs"

definition first_index :: "deriv_path \<Rightarrow> u32 option" where
  "first_index p = (case to_u32_vec p of [] \<Rightarrow> None | index # _ \<Rightarrow> Some (index AND NOT HARDENED_BIT))"

definition path_is_empty :: "deriv_path \<Rightarrow> bool" where
  "path_is_empty p \<longleftrightarrow> to_u32_vec p = []"

definition path_len :: "deriv_path \<Rightarrow> nat" where
  "path_len p = length (to_u32_vec p)"

definition hardened :: "u32 \<Rightarrow> u32" where
  "hardened index = index OR HARDENED_BIT"

lemma to_u32_vec_inject: "to_u32_vec p = to_u32_vec q \<longleftrightarrow> p = q"
  by (cases p; cases q) simp

lemma DerivationPath_to_u32_vec [simp]: "DerivationPath (to_u32_vec p) = p"
  by (cases p) simp

instantiation deriv_path :: linorder
begin

definition less_eq_deriv_path :: "deriv_path \<Rightarrow> deriv_path \<Rightarrow> bool" where
  "less_eq_deriv_path p q \<longleftrightarrow> to_u32_vec p \<le> to_u32_vec q"

definition less_deriv_path :: "deriv_path \<Rightarrow> deriv_path \<Rightarrow> bool" where
  "less_deriv_path p q \<longleftrightarrow> to_u32_vec p < to_u32_vec q"

instance
proof
  fix p q r :: deriv_path
  show "p < q \<longleftrightarrow> p \<le> q \<and> \<not> q \<le> p"
    by (auto simp: less_eq_deriv_path_def less_deriv_path_def)
  show "p \<le> p" by (simp add: less_eq_deriv_path_def)
  show "p \<le> q \<Longrightarrow> q \<le> r \<Longrightarrow> p \<le> r" by (simp add: less_eq_deriv_path_def)
  show "p \<le> q \<Longrightarrow> q \<le> p \<Longrightarrow> p = q"
    by (simp add: less_eq_deriv_path_def flip: to_u32_vec_inject)
  show "p \<le> q \<or> q \<le> p" by (auto simp: less_eq_deriv_path_def)
qed

end

section \<open>Common paths\<close>

text \<open>For each account the two script types under purpose 48, then the other purposes.\<close>

definition common_derivation_paths :: "u32 \<Rightarrow> deriv_path list" where
  "common_derivation_paths coin_type =
     concat (map (\<lambda>account. map (\<lambda>script_type.
         DerivationPath [hardened 48, hardened coin_type, hardened (word_of_nat account), hardened script_type])
       [1, 2]) [0..<COMMON_ACCOUNT_MAX + 1])
     @ concat (map (\<lambda>purpose. map (\<lambda>account.
         DerivationPath [hardened purpose, hardened coin_type, hardened (word_of_nat account)])
       [0..<COMMON_ACCOUNT_MAX + 1]) [44, 49, 84, 86, 87])"

definition fallback_derivation_path_set :: "deriv_path list" where
  "fallback_derivation_path_set =
     fold (\<lambda>coin_type paths. btree_extend paths (common_derivation_paths coin_type)) [0, 1] []"

lemma set_fallback_derivation_path_set:
  "set fallback_derivation_path_set =
     set (common_derivation_paths 0) \<union> set (common_derivation_paths 1)"
  by (auto simp: fallback_derivation_path_set_def btree_extend_def bts.set_extend)

lemma length_common_derivation_paths: "length (common_derivation_paths c) = 70"
  by (simp add: common_derivation_paths_def COMMON_ACCOUNT_MAX_def upt_rec)

end
