(* ===== verification/Padding.thy ===== *)
theory Padding
  imports Ll_Types
begin

text \<open>
  How much the code pads: the number of individual secrets is rounded up to a doubling bucket
  (\<open>doubling_bucket\<close>), the plaintext to a geometric one (\<open>geometric_bucket\<close>, \<open>Padding::padded_size\<close>
  of \<open>bip138-ll/src/lib.rs\<close>). Shown: both loops return, the exact bucket, that it is never below the
  length, the overhead bound, and where the 128-bit numerator overflows.
\<close>

section \<open>Doubling buckets\<close>

definition u8_MAX :: nat where
  "u8_MAX = 255"

definition doubling_body :: "nat \<Rightarrow> nat \<Rightarrow> (nat + nat) ll" where
  "doubling_body len bucket =
     (if bucket < len then andThen (plain_mul bucket 2) (\<lambda>b. Ok (Inl b)) else Ok (Inr bucket))"

definition doubling_bucket :: "nat \<Rightarrow> nat ll" where
  "doubling_bucket len =
     (if len > u8_MAX then Err E_IndividualSecretsLength
      else andThen (run_loop (doubling_body len) 5) (\<lambda>bucket. Ok (min bucket u8_MAX)))"

lemma doubling_loop_step:
  "b \<le> 1000 \<Longrightarrow> run_loop (doubling_body len) b = (if b < len then run_loop (doubling_body len) (b * 2) else Ok b)"
  by (subst run_loop_unfold) (simp add: doubling_body_def plain_mul_def usize_MAX_def)

lemma doubling_bucket_eq:
  "doubling_bucket len =
     (if len \<le> 5 then Ok 5 else if len \<le> 10 then Ok 10 else if len \<le> 20 then Ok 20
      else if len \<le> 40 then Ok 40 else if len \<le> 80 then Ok 80 else if len \<le> 160 then Ok 160
      else if len \<le> 255 then Ok 255 else Err E_IndividualSecretsLength)"
  by (simp add: doubling_bucket_def u8_MAX_def doubling_loop_step)

lemma doubling_bucket_Ok:
  "doubling_bucket len = Ok t \<Longrightarrow> len \<le> t \<and> 5 \<le> t \<and> t \<le> 255 \<and> len \<le> 255"
  by (auto simp: doubling_bucket_eq split: if_splits)

lemma doubling_bucket_total: "len \<le> 255 \<Longrightarrow> \<exists>t. doubling_bucket len = Ok t"
  by (simp add: doubling_bucket_eq)

section \<open>Geometric buckets\<close>

definition checked_div_u128 :: "nat \<Rightarrow> nat \<Rightarrow> nat ll" where
  "checked_div_u128 a b = (if b = 0 then Panic else Ok (a div b))"

fun geometric_body :: "nat \<Rightarrow> nat \<times> nat \<times> nat \<Rightarrow> ((nat \<times> nat \<times> nat) + nat) ll" where
  "geometric_body len (numerator, denominator, target) =
     (if target < len then
        andThen (ok_or E_Padding (checked_mul_u128 numerator PADDING_GROWTH_NUMERATOR)) (\<lambda>n.
        andThen (ok_or E_Padding (checked_mul_u128 denominator PADDING_GROWTH_DENOMINATOR)) (\<lambda>d.
        andThen (checked_div_u128 n d) (\<lambda>t. Ok (Inl (n, d, t)))))
      else Ok (Inr target))"

definition geometric_bucket :: "nat \<Rightarrow> nat ll" where
  "geometric_bucket len =
     (if len \<le> PADDING_MIN_SIZE then Ok PADDING_MIN_SIZE
      else
        andThen (checked_div_u128 PADDING_MIN_SIZE 1) (\<lambda>target.
        andThen (run_loop (geometric_body len) (PADDING_MIN_SIZE, 1, target)) (\<lambda>target.
        if target \<le> usize_MAX then Ok target else Err E_Padding)))"

definition padded_size :: "padding \<Rightarrow> nat \<Rightarrow> nat ll" where
  "padded_size p len = (case p of Padding_None \<Rightarrow> Ok len | Padding_Geometric \<Rightarrow> geometric_bucket len)"

text \<open>The \<open>k\<close>-th bucket, and the last one whose numerator fits 128 bits.\<close>

definition bucket_at :: "nat \<Rightarrow> nat" where
  "bucket_at k = (10240 * 5 ^ k) div 4 ^ k"

definition LAST_BUCKET :: nat where
  "LAST_BUCKET = 49"

lemma bucket_at_0: "bucket_at 0 = PADDING_MIN_SIZE"
  by (simp add: bucket_at_def PADDING_MIN_SIZE_def)

lemma bucket_at_Suc_le: "bucket_at k \<le> bucket_at (Suc k)"
proof -
  have "bucket_at k = (10240 * 5 ^ k * 4) div (4 ^ k * 4)" by (simp add: bucket_at_def)
  also have "\<dots> \<le> (10240 * 5 ^ k * 5) div (4 ^ k * 4)" by (rule div_le_mono) simp
  finally show ?thesis by (simp add: bucket_at_def mult.commute mult.left_commute)
qed

lemma bucket_at_mono: "j \<le> k \<Longrightarrow> bucket_at j \<le> bucket_at k"
  by (rule lift_Suc_mono_le [of bucket_at]) (auto intro: bucket_at_Suc_le)

lemma bucket_at_last: "bucket_at LAST_BUCKET = 573971850"
  by (simp add: bucket_at_def LAST_BUCKET_def)

text \<open>A bucket exceeds the one before by a quarter at most.\<close>

lemma bucket_at_growth:
  assumes "bucket_at k < len"
  shows "4 * bucket_at (Suc k) \<le> 5 * len"
proof -
  have lt: "10240 * 5 ^ k < len * 4 ^ k"
    using assms by (simp add: bucket_at_def div_less_iff_less_mult)
  have "4 * bucket_at (Suc k) \<le> (4 * (10240 * 5 ^ Suc k)) div 4 ^ Suc k"
    unfolding bucket_at_def
    by (subst less_eq_div_iff_mult_less_eq) (simp_all only: mult.assoc div_times_less_eq_dividend
        mult_le_mono2 zero_less_power zero_less_numeral)
  also have "\<dots> = (5 * (10240 * 5 ^ k)) div 4 ^ k" by simp
  also have "\<dots> \<le> (5 * (len * 4 ^ k)) div 4 ^ k" using lt by (intro div_le_mono) simp
  also have "\<dots> = 5 * len" by simp
  finally show ?thesis .
qed

lemma numerator_fits: "k < LAST_BUCKET \<Longrightarrow> 10240 * 5 ^ Suc k \<le> u128_MAX"
proof -
  assume "k < LAST_BUCKET"
  then have "(5::nat) ^ Suc k \<le> 5 ^ 49" by (intro power_increasing) (auto simp: LAST_BUCKET_def)
  then have "10240 * 5 ^ Suc k \<le> 10240 * (5::nat) ^ 49" by simp
  also have "\<dots> \<le> u128_MAX" by (simp add: u128_MAX_def)
  finally show ?thesis .
qed

lemma denominator_fits: "k < LAST_BUCKET \<Longrightarrow> 4 ^ Suc k \<le> u128_MAX"
proof -
  assume "k < LAST_BUCKET"
  then have "(4::nat) ^ Suc k \<le> 4 ^ 49" by (intro power_increasing) (auto simp: LAST_BUCKET_def)
  also have "\<dots> \<le> u128_MAX" by (simp add: u128_MAX_def)
  finally show ?thesis .
qed

definition geometric_state :: "nat \<Rightarrow> nat \<times> nat \<times> nat" where
  "geometric_state k = (10240 * 5 ^ k, 4 ^ k, bucket_at k)"

lemma geometric_body_state:
  assumes "k \<le> LAST_BUCKET"
  shows "geometric_body len (geometric_state k) =
    (if bucket_at k < len then
       if k < LAST_BUCKET then Ok (Inl (geometric_state (Suc k))) else Err E_Padding
     else Ok (Inr (bucket_at k)))"
proof (cases "k < LAST_BUCKET")
  case True
  have "checked_mul_u128 (10240 * 5 ^ k) PADDING_GROWTH_NUMERATOR = Some (10240 * 5 ^ Suc k)"
    using numerator_fits [OF True] by (simp add: checked_mul_u128_def PADDING_GROWTH_NUMERATOR_def mult.commute)
  moreover have "checked_mul_u128 (4 ^ k) PADDING_GROWTH_DENOMINATOR = Some (4 ^ Suc k)"
    using denominator_fits [OF True] by (simp add: checked_mul_u128_def PADDING_GROWTH_DENOMINATOR_def mult.commute)
  moreover have "checked_div_u128 (10240 * 5 ^ Suc k) (4 ^ Suc k) = Ok (bucket_at (Suc k))"
    by (simp add: checked_div_u128_def bucket_at_def)
  ultimately show ?thesis using True
    by (simp add: geometric_state_def del: power_Suc)
next
  case False
  with assms have k: "k = 49" by (simp add: LAST_BUCKET_def)
  have "checked_mul_u128 (10240 * 5 ^ 49) PADDING_GROWTH_NUMERATOR = None"
    by (simp add: checked_mul_u128_def PADDING_GROWTH_NUMERATOR_def u128_MAX_def)
  then show ?thesis by (simp add: geometric_state_def k LAST_BUCKET_def del: power_numeral mult_numeral_left_semiring_numeral)
qed

definition least_bucket :: "nat \<Rightarrow> nat \<Rightarrow> bool" where
  "least_bucket len k \<longleftrightarrow> len \<le> bucket_at k \<and> (\<forall>j<k. bucket_at j < len)"

lemma geometric_loop:
  "(\<exists>k\<le>LAST_BUCKET. least_bucket len k \<and> run_loop (geometric_body len) (geometric_state 0) = Ok (bucket_at k)) \<or>
   (bucket_at LAST_BUCKET < len \<and> run_loop (geometric_body len) (geometric_state 0) = Err E_Padding)"
proof (rule run_loop_rule [where
      I = "\<lambda>s. \<exists>k\<le>LAST_BUCKET. s = geometric_state k \<and> (\<forall>j<k. bucket_at j < len)" and
      m = "\<lambda>(n, d, t). u128_MAX - n"])
  show "\<exists>k\<le>LAST_BUCKET. geometric_state 0 = geometric_state k \<and> (\<forall>j<k. bucket_at j < len)" by blast
next
  fix s s'
  assume "\<exists>k\<le>LAST_BUCKET. s = geometric_state k \<and> (\<forall>j<k. bucket_at j < len)"
    and step: "geometric_body len s = Ok (Inl s')"
  then obtain k where k: "k \<le> LAST_BUCKET" "s = geometric_state k" "\<forall>j<k. bucket_at j < len" by blast
  with step have lt: "k < LAST_BUCKET" "bucket_at k < len" "s' = geometric_state (Suc k)"
    by (auto simp: geometric_body_state split: if_splits)
  have "\<forall>j<Suc k. bucket_at j < len" using k(3) lt(2) by (auto simp: less_Suc_eq)
  moreover have "10240 * 5 ^ k < 10240 * (5::nat) ^ Suc k" by simp
  moreover from this have "10240 * 5 ^ k < u128_MAX" using numerator_fits [OF lt(1)] by linarith
  ultimately show "(\<exists>k\<le>LAST_BUCKET. s' = geometric_state k \<and> (\<forall>j<k. bucket_at j < len)) \<and>
      (case s' of (n, d, t) \<Rightarrow> u128_MAX - n) < (case s of (n, d, t) \<Rightarrow> u128_MAX - n)"
    using lt k(2) numerator_fits [OF lt(1)]
    by (auto simp: geometric_state_def Suc_le_eq intro!: exI [of _ "Suc k"] diff_less_mono2)
next
  fix s r
  assume "\<exists>k\<le>LAST_BUCKET. s = geometric_state k \<and> (\<forall>j<k. bucket_at j < len)"
    and "geometric_body len s = Ok (Inr r)"
  then show "(\<exists>k\<le>LAST_BUCKET. least_bucket len k \<and> Ok r = Ok (bucket_at k)) \<or>
      bucket_at LAST_BUCKET < len \<and> Ok r = Err E_Padding"
    by (auto simp: geometric_body_state least_bucket_def split: if_splits)
next
  fix s e
  assume "\<exists>k\<le>LAST_BUCKET. s = geometric_state k \<and> (\<forall>j<k. bucket_at j < len)"
    and "geometric_body len s = Err e"
  then show "(\<exists>k\<le>LAST_BUCKET. least_bucket len k \<and> Err e = Ok (bucket_at k)) \<or>
      bucket_at LAST_BUCKET < len \<and> Err e = Err E_Padding"
    by (auto simp: geometric_body_state not_less split: if_splits)
next
  fix s
  assume "\<exists>k\<le>LAST_BUCKET. s = geometric_state k \<and> (\<forall>j<k. bucket_at j < len)"
  then show "geometric_body len s \<noteq> Panic \<and> geometric_body len s \<noteq> Diverges"
    by (auto simp: geometric_body_state split: if_splits)
qed

lemma least_bucket_0: "least_bucket len 0 \<longleftrightarrow> len \<le> PADDING_MIN_SIZE"
  by (simp add: least_bucket_def bucket_at_0)

lemma bucket_fits_usize: "k \<le> LAST_BUCKET \<Longrightarrow> bucket_at k \<le> usize_MAX"
  using bucket_at_mono [of k LAST_BUCKET] by (simp add: bucket_at_last usize_MAX_def)

lemma geometric_bucket_cases:
  obtains (fits) k where "k \<le> LAST_BUCKET" "least_bucket len k" "geometric_bucket len = Ok (bucket_at k)"
    | (overflow) "bucket_at LAST_BUCKET < len" "geometric_bucket len = Err E_Padding"
proof (cases "len \<le> PADDING_MIN_SIZE")
  case True
  then show ?thesis
    by (intro fits [of 0]) (simp_all add: least_bucket_0 geometric_bucket_def bucket_at_0)
next
  case False
  have s0: "(PADDING_MIN_SIZE, 1, PADDING_MIN_SIZE) = geometric_state 0"
    by (simp add: geometric_state_def bucket_at_0) (simp add: PADDING_MIN_SIZE_def)
  from False have eq: "geometric_bucket len =
      andThen (run_loop (geometric_body len) (geometric_state 0)) (\<lambda>target.
        if target \<le> usize_MAX then Ok target else Err E_Padding)"
    by (simp add: geometric_bucket_def checked_div_u128_def s0 [symmetric])
  from geometric_loop [of len] show ?thesis
    by (elim disjE exE conjE) (auto simp: eq bucket_fits_usize intro: fits overflow)
qed

lemma least_bucket_upper:
  assumes "least_bucket len k"
  shows "k = 0 \<or> 4 * bucket_at k \<le> 5 * len"
proof (cases k)
  case (Suc j)
  with assms have "bucket_at j < len" by (simp add: least_bucket_def)
  then have "4 * bucket_at (Suc j) \<le> 5 * len" by (rule bucket_at_growth)
  with Suc show ?thesis by simp
qed simp

lemma geometric_bucket_Ok:
  assumes "geometric_bucket len = Ok t"
  shows "len \<le> t \<and> PADDING_MIN_SIZE \<le> t \<and> (t = PADDING_MIN_SIZE \<or> 4 * t \<le> 5 * len)"
proof (cases rule: geometric_bucket_cases [of len])
  case (fits k)
  with assms have t: "t = bucket_at k" by simp
  have "PADDING_MIN_SIZE \<le> t" using bucket_at_mono [of 0 k] by (simp add: t bucket_at_0)
  with fits(2) least_bucket_upper [OF fits(2)] show ?thesis
    by (auto simp: t least_bucket_def bucket_at_0)
next
  case overflow
  with assms show ?thesis by simp
qed

lemma geometric_bucket_Err_iff: "geometric_bucket len = Err e \<longleftrightarrow> e = E_Padding \<and> 573971850 < len"
proof (cases rule: geometric_bucket_cases [of len])
  case (fits k)
  then have "len \<le> bucket_at LAST_BUCKET"
    using bucket_at_mono [of k LAST_BUCKET] by (auto simp: least_bucket_def)
  with fits show ?thesis by (simp add: bucket_at_last)
next
  case overflow
  then show ?thesis by (auto simp: bucket_at_last)
qed

lemma geometric_bucket_returns [simp]:
  "geometric_bucket len \<noteq> Panic" "geometric_bucket len \<noteq> Diverges"
  by (cases rule: geometric_bucket_cases [of len]; simp)+

lemma padded_size_ge: "padded_size p len = Ok t \<Longrightarrow> len \<le> t"
  by (cases p) (auto simp: padded_size_def dest: geometric_bucket_Ok)

lemma padded_size_returns [simp]: "padded_size p len \<noteq> Panic" "padded_size p len \<noteq> Diverges"
  by (cases p; simp add: padded_size_def)+

lemma geometric_bucket_eq:
  "geometric_bucket len =
     (if len \<le> 573971850 then Ok (bucket_at (LEAST k. len \<le> bucket_at k)) else Err E_Padding)"
proof (cases rule: geometric_bucket_cases [of len])
  case (fits k)
  then have "(LEAST k. len \<le> bucket_at k) = k"
    by (intro Least_equality) (auto simp: least_bucket_def not_less [symmetric])
  with fits show ?thesis
    using bucket_at_mono [of k LAST_BUCKET] by (auto simp: least_bucket_def bucket_at_last)
next
  case overflow
  then show ?thesis by (simp add: bucket_at_last)
qed

section \<open>Properties\<close>

text \<open>
  C14. The integer loop of the geometric padding computes the least bucket that holds the payload, where
  bucket \<open>k\<close> is the size 10240 scaled by \<open>(5/4)^k\<close> and rounded down; it fails, with the padding
  error, exactly above the fiftieth bucket, 573971850 bytes, where the numerator leaves 128 bits.
\<close>

theorem geometric_bucket_exact:
  "geometric_bucket len =
     (if len \<le> 573971850 then Ok (bucket_at (LEAST k. len \<le> bucket_at k)) else Err E_Padding)"
  by (rule geometric_bucket_eq)

text \<open>
  The number of individual secrets is padded to the least of 5, 10, 20, 40, 80, 160 and 255 that
  holds them; more than 255 is an error.
\<close>

lemma doubling_bucket_least:
  "doubling_bucket len =
     (if len \<le> 255 then Ok (Min {t \<in> {5, 10, 20, 40, 80, 160, 255}. len \<le> t})
      else Err E_IndividualSecretsLength)"
proof -
  let ?T = "{5, 10, 20, 40, 80, 160, 255 :: nat}"
  have m: "Min {t \<in> ?T. len \<le> t} = u"
    if "u \<in> ?T" "len \<le> u" "\<forall>t \<in> ?T. t < u \<longrightarrow> t < len" for u
    using that by (intro Min_eqI) (auto simp: not_less [symmetric] simp del: insert_iff)
  have "Min {t \<in> ?T. len \<le> t} =
      (if len \<le> 5 then 5 else if len \<le> 10 then 10 else if len \<le> 20 then 20 else if len \<le> 40 then 40
       else if len \<le> 80 then 80 else if len \<le> 160 then 160 else 255)" if "len \<le> 255"
    using that by (intro m) auto
  then show ?thesis by (auto simp: doubling_bucket_eq)
qed

end
