(* ===== verification/Wire.thy ===== *)
theory Wire
  imports Cursor Varint Derivation Padding
begin

text \<open>
  The fields of the version 1 envelope (\<open>bip138-ll/src/lib.rs\<close>): derivation paths, individual
  secrets, encrypted payload. The encoders sort and deduplicate, the parsers collect into ordered
  sets. Shown: each parser, with its offsets and bounds checks, reads exactly a count and that many
  canonical fields; the round trip of every field with any bytes after it; what a parser returns can
  be encoded again and reads back as itself; no parser panics or diverges on any input.
\<close>

section \<open>Encoders\<close>

fun encode_paths_loop :: "deriv_path list \<Rightarrow> bytes \<Rightarrow> bytes ll" where
  "encode_paths_loop [] encoded_paths = Ok encoded_paths"
| "encode_paths_loop (path # derivation_paths) encoded_paths =
     (let childs = to_u32_vec path; len = length childs in
      if len = 0 then Err E_DerivPathEmpty
      else if len > u8_MAX then Err E_DerivPathLength
      else encode_paths_loop derivation_paths
        (encoded_paths @ [word_of_nat len] @ concat (map u32_to_be_bytes childs)))"

definition encode_derivation_paths :: "deriv_path list \<Rightarrow> bytes ll" where
  "encode_derivation_paths derivation_paths =
     (let derivation_paths = sort_dedup derivation_paths in
      if length derivation_paths > u8_MAX then Err E_DerivPathLength
      else encode_paths_loop derivation_paths [word_of_nat (length derivation_paths)])"

definition encode_individual_secrets :: "bytes list \<Rightarrow> bytes ll" where
  "encode_individual_secrets individual_secrets =
     (let individual_secrets = sort_dedup individual_secrets in
      if length individual_secrets > u8_MAX then Err E_IndividualSecretsLength
      else if individual_secrets = [] then Err E_IndividualSecretsEmpty
      else Ok (fold (\<lambda>s out. out @ s) individual_secrets [word_of_nat (length individual_secrets)]))"

definition encode_encrypted_payload :: "bytes \<Rightarrow> bytes \<Rightarrow> bytes ll" where
  "encode_encrypted_payload nonce cyphertext =
     (if cyphertext = [] then Err E_CypherTextEmpty
      else Ok (nonce @ varint_encode (word_of_nat (length cyphertext)) @ cyphertext))"

section \<open>Parsers\<close>

definition ZERO_NONCE :: bytes where
  "ZERO_NONCE = replicate 12 0"

fun parse_childs :: "bytes \<Rightarrow> nat \<Rightarrow> nat \<times> u32 list \<Rightarrow> (nat \<times> u32 list) ll" where
  "parse_childs bs 0 (offset, childs) = Ok (offset, childs)"
| "parse_childs bs (Suc k) (offset, childs) =
     andThen (check_offset_lookahead offset bs 4) (\<lambda>_.
     andThen (plain_add offset 4) (\<lambda>fin.
     andThen (slice_range bs offset fin) (\<lambda>raw_child.
     parse_childs bs k (fin, childs @ [u32_from_be_bytes raw_child]))))"

fun parse_paths :: "bytes \<Rightarrow> nat \<Rightarrow> nat \<times> deriv_path list \<Rightarrow> (nat \<times> deriv_path list) ll" where
  "parse_paths bs 0 (offset, paths) = Ok (offset, paths)"
| "parse_paths bs (Suc k) (offset, paths) =
     andThen (check_offset offset bs) (\<lambda>_.
     andThen (index_at bs offset) (\<lambda>child_count.
     if child_count = 0 then Err E_DerivPathEmpty
     else
       andThen (plain_add offset 1) (\<lambda>offset.
       andThen (parse_childs bs (unat child_count) (offset, [])) (\<lambda>(offset, childs).
       parse_paths bs k (offset, btree_insert (DerivationPath childs) paths)))))"

definition parse_derivation_paths :: "bytes \<Rightarrow> (nat \<times> deriv_path list) ll" where
  "parse_derivation_paths bs =
     andThen (map_err (\<lambda>_. E_DerivPathEmpty) (init_offset bs 0)) (\<lambda>offset.
     andThen (index_at bs 0) (\<lambda>count.
     if count \<noteq> 0 then
       andThen (increment_offset bs offset 1) (\<lambda>offset.
       parse_paths bs (unat count) (offset, []))
     else andThen (plain_add offset 1) (\<lambda>offset. Ok (offset, []))))"

fun parse_secrets :: "bytes \<Rightarrow> nat \<Rightarrow> nat \<times> bytes list \<Rightarrow> (nat \<times> bytes list) ll" where
  "parse_secrets bs 0 (offset, secrets) = Ok (offset, secrets)"
| "parse_secrets bs (Suc k) (offset, secrets) =
     andThen (check_offset_lookahead offset bs 32) (\<lambda>_.
     andThen (plain_add offset 32) (\<lambda>fin.
     andThen (slice_range bs offset fin) (\<lambda>secret.
     parse_secrets bs k (fin, btree_insert secret secrets))))"

definition parse_individual_secrets :: "bytes \<Rightarrow> (nat \<times> bytes list) ll" where
  "parse_individual_secrets bs =
     (if bs = [] then Err E_EmptyBytes
      else
        andThen (index_at bs 0) (\<lambda>count.
        if count < 1 then Err E_IndividualSecretsEmpty
        else
          andThen (init_offset bs 1) (\<lambda>offset.
          parse_secrets bs (unat count) (offset, []))))"

definition parse_encrypted_payload :: "bytes \<Rightarrow> (bytes \<times> bytes) ll" where
  "parse_encrypted_payload bs =
     andThen (init_offset bs 0) (\<lambda>offset.
     andThen (check_offset_lookahead offset bs 12) (\<lambda>_.
     andThen (plain_add offset 12) (\<lambda>fin.
     andThen (slice_range bs offset fin) (\<lambda>nonce.
     if nonce = ZERO_NONCE then Err E_ZeroedNonce
     else
       andThen (increment_offset bs offset 12) (\<lambda>offset.
       andThen (slice_from bs offset) (\<lambda>tail.
       andThen (ok_or E_VarInt (varint_parse tail)) (\<lambda>(raw_len, incr).
       andThen (ok_or E_DataLength (usize_of_u64 raw_len)) (\<lambda>data_len.
       andThen (ok_or E_OffsetOverflow (checked_add offset incr)) (\<lambda>offset.
       andThen (check_offset_lookahead offset bs data_len) (\<lambda>_.
       andThen (plain_add offset data_len) (\<lambda>fin.
       andThen (slice_range bs offset fin) (\<lambda>cyphertext.
       Ok (nonce, cyphertext)))))))))))))"

definition parse_encrypted_payload_length :: "bytes \<Rightarrow> nat \<Rightarrow> (nat \<times> nat) ll" where
  "parse_encrypted_payload_length bs offset =
     andThen (check_offset_lookahead offset bs 12) (\<lambda>_.
     andThen (plain_add offset 12) (\<lambda>fin.
     andThen (slice_range bs offset fin) (\<lambda>nonce.
     if nonce = ZERO_NONCE then Err E_ZeroedNonce
     else
       andThen (ok_or E_OffsetOverflow (checked_add offset 12)) (\<lambda>offset.
       andThen (slice_from bs offset) (\<lambda>tail.
       andThen (ok_or E_VarInt (varint_parse tail)) (\<lambda>(raw_len, incr).
       andThen (ok_or E_DataLength (usize_of_u64 raw_len)) (\<lambda>data_len.
       andThen (ok_or E_OffsetOverflow (checked_add offset incr)) (\<lambda>offset.
       andThen (ok_or E_OffsetOverflow (checked_add offset data_len)) (\<lambda>fin.
       if fin > length bs then Err E_Corrupted else Ok (data_len, fin))))))))))"

fun lengths_body :: "bytes \<Rightarrow> nat \<times> nat list \<Rightarrow> ((nat \<times> nat list) + nat list) ll" where
  "lengths_body bs (offset, lengths) =
     (if offset < length bs then
        (case parse_encrypted_payload_length bs offset of
           Ok (data_len, fin) \<Rightarrow> Ok (Inl (fin, lengths @ [data_len]))
         | Err _ \<Rightarrow> Ok (Inr lengths)
         | Panic \<Rightarrow> Panic
         | Diverges \<Rightarrow> Diverges)
      else Ok (Inr lengths))"

definition parse_encrypted_payload_lengths :: "bytes \<Rightarrow> nat list ll" where
  "parse_encrypted_payload_lengths bs =
     (if bs = [] then Err E_EmptyBytes
      else
        andThen (parse_encrypted_payload_length bs 0) (\<lambda>(data_len, offset).
        run_loop (lengths_body bs) (offset, [data_len])))"

section \<open>The repeated fields as codecs\<close>

definition u32_dec :: "bytes \<Rightarrow> (u32 \<times> nat) option" where
  "u32_dec bs = (if 4 \<le> length bs then Some (u32_from_be_bytes (take 4 bs), 4) else None)"

definition path_enc :: "deriv_path \<Rightarrow> bytes" where
  "path_enc p = word_of_nat (path_len p) # concat (map u32_to_be_bytes (to_u32_vec p))"

definition path_dec :: "bytes \<Rightarrow> (deriv_path \<times> nat) option" where
  "path_dec bs =
     (case bs of [] \<Rightarrow> None
      | c # bs' \<Rightarrow>
          if c = 0 then None
          else map_option (\<lambda>(cs, n). (DerivationPath cs, 1 + n)) (dec_many u32_dec (unat c) bs'))"

definition path_ok :: "deriv_path \<Rightarrow> bool" where
  "path_ok p \<longleftrightarrow> 1 \<le> path_len p \<and> path_len p \<le> 255"

definition secret_dec :: "bytes \<Rightarrow> (bytes \<times> nat) option" where
  "secret_dec bs = (if 32 \<le> length bs then Some (take 32 bs, 32) else None)"

definition secret_ok :: "bytes \<Rightarrow> bool" where
  "secret_ok s \<longleftrightarrow> length s = 32"

interpretation u32c: canonical_codec u32_to_be_bytes u32_dec "\<lambda>_. True"
  by unfold_locales (auto simp: u32_dec_def u32_to_from_be_bytes split: if_splits)

lemma unat_u8_of_nat: "n \<le> 255 \<Longrightarrow> unat (word_of_nat n :: u8) = n"
  by (simp add: unat_of_nat)

lemma u8_of_nat_eq_0: "n \<le> 255 \<Longrightarrow> (word_of_nat n :: u8) = 0 \<longleftrightarrow> n = 0"
  by (metis unat_u8_of_nat unsigned_0 word_unat_eq_iff)

lemma unat_u8_le: "unat (c :: u8) \<le> 255"
  using unat_lt2p [of c] by simp

lemma path_dec_enc: "path_ok p \<Longrightarrow> path_dec (path_enc p @ rest) = Some (p, length (path_enc p))"
  using u32c.dec_many_enc [of "to_u32_vec p" rest]
  by (simp add: path_ok_def path_dec_def path_enc_def path_len_def unat_u8_of_nat u8_of_nat_eq_0
      list_all_iff Suc_le_eq)

lemma path_dec_canonical:
  assumes "path_dec bs = Some (p, n)"
  shows "n \<le> length bs \<and> path_ok p \<and> take n bs = path_enc p"
proof -
  from assms obtain c bs' cs m where bs: "bs = c # bs'" "c \<noteq> 0"
    and d: "dec_many u32_dec (unat c) bs' = Some (cs, m)" and p: "p = DerivationPath cs" "n = 1 + m"
    by (auto simp: path_dec_def split: list.splits if_splits)
  from u32c.dec_many_bound [OF d] have l: "m \<le> length bs'" "length cs = unat c" by blast+
  from u32c.dec_many_canonical [OF d] have t: "take m bs' = concat (map u32_to_be_bytes cs)"
    by (metis append_eq_conv_conj)
  have "unat c \<noteq> 0" using bs(2) by (simp add: unat_eq_zero)
  with l t unat_u8_le [of c] show ?thesis
    by (simp add: bs(1) p path_ok_def path_len_def path_enc_def)
qed

interpretation pathc: canonical_codec path_enc path_dec path_ok
  by unfold_locales (auto simp: path_dec_enc dest: path_dec_canonical)

interpretation secretc: canonical_codec "\<lambda>s. s" secret_dec secret_ok
  by unfold_locales (auto simp: secret_dec_def secret_ok_def min_def split: if_splits)

section \<open>The parsers read those codecs\<close>

lemma parse_childs_iff:
  assumes "rust_slice bs"
  shows "offset \<le> length bs \<Longrightarrow> parse_childs bs k (offset, acc) = Ok r \<longleftrightarrow>
    (\<exists>cs n. dec_many u32_dec k (drop offset bs) = Some (cs, n) \<and> r = (offset + n, acc @ cs))"
proof (induction k arbitrary: offset acc)
  case 0
  then show ?case by auto
next
  case (Suc k)
  have small: "length bs \<le> usize_MAX" using assms by (rule rust_slice_usize)
  show ?case
  proof (cases "offset + 4 \<le> length bs")
    case True
    let ?x = "u32_from_be_bytes (take 4 (drop offset bs))"
    from True small have "parse_childs bs (Suc k) (offset, acc) = parse_childs bs k (offset + 4, acc @ [?x])"
      by (simp add: check_offset_lookahead_def checked_add_def checked_sub_def plain_add_def
          slice_range_def)
    moreover from True have "u32_dec (drop offset bs) = Some (?x, 4)"
      by (simp add: u32_dec_def)
    then have "dec_many u32_dec (Suc k) (drop offset bs) =
        map_option (\<lambda>(xs, m). (?x # xs, 4 + m)) (dec_many u32_dec k (drop (offset + 4) bs))"
      by (simp add: add.commute split: option.split)
    ultimately show ?thesis using Suc.IH [of "offset + 4" "acc @ [?x]"] True
      by (cases "dec_many u32_dec k (drop (offset + 4) bs)") (auto simp: add.assoc split: prod.splits
          simp del: parse_childs.simps parse_secrets.simps dec_many.simps)
  next
    case False
    then show ?thesis
      by (auto simp: outcome_simps u32_dec_def split: if_splits)
  qed
qed

lemma parse_secrets_iff:
  assumes "rust_slice bs"
  shows "offset \<le> length bs \<Longrightarrow> parse_secrets bs k (offset, acc) = Ok r \<longleftrightarrow>
    (\<exists>ss n. dec_many secret_dec k (drop offset bs) = Some (ss, n) \<and> r = (offset + n, btree_extend acc ss))"
proof (induction k arbitrary: offset acc)
  case 0
  then show ?case by auto
next
  case (Suc k)
  have small: "length bs \<le> usize_MAX" using assms by (rule rust_slice_usize)
  show ?case
  proof (cases "offset + 32 \<le> length bs")
    case True
    let ?x = "take 32 (drop offset bs)"
    from True small have "parse_secrets bs (Suc k) (offset, acc) = parse_secrets bs k (offset + 32, btree_insert ?x acc)"
      by (simp add: check_offset_lookahead_def checked_add_def checked_sub_def plain_add_def
          slice_range_def)
    moreover from True have "secret_dec (drop offset bs) = Some (?x, 32)"
      by (simp add: secret_dec_def)
    then have "dec_many secret_dec (Suc k) (drop offset bs) =
        map_option (\<lambda>(xs, m). (?x # xs, 32 + m)) (dec_many secret_dec k (drop (offset + 32) bs))"
      by (simp add: add.commute split: option.split)
    ultimately show ?thesis using Suc.IH [of "offset + 32" "btree_insert ?x acc"] True
      by (cases "dec_many secret_dec k (drop (offset + 32) bs)") (auto simp: add.assoc split: prod.splits
          simp del: parse_childs.simps parse_secrets.simps dec_many.simps)
  next
    case False
    then show ?thesis
      by (auto simp: outcome_simps secret_dec_def split: if_splits)
  qed
qed

lemma parse_paths_step:
  assumes len: "rust_slice bs" and off: "offset \<le> length bs"
  shows "parse_paths bs (Suc k) (offset, acc) = Ok r \<longleftrightarrow>
    (\<exists>p n. path_dec (drop offset bs) = Some (p, n) \<and>
      parse_paths bs k (offset + n, btree_insert p acc) = Ok r)"
proof (cases "offset < length bs \<and> bs ! offset \<noteq> 0")
  case True
  then have d: "drop offset bs = bs ! offset # drop (offset + 1) bs"
    by (simp add: Cons_nth_drop_Suc)
  have "offset + 1 \<le> usize_MAX" using True rust_slice_usize [OF len] by simp
  with True have "parse_paths bs (Suc k) (offset, acc) = Ok r \<longleftrightarrow>
      (\<exists>off' cs. parse_childs bs (unat (bs ! offset)) (offset + 1, []) = Ok (off', cs) \<and>
        parse_paths bs k (off', btree_insert (DerivationPath cs) acc) = Ok r)"
    by (auto simp: outcome_simps)
  also have "\<dots> \<longleftrightarrow> (\<exists>cs n. dec_many u32_dec (unat (bs ! offset)) (drop (offset + 1) bs) = Some (cs, n) \<and>
        parse_paths bs k (offset + 1 + n, btree_insert (DerivationPath cs) acc) = Ok r)"
    using parse_childs_iff [OF len, of "offset + 1"] True by auto
  also have "\<dots> \<longleftrightarrow> (\<exists>p n. path_dec (drop offset bs) = Some (p, n) \<and>
      parse_paths bs k (offset + n, btree_insert p acc) = Ok r)"
    using True by (auto simp: path_dec_def d add.assoc)
  finally show ?thesis .
next
  case False
  have "path_dec (drop offset bs) = None"
  proof (cases "offset < length bs")
    case True
    with False have "drop offset bs = 0 # drop (Suc offset) bs" by (simp add: Cons_nth_drop_Suc [symmetric])
    then show ?thesis by (simp add: path_dec_def)
  next
    case False
    with off show ?thesis by (simp add: path_dec_def)
  qed
  moreover have "parse_paths bs (Suc k) (offset, acc) \<noteq> Ok r"
    using False by (auto simp: outcome_simps)
  ultimately show ?thesis by simp
qed

lemma parse_paths_iff:
  assumes len: "rust_slice bs"
  shows "offset \<le> length bs \<Longrightarrow> parse_paths bs k (offset, acc) = Ok r \<longleftrightarrow>
    (\<exists>ps n. dec_many path_dec k (drop offset bs) = Some (ps, n) \<and> r = (offset + n, btree_extend acc ps))"
proof (induction k arbitrary: offset acc)
  case 0
  then show ?case by auto
next
  case (Suc k)
  show ?case
  proof (cases "path_dec (drop offset bs)")
    case None
    then show ?thesis using parse_paths_step [OF len Suc.prems] by simp
  next
    case (Some q)
    obtain p n where p: "path_dec (drop offset bs) = Some (p, n)" using Some by (cases q) auto
    have "offset + n \<le> length bs" using pathc.dec_bound [OF p] Suc.prems by simp
    note IH = Suc.IH [OF this, of "btree_insert p acc"]
    have "parse_paths bs (Suc k) (offset, acc) = Ok r \<longleftrightarrow>
        parse_paths bs k (offset + n, btree_insert p acc) = Ok r"
      using parse_paths_step [OF len Suc.prems, of k acc r] p by simp
    moreover have "dec_many path_dec (Suc k) (drop offset bs) =
        map_option (\<lambda>(xs, m). (p # xs, n + m)) (dec_many path_dec k (drop (offset + n) bs))"
      using p by (simp add: add.commute split: option.split)
    ultimately show ?thesis using IH
      by (cases "dec_many path_dec k (drop (offset + n) bs)")
        (auto simp: add.assoc split: prod.splits simp del: parse_paths.simps dec_many.simps)
  qed
qed

text \<open>The two counted fields, read whole.\<close>

lemma parse_derivation_paths_iff:
  assumes len: "rust_slice bs"
  shows "parse_derivation_paths bs = Ok (n, ps) \<longleftrightarrow>
    (\<exists>c tail raw m. bs = c # tail \<and> dec_many path_dec (unat c) tail = Some (raw, m) \<and>
      n = 1 + m \<and> ps = btree_collect raw)"
proof (cases bs)
  case Nil
  then show ?thesis by (simp add: parse_derivation_paths_def init_offset_def check_offset_def)
next
  case (Cons c tail)
  have one: "(1::nat) \<le> usize_MAX" by (simp add: usize_MAX_def)
  show ?thesis
  proof (cases "c = 0")
    case True
    with Cons one show ?thesis
      by (auto simp: parse_derivation_paths_def init_offset_def check_offset_def index_at_def
          plain_add_def btree_collect_def)
  next
    case False
    then have pos: "unat c = Suc (unat c - 1)" by (simp add: unat_gt_0)
    show ?thesis
    proof (cases tail)
      case Nil
      have "dec_many path_dec (unat c) [] = None" by (subst pos) (simp add: path_dec_def)
      with Nil Cons False one show ?thesis
        by (auto simp: parse_derivation_paths_def outcome_simps)
    next
      case (Cons d ds)
      then have "parse_derivation_paths bs = parse_paths bs (unat c) (1, [])"
        using \<open>bs = c # tail\<close> False one
        by (simp add: parse_derivation_paths_def init_offset_def check_offset_def index_at_def
            increment_offset_def plain_add_def checked_add_def)
      then show ?thesis
        using parse_paths_iff [OF len, of 1 "unat c" "[]" "(n, ps)"] \<open>bs = c # tail\<close>
        by (auto simp: btree_collect_def)
    qed
  qed
qed

lemma dec_many_secret_Nil: "dec_many secret_dec (Suc k) [] = None"
  by (simp add: secret_dec_def)

lemma parse_individual_secrets_iff:
  assumes len: "rust_slice bs"
  shows "parse_individual_secrets bs = Ok (n, ss) \<longleftrightarrow>
    (\<exists>c tail raw m. bs = c # tail \<and> c \<noteq> 0 \<and> dec_many secret_dec (unat c) tail = Some (raw, m) \<and>
      n = 1 + m \<and> ss = btree_collect raw)"
proof (cases bs)
  case Nil
  then show ?thesis by (simp add: parse_individual_secrets_def)
next
  case (Cons c tail)
  have c1: "c < 1 \<longleftrightarrow> c = 0" by (simp add: word_less_nat_alt unat_eq_zero)
  show ?thesis
  proof (cases "c = 0 \<or> tail = []")
    case True
    have "dec_many secret_dec (unat c) [] = None" if "c \<noteq> 0"
    proof -
      from that have "unat c = Suc (unat c - 1)" by (simp add: unat_gt_0)
      then show ?thesis by (metis dec_many_secret_Nil)
    qed
    with True Cons show ?thesis
      by (auto simp: parse_individual_secrets_def outcome_simps c1)
  next
    case False
    with Cons have "parse_individual_secrets bs = parse_secrets bs (unat c) (1, [])"
      by (simp add: parse_individual_secrets_def index_at_def init_offset_def check_offset_def c1)
    then show ?thesis
      using parse_secrets_iff [OF len, of 1 "unat c" "[]" "(n, ss)"] Cons False
      by (auto simp: btree_collect_def)
  qed
qed

section \<open>Round trips of the counted fields\<close>

lemma encode_paths_loop_Ok:
  "encode_paths_loop ps acc = Ok out \<longleftrightarrow>
     list_all path_ok ps \<and> out = acc @ concat (map path_enc ps)"
  by (induction ps arbitrary: acc)
    (auto simp: Let_def path_ok_def path_enc_def path_len_def u8_MAX_def Suc_le_eq)

lemma encode_derivation_paths_Ok:
  "encode_derivation_paths ps = Ok out \<longleftrightarrow>
     length (sort_dedup ps) \<le> 255 \<and> list_all path_ok (sort_dedup ps) \<and>
     out = word_of_nat (length (sort_dedup ps)) # concat (map path_enc (sort_dedup ps))"
  by (auto simp: encode_derivation_paths_def encode_paths_loop_Ok Let_def u8_MAX_def)

lemma parse_encode_derivation_paths:
  assumes enc: "encode_derivation_paths ps = Ok out" and len: "rust_slice (out @ rest)"
  shows "parse_derivation_paths (out @ rest) = Ok (length out, sort_dedup ps)"
proof -
  let ?q = "sort_dedup ps"
  from enc have q: "length ?q \<le> 255" "list_all path_ok ?q"
    and out: "out = word_of_nat (length ?q) # concat (map path_enc ?q)"
    by (auto simp: encode_derivation_paths_Ok)
  have "dec_many path_dec (unat (word_of_nat (length ?q) :: u8)) (concat (map path_enc ?q) @ rest) =
      Some (?q, length (concat (map path_enc ?q)))"
    using pathc.dec_many_enc [OF q(2), of rest] q(1) by (simp add: unat_u8_of_nat)
  then show ?thesis
    using len by (simp add: parse_derivation_paths_iff out btree_collect_idem)
qed

lemma fold_append_concat: "fold (\<lambda>s out. out @ s) ss acc = acc @ concat ss"
  by (induction ss arbitrary: acc) auto

lemma encode_individual_secrets_Ok:
  "encode_individual_secrets ss = Ok out \<longleftrightarrow>
     length (sort_dedup ss) \<le> 255 \<and> ss \<noteq> [] \<and>
     out = word_of_nat (length (sort_dedup ss)) # concat (sort_dedup ss)"
proof -
  have "sort_dedup ss = [] \<longleftrightarrow> ss = []" by (metis set_empty set_sort_dedup)
  then show ?thesis
    by (auto simp: encode_individual_secrets_def fold_append_concat Let_def u8_MAX_def)
qed

lemma parse_encode_individual_secrets:
  assumes enc: "encode_individual_secrets ss = Ok out" and ok: "list_all secret_ok ss"
    and len: "rust_slice (out @ rest)"
  shows "parse_individual_secrets (out @ rest) = Ok (length out, sort_dedup ss)"
proof -
  let ?q = "sort_dedup ss"
  from enc have q: "length ?q \<le> 255" "ss \<noteq> []" and out: "out = word_of_nat (length ?q) # concat ?q"
    by (auto simp: encode_individual_secrets_Ok)
  from q(2) have "length ?q \<noteq> 0" by (metis length_0_conv set_empty set_sort_dedup)
  then have c: "(word_of_nat (length ?q) :: u8) \<noteq> 0" using q(1) by (simp add: u8_of_nat_eq_0)
  have "list_all secret_ok ?q" using ok by (simp add: list_all_iff)
  from secretc.dec_many_enc [OF this, of rest]
  have "dec_many secret_dec (unat (word_of_nat (length ?q) :: u8)) (concat ?q @ rest) =
      Some (?q, length (concat ?q))"
    using q(1) by (simp add: unat_u8_of_nat)
  then show ?thesis
    using len c by (simp add: parse_individual_secrets_iff out btree_collect_idem)
qed

text \<open>What a parser returns is normal: it encodes, and reads back as itself.\<close>

definition paths_normal :: "deriv_path list \<Rightarrow> bool" where
  "paths_normal ps \<longleftrightarrow> sorted_wrt (<) ps \<and> length ps \<le> 255 \<and> list_all path_ok ps"

definition secrets_normal :: "bytes list \<Rightarrow> bool" where
  "secrets_normal ss \<longleftrightarrow> sorted_wrt (<) ss \<and> ss \<noteq> [] \<and> length ss \<le> 255 \<and> list_all secret_ok ss"

lemma length_btree_collect_le: "length (btree_collect xs) \<le> length xs"
  by (simp add: btree_collect_eq card_length)

lemma parse_derivation_paths_normal:
  assumes "rust_slice bs" and "parse_derivation_paths bs = Ok (n, ps)"
  shows "paths_normal ps \<and> n \<le> length bs"
proof -
  from assms obtain c tail raw m where bs: "bs = c # tail"
    and d: "dec_many path_dec (unat c) tail = Some (raw, m)" and r: "n = 1 + m" "ps = btree_collect raw"
    by (auto simp: parse_derivation_paths_iff)
  have "length ps \<le> 255"
    using length_btree_collect_le [of raw] pathc.dec_many_bound [OF d] unat_u8_le [of c] r by simp
  moreover have "list_all path_ok ps"
    using pathc.dec_many_canonical [OF d] by (simp add: r list_all_iff)
  ultimately show ?thesis
    using pathc.dec_many_bound [OF d] by (simp add: paths_normal_def r bs)
qed

lemma parse_individual_secrets_normal:
  assumes "rust_slice bs" and "parse_individual_secrets bs = Ok (n, ss)"
  shows "secrets_normal ss \<and> n \<le> length bs"
proof -
  from assms obtain c tail raw m where bs: "bs = c # tail" "c \<noteq> 0"
    and d: "dec_many secret_dec (unat c) tail = Some (raw, m)" and r: "n = 1 + m" "ss = btree_collect raw"
    by (auto simp: parse_individual_secrets_iff)
  note b = secretc.dec_many_bound [OF d]
  have "length ss \<le> 255"
    using length_btree_collect_le [of raw] b unat_u8_le [of c] r by simp
  moreover have "list_all secret_ok ss"
    using secretc.dec_many_canonical [OF d] by (simp add: r list_all_iff)
  moreover have "raw \<noteq> []" using b bs(2) by (auto simp: unat_eq_zero)
  then have "ss \<noteq> []" by (metis r(2) set_btree_collect set_empty)
  ultimately show ?thesis using b by (simp add: secrets_normal_def r bs)
qed

lemma encode_paths_normal:
  "paths_normal ps \<Longrightarrow> encode_derivation_paths ps = Ok (word_of_nat (length ps) # concat (map path_enc ps))"
  by (simp add: paths_normal_def encode_derivation_paths_Ok sort_dedup_idem)

lemma encode_secrets_normal:
  "secrets_normal ss \<Longrightarrow> encode_individual_secrets ss = Ok (word_of_nat (length ss) # concat ss)"
  by (simp add: secrets_normal_def encode_individual_secrets_Ok sort_dedup_idem)

section \<open>The encrypted payload\<close>

definition payload_enc :: "bytes \<times> bytes \<Rightarrow> bytes" where
  "payload_enc p = fst p @ varint_encode (word_of_nat (length (snd p))) @ snd p"

definition payload_dec :: "bytes \<Rightarrow> ((bytes \<times> bytes) \<times> nat) option" where
  "payload_dec bs =
     (if length bs < 12 \<or> take 12 bs = ZERO_NONCE then None
      else
        (case varint_parse (drop 12 bs) of None \<Rightarrow> None
         | Some (l, k) \<Rightarrow>
             if length bs < 12 + k + unat l then None
             else Some ((take 12 bs, take (unat l) (drop (12 + k) bs)), 12 + k + unat l)))"

definition payload_ok :: "bytes \<times> bytes \<Rightarrow> bool" where
  "payload_ok p \<longleftrightarrow> length (fst p) = 12 \<and> fst p \<noteq> ZERO_NONCE \<and> length (snd p) < 2 ^ 64"

lemma payload_dec_enc: "payload_ok p \<Longrightarrow> payload_dec (payload_enc p @ rest) = Some (p, length (payload_enc p))"
proof -
  assume ok: "payload_ok p"
  then have l: "unat (word_of_nat (length (snd p)) :: u64) = length (snd p)"
    by (simp add: payload_ok_def unat_of_nat)
  from ok varint_parse_encode [of "word_of_nat (length (snd p))" "snd p @ rest"] show ?thesis
    by (simp add: payload_dec_def payload_enc_def payload_ok_def l)
qed

lemma payload_dec_canonical:
  assumes "payload_dec bs = Some (p, n)"
  shows "n \<le> length bs \<and> payload_ok p \<and> take n bs = payload_enc p"
proof -
  from assms obtain l k where len: "12 \<le> length bs" "take 12 bs \<noteq> ZERO_NONCE"
    and v: "varint_parse (drop 12 bs) = Some (l, k)" and fits: "12 + k + unat l \<le> length bs"
    and p: "p = (take 12 bs, take (unat l) (drop (12 + k) bs))" and n: "n = 12 + k + unat l"
    by (auto simp: payload_dec_def split: if_splits option.splits)
  have lc: "length (snd p) = unat l" using fits by (simp add: p)
  then have wl: "word_of_nat (length (snd p)) = l" by simp
  have ok: "payload_ok p" using len lc unat_lt2p [of l] by (simp add: payload_ok_def p)
  have d: "drop 12 bs = varint_encode l @ drop (12 + k) bs"
    using varint.dec_split [OF v] by (simp add: add.commute)
  have "drop (12 + k) bs = snd p @ drop n bs"
    using append_take_drop_id [of "unat l" "drop (12 + k) bs"] by (simp add: p n add.commute)
  with d have "drop 12 bs = varint_encode l @ snd p @ drop n bs" by simp
  then have "bs = payload_enc p @ drop n bs"
    using append_take_drop_id [of 12 bs] unfolding payload_enc_def wl by (simp add: p)
  moreover have "length (payload_enc p) = n"
    using varint.dec_split [OF v] lc len(1) by (simp add: payload_enc_def wl n) (simp add: p)
  ultimately have "take n bs = payload_enc p" by (metis append_eq_conv_conj)
  with ok fits n show ?thesis by simp
qed

interpretation payloadc: canonical_codec payload_enc payload_dec payload_ok
  by unfold_locales (auto simp: payload_dec_enc dest: payload_dec_canonical)

lemma payload_dec_pos: "payload_dec bs = Some (p, n) \<Longrightarrow> 12 < n"
  by (auto simp: payload_dec_def split: if_splits option.splits dest: varint_parse_bounds)

lemma parse_encrypted_payload_iff:
  assumes len: "rust_slice bs"
  shows "parse_encrypted_payload bs = Ok p \<longleftrightarrow> (\<exists>n. payload_dec bs = Some (p, n))"
proof (cases "length bs \<le> 12 \<or> take 12 bs = ZERO_NONCE")
  case True
  then have "payload_dec bs = None"
    by (cases "length bs = 12") (auto simp: payload_dec_def)
  with True show ?thesis
    by (auto simp: parse_encrypted_payload_def outcome_simps split: if_splits)
next
  case False
  have small: "length bs \<le> usize_MAX" using len by (rule rust_slice_usize)
  show ?thesis
  proof (cases "varint_parse (drop 12 bs)")
    case None
    with False small show ?thesis
      by (auto simp: parse_encrypted_payload_def payload_dec_def outcome_simps)
  next
    case (Some q)
    obtain l k where v: "varint_parse (drop 12 bs) = Some (l, k)" using Some by (cases q) auto
    from varint_parse_bounds [OF this] False have "12 + k \<le> length bs" by auto
    with v False small show ?thesis
      by (auto simp: parse_encrypted_payload_def payload_dec_def outcome_simps)
  qed
qed

lemma encode_encrypted_payload_Ok:
  "encode_encrypted_payload nonce c = Ok out \<longleftrightarrow> c \<noteq> [] \<and> out = payload_enc (nonce, c)"
  by (auto simp: encode_encrypted_payload_def payload_enc_def)

lemma parse_encrypted_payload_length_iff:
  assumes len: "rust_slice bs" and off: "offset \<le> length bs"
  shows "parse_encrypted_payload_length bs offset = Ok r \<longleftrightarrow>
    (\<exists>p n. payload_dec (drop offset bs) = Some (p, n) \<and> r = (length (snd p), offset + n))"
proof (cases "length bs < offset + 12 \<or> take 12 (drop offset bs) = ZERO_NONCE")
  case True
  with off have "payload_dec (drop offset bs) = None" by (auto simp: payload_dec_def)
  with True show ?thesis
    by (auto simp: parse_encrypted_payload_length_def outcome_simps split: if_splits)
next
  case False
  have small: "length bs \<le> usize_MAX" using len by (rule rust_slice_usize)
  show ?thesis
  proof (cases "varint_parse (drop (12 + offset) bs)")
    case None
    with False small show ?thesis
      by (auto simp: parse_encrypted_payload_length_def payload_dec_def outcome_simps add.commute)
  next
    case (Some q)
    obtain l k where v: "varint_parse (drop (12 + offset) bs) = Some (l, k)" using Some by (cases q) auto
    from varint_parse_bounds [OF this] False have "offset + 12 + k \<le> length bs" by auto
    with v False small show ?thesis
      by (auto simp: parse_encrypted_payload_length_def payload_dec_def outcome_simps add.commute
          split: if_splits)
  qed
qed

section \<open>The walk over appended payloads\<close>

text \<open>
  \<open>greedy_payloads bs ps\<close>: \<open>ps\<close> are the payloads that follow each other at the front of \<open>bs\<close>, and
  what comes after them is no payload.
\<close>

inductive greedy_payloads :: "bytes \<Rightarrow> (bytes \<times> bytes) list \<Rightarrow> bool" where
  greedy_stop: "payload_dec bs = None \<Longrightarrow> greedy_payloads bs []"
| greedy_more: "payload_dec bs = Some (p, n) \<Longrightarrow> greedy_payloads (drop n bs) ps \<Longrightarrow> greedy_payloads bs (p # ps)"

inductive_simps greedy_payloads_iff: "greedy_payloads bs ps"

lemma payload_dec_Nil [simp]: "payload_dec [] = None"
  by (simp add: payload_dec_def)

lemma parse_encrypted_payload_length_not_Panic:
  "rust_slice bs \<Longrightarrow> parse_encrypted_payload_length bs offset \<noteq> Panic"
  by (auto simp: parse_encrypted_payload_length_def outcome_simps split: if_splits)

lemma parse_encrypted_payload_length_not_Diverges [simp]:
  "parse_encrypted_payload_length bs offset \<noteq> Diverges"
  by (auto simp: parse_encrypted_payload_length_def outcome_simps split: if_splits)

lemma lengths_loop:
  assumes len: "rust_slice bs"
  shows "offset \<le> length bs \<Longrightarrow> \<exists>ps. greedy_payloads (drop offset bs) ps \<and>
    run_loop (lengths_body bs) (offset, acc) = Ok (acc @ map (length \<circ> snd) ps)"
proof (induction "length bs - offset" arbitrary: offset acc rule: less_induct)
  case less
  show ?case
  proof (cases "payload_dec (drop offset bs)")
    case None
    then have "parse_encrypted_payload_length bs offset \<noteq> Ok r" for r
      using parse_encrypted_payload_length_iff [OF len less.prems] by simp
    then have "lengths_body bs (offset, acc) = Ok (Inr acc)"
      using parse_encrypted_payload_length_not_Panic [OF len]
      by (auto split: outcome.split)
    with None show ?thesis
      by (intro exI [of _ "[]"]) (simp add: greedy_stop run_loop_unfold [of _ "(offset, acc)"])
  next
    case (Some q)
    obtain p n where d: "payload_dec (drop offset bs) = Some (p, n)" using Some by (cases q) auto
    then have p: "parse_encrypted_payload_length bs offset = Ok (length (snd p), offset + n)"
      using parse_encrypted_payload_length_iff [OF len less.prems] by auto
    have n: "12 < n" "offset + n \<le> length bs"
      using payload_dec_pos [OF d] payloadc.dec_bound [OF d] less.prems by auto
    then obtain ps where g: "greedy_payloads (drop (offset + n) bs) ps"
      and r: "run_loop (lengths_body bs) (offset + n, acc @ [length (snd p)]) =
        Ok ((acc @ [length (snd p)]) @ map (length \<circ> snd) ps)"
      using less.hyps [OF _ n(2), of "acc @ [length (snd p)]"] n(1,2) by fastforce
    have "greedy_payloads (drop offset bs) (p # ps)"
      using d g by (auto intro: greedy_more simp: add.commute)
    moreover have "run_loop (lengths_body bs) (offset, acc) = Ok (acc @ map (length \<circ> snd) (p # ps))"
      using n p r by (subst run_loop_unfold) simp
    ultimately show ?thesis by blast
  qed
qed

lemma greedy_payloads_exist: "rust_slice bs \<Longrightarrow> \<exists>ps. greedy_payloads bs ps"
  using lengths_loop [of bs 0 "[]"] by auto

lemma greedy_payloads_unique:
  "greedy_payloads bs ps \<Longrightarrow> greedy_payloads bs qs \<Longrightarrow> ps = qs"
proof (induction arbitrary: qs rule: greedy_payloads.induct)
  case (greedy_stop bs)
  then show ?case by (auto simp: greedy_payloads_iff [of bs qs])
next
  case (greedy_more bs p n ps)
  from greedy_more.prems greedy_more.hyps(1) obtain qs' where "qs = p # qs'"
    and "greedy_payloads (drop n bs) qs'" by (auto simp: greedy_payloads_iff [of bs qs])
  with greedy_more.IH show ?case by simp
qed

lemma parse_encrypted_payload_lengths_iff:
  assumes len: "rust_slice bs"
  shows "parse_encrypted_payload_lengths bs = Ok ls \<longleftrightarrow>
    (\<exists>p ps. greedy_payloads bs (p # ps) \<and> ls = map (length \<circ> snd) (p # ps))"
proof (cases "payload_dec bs")
  case None
  then have "parse_encrypted_payload_length bs 0 \<noteq> Ok r" for r
    using parse_encrypted_payload_length_iff [OF len, of 0] by simp
  with None show ?thesis
    by (auto simp: parse_encrypted_payload_lengths_def outcome_simps greedy_payloads_iff [of bs])
next
  case (Some q)
  obtain p n where d: "payload_dec bs = Some (p, n)" using Some by (cases q) auto
  then have p: "parse_encrypted_payload_length bs 0 = Ok (length (snd p), n)"
    using parse_encrypted_payload_length_iff [OF len, of 0] by auto
  have n: "n \<le> length bs" "bs \<noteq> []" using payloadc.dec_bound [OF d] d by auto
  from lengths_loop [OF len n(1), of "[length (snd p)]"] obtain ps where
    g: "greedy_payloads (drop n bs) ps" and
    r: "run_loop (lengths_body bs) (n, [length (snd p)]) = Ok ([length (snd p)] @ map (length \<circ> snd) ps)"
    by blast
  have "parse_encrypted_payload_lengths bs = Ok (map (length \<circ> snd) (p # ps))"
    using n p r by (simp add: parse_encrypted_payload_lengths_def del: lengths_body.simps)
  moreover have gp: "greedy_payloads bs (p # ps)" using d g by (rule greedy_more)
  moreover have "q # qs = p # ps" if "greedy_payloads bs (q # qs)" for q qs
    using greedy_payloads_unique [OF that gp] .
  ultimately show ?thesis by (metis outcome.inject(1))
qed

section \<open>No field parser panics or diverges\<close>

lemma parse_childs_safe:
  "rust_slice bs \<Longrightarrow> parse_childs bs k s \<noteq> Panic \<and> parse_childs bs k s \<noteq> Diverges"
  by (induction bs k s rule: parse_childs.induct) (auto simp: outcome_simps)

lemma parse_secrets_safe:
  "rust_slice bs \<Longrightarrow> parse_secrets bs k s \<noteq> Panic \<and> parse_secrets bs k s \<noteq> Diverges"
  by (induction bs k s rule: parse_secrets.induct) (auto simp: outcome_simps)

lemma parse_paths_safe:
  "rust_slice bs \<Longrightarrow> parse_paths bs k s \<noteq> Panic \<and> parse_paths bs k s \<noteq> Diverges"
proof (induction bs k s rule: parse_paths.induct)
  case (2 bs k offset paths)
  then show ?case
    using rust_slice_usize [OF "2.prems"] parse_childs_safe [OF "2.prems"]
    by (auto simp: outcome_simps split: if_splits)
qed simp

lemma parse_derivation_paths_safe:
  "rust_slice bs \<Longrightarrow> parse_derivation_paths bs \<noteq> Panic \<and> parse_derivation_paths bs \<noteq> Diverges"
  using parse_paths_safe [of bs]
  by (auto simp: parse_derivation_paths_def outcome_simps usize_MAX_def split: if_splits)

lemma parse_individual_secrets_safe:
  "rust_slice bs \<Longrightarrow> parse_individual_secrets bs \<noteq> Panic \<and> parse_individual_secrets bs \<noteq> Diverges"
  using parse_secrets_safe [of bs]
  by (auto simp: parse_individual_secrets_def outcome_simps split: if_splits)

lemma parse_encrypted_payload_safe:
  "rust_slice bs \<Longrightarrow> parse_encrypted_payload bs \<noteq> Panic \<and> parse_encrypted_payload bs \<noteq> Diverges"
  by (auto simp: parse_encrypted_payload_def outcome_simps usize_MAX_def split: if_splits)

lemma parse_encrypted_payload_lengths_safe:
  assumes len: "rust_slice bs"
  shows "parse_encrypted_payload_lengths bs \<noteq> Panic \<and> parse_encrypted_payload_lengths bs \<noteq> Diverges"
proof -
  have "run_loop (lengths_body bs) (n, acc) \<noteq> Panic \<and> run_loop (lengths_body bs) (n, acc) \<noteq> Diverges"
    if "parse_encrypted_payload_length bs 0 = Ok (d, n)" for d n acc
  proof -
    from that obtain p where "payload_dec bs = Some (p, n)"
      using parse_encrypted_payload_length_iff [OF len, of 0] by auto
    from payloadc.dec_bound [OF this] show ?thesis using lengths_loop [OF len, of n acc] by auto
  qed
  then show ?thesis
    using parse_encrypted_payload_length_not_Panic [OF len, of 0]
    by (auto simp: parse_encrypted_payload_lengths_def outcome_simps simp del: lengths_body.simps)
qed

end
