(* ===== verification/Secrets.thy ===== *)
theory Secrets
  imports Wire
begin

text \<open>
  Secret derivation and the padding of the secret set (\<open>tagged_hash\<close>, \<open>xor\<close>, \<open>draw_nonce\<close>,
  \<open>decryption_secret\<close>, \<open>individual_secret\<close>, \<open>pad_individual_secrets\<close> and its variant with decoys,
  of \<open>bip138-ll/src/lib.rs\<close>), over the two traits of \<open>bip138-ll/src/crypto.rs\<close>. SHA-256, the AEAD and
  the random source are parameters. Shown: the decryption secret is a function of the key set; every
  key recovers it from its individual secret; the padded set has the bucket's size and keeps the real
  secrets; the padding loop returns under a fair random source and does not under a stuck one.
\<close>

unbundle bit_operations_syntax

section \<open>The traits\<close>

record crypto =
  sha256 :: "bytes \<Rightarrow> bytes"
  aead_encrypt :: "bytes \<Rightarrow> bytes \<Rightarrow> bytes \<Rightarrow> bytes option"
  aead_decrypt :: "bytes \<Rightarrow> bytes \<Rightarrow> bytes \<Rightarrow> bytes option"

text \<open>\<open>fill s n\<close> is \<open>fill_bytes\<close> on a buffer of \<open>n\<close> bytes: its new contents and the next state.\<close>

type_synonym 's rng = "'s \<Rightarrow> nat \<Rightarrow> bytes \<times> 's"

text \<open>The return type \<open>[u8; 32]\<close>, and that filling keeps the size of the buffer.\<close>

definition sha256_sized :: "crypto \<Rightarrow> bool" where
  "sha256_sized C \<longleftrightarrow> (\<forall>d. length (sha256 C d) = 32)"

definition rng_sized :: "'s rng \<Rightarrow> bool" where
  "rng_sized fill \<longleftrightarrow> (\<forall>s n. length (fst (fill s n)) = n)"

section \<open>Operations\<close>

definition ZERO_SECRET :: bytes where
  "ZERO_SECRET = replicate 32 0"

definition tagged_hash :: "crypto \<Rightarrow> bytes \<Rightarrow> bytes \<Rightarrow> bytes" where
  "tagged_hash C tag bs =
     (let tag_hash = sha256 C tag in sha256 C (tag_hash @ tag_hash @ bs))"

definition xor_bytes :: "bytes \<Rightarrow> bytes \<Rightarrow> bytes" where
  "xor_bytes a b = map (\<lambda>i. a ! i XOR b ! i) [0..<32]"

fun draw_nonce_loop :: "'s rng \<Rightarrow> nat \<Rightarrow> bytes \<times> 's \<Rightarrow> bytes \<times> 's" where
  "draw_nonce_loop fill 0 (nonce, s) = (nonce, s)"
| "draw_nonce_loop fill (Suc k) (nonce, s) =
     (let (nonce, s) = fill s 12 in
      if nonce \<noteq> ZERO_NONCE then (nonce, s) else draw_nonce_loop fill k (nonce, s))"

definition draw_nonce :: "'s rng \<Rightarrow> 's \<Rightarrow> bytes \<times> 's" where
  "draw_nonce fill s = draw_nonce_loop fill 2 (ZERO_NONCE, s)"

definition decryption_secret :: "crypto \<Rightarrow> bytes list \<Rightarrow> bytes" where
  "decryption_secret C keys =
     (let keys = sort_dedup keys in tagged_hash C DECRYPTION_SECRET (fold (\<lambda>k acc. acc @ k) keys []))"

definition individual_secret :: "crypto \<Rightarrow> bytes \<Rightarrow> bytes \<Rightarrow> bytes ll" where
  "individual_secret C secret key =
     (let si = tagged_hash C INDIVIDUAL_SECRET key; ci = xor_bytes secret si in
      if ci = ZERO_SECRET then Panic else Ok ci)"

definition individual_secrets :: "crypto \<Rightarrow> bytes \<Rightarrow> bytes list \<Rightarrow> bytes list ll" where
  "individual_secrets C secret keys = collect_results (individual_secret C secret) keys"

fun pad_body :: "'s rng \<Rightarrow> nat \<Rightarrow> bytes list \<times> 's \<Rightarrow> ((bytes list \<times> 's) + (bytes list \<times> 's)) ll" where
  "pad_body fill target (secrets, s) =
     (if length secrets < target then
        (let (decoy, s) = fill s 32 in
         if decoy \<noteq> ZERO_SECRET \<and> \<not> List.member secrets decoy then Ok (Inl (secrets @ [decoy], s))
         else Ok (Inl (secrets, s)))
      else Ok (Inr (secrets, s)))"

definition pad_individual_secrets :: "'s rng \<Rightarrow> 's \<Rightarrow> bytes list \<Rightarrow> (bytes list \<times> 's) ll" where
  "pad_individual_secrets fill s secrets =
     andThen (doubling_bucket (length secrets)) (\<lambda>target.
     run_loop (pad_body fill target) (secrets, s))"

fun add_decoys :: "bytes list \<Rightarrow> bytes list \<Rightarrow> bytes list ll" where
  "add_decoys secrets [] = Ok secrets"
| "add_decoys secrets (decoy # decoys) =
     (if decoy = ZERO_SECRET \<or> List.member secrets decoy then Err E_IndividualSecretsLength
      else add_decoys (secrets @ [decoy]) decoys)"

definition pad_individual_secrets_with_decoys :: "bytes list \<Rightarrow> bytes list \<Rightarrow> bytes list ll" where
  "pad_individual_secrets_with_decoys secrets decoys =
     andThen (doubling_bucket (length secrets)) (\<lambda>target.
     andThen (if length secrets \<le> target then Ok (target - length secrets) else Panic) (\<lambda>missing.
     if length decoys \<noteq> missing then Err E_IndividualSecretsLength
     else add_decoys secrets decoys))"

section \<open>Secrets\<close>

lemma length_xor_bytes [simp]: "length (xor_bytes a b) = 32"
  by (simp add: xor_bytes_def)

lemma xor_bytes_commute: "xor_bytes a b = xor_bytes b a"
  by (simp add: xor_bytes_def xor.commute)

lemma xor_bytes_cancel: "length a = 32 \<Longrightarrow> xor_bytes b (xor_bytes a b) = a"
  by (rule nth_equalityI) (simp_all add: xor_bytes_def xor.left_commute)

lemma word_xor_eq_0: "(a :: u8) XOR b = 0 \<longleftrightarrow> a = b"
proof
  assume "a XOR b = 0"
  then have "a XOR (a XOR b) = a" by simp
  then show "a = b" by (simp add: xor.assoc [symmetric])
qed simp

lemma xor_bytes_zero_iff: "length a = 32 \<Longrightarrow> length b = 32 \<Longrightarrow> xor_bytes a b = ZERO_SECRET \<longleftrightarrow> a = b"
proof -
  assume l: "length a = 32" "length b = 32"
  have "xor_bytes a b = ZERO_SECRET \<longleftrightarrow> (\<forall>i<32. a ! i XOR b ! i = 0)"
    by (auto simp: xor_bytes_def ZERO_SECRET_def list_eq_iff_nth_eq)
  also have "\<dots> \<longleftrightarrow> (\<forall>i<32. a ! i = b ! i)"
    by (simp add: word_xor_eq_0)
  also have "\<dots> \<longleftrightarrow> a = b" using l by (auto simp: list_eq_iff_nth_eq)
  finally show ?thesis .
qed

lemma length_tagged_hash: "sha256_sized C \<Longrightarrow> length (tagged_hash C tag bs) = 32"
  by (simp add: tagged_hash_def sha256_sized_def Let_def)

lemma decryption_secret_eq:
  "decryption_secret C keys = tagged_hash C DECRYPTION_SECRET (concat (sorted_list_of_set (set keys)))"
  by (simp add: decryption_secret_def Let_def sort_dedup_eq fold_append_concat)

lemma length_decryption_secret: "sha256_sized C \<Longrightarrow> length (decryption_secret C keys) = 32"
  by (simp add: decryption_secret_eq length_tagged_hash)

text \<open>The derivation does not depend on the order or the repetition of the keys.\<close>

lemma decryption_secret_cong: "set keys = set keys' \<Longrightarrow> decryption_secret C keys = decryption_secret C keys'"
  by (simp add: decryption_secret_eq)

lemma individual_secret_Ok:
  "individual_secret C secret key = Ok ci \<longleftrightarrow>
     ci = xor_bytes secret (tagged_hash C INDIVIDUAL_SECRET key) \<and> ci \<noteq> ZERO_SECRET"
  by (auto simp: individual_secret_def Let_def)

lemma individual_secret_cases:
  "individual_secret C secret key \<noteq> Err e" "individual_secret C secret key \<noteq> Diverges"
  by (simp_all add: individual_secret_def Let_def)

text \<open>A key recovers the secret from its own individual secret.\<close>

lemma individual_secret_recovers:
  "length secret = 32 \<Longrightarrow> individual_secret C secret key = Ok ci \<Longrightarrow>
   xor_bytes (tagged_hash C INDIVIDUAL_SECRET key) ci = secret"
  by (simp add: individual_secret_Ok xor_bytes_cancel)

lemma individual_secrets_Ok:
  "individual_secrets C secret keys = Ok cs \<longleftrightarrow>
     cs = map (\<lambda>key. xor_bytes secret (tagged_hash C INDIVIDUAL_SECRET key)) keys \<and> ZERO_SECRET \<notin> set cs"
proof (induction keys arbitrary: cs)
  case Nil
  then show ?case by (auto simp: individual_secrets_def)
next
  case (Cons key keys)
  have "individual_secrets C secret (key # keys) = Ok cs \<longleftrightarrow>
      (\<exists>c cs'. individual_secret C secret key = Ok c \<and> individual_secrets C secret keys = Ok cs' \<and> cs = c # cs')"
    by (auto simp: individual_secrets_def outcome_simps)
  then show ?case using Cons.IH by (auto simp: individual_secret_Ok)
qed

lemma individual_secrets_not_Err: "individual_secrets C secret keys \<noteq> Err e"
  unfolding individual_secrets_def
  by (induction keys) (auto simp: outcome_simps individual_secret_cases)

lemma individual_secrets_not_Diverges: "individual_secrets C secret keys \<noteq> Diverges"
  unfolding individual_secrets_def
  by (induction keys) (auto simp: outcome_simps individual_secret_cases)

lemma individual_secrets_sized:
  "individual_secrets C secret keys = Ok cs \<Longrightarrow> list_all secret_ok cs"
  by (auto simp: individual_secrets_Ok list_all_iff secret_ok_def)

section \<open>The nonce\<close>

lemma draw_nonce_eq:
  "draw_nonce fill s =
     (if fst (fill s 12) \<noteq> ZERO_NONCE then fill s 12
      else fill (snd (fill s 12)) 12)"
  by (auto simp: draw_nonce_def numeral_2_eq_2 split: prod.splits)

lemma length_draw_nonce: "rng_sized fill \<Longrightarrow> length (fst (draw_nonce fill s)) = 12"
  by (simp add: draw_nonce_eq rng_sized_def)

lemma draw_nonce_zero_iff:
  "fst (draw_nonce fill s) = ZERO_NONCE \<longleftrightarrow>
     fst (fill s 12) = ZERO_NONCE \<and> fst (fill (snd (fill s 12)) 12) = ZERO_NONCE"
  by (simp add: draw_nonce_eq)

section \<open>Padding the secrets with random decoys\<close>

text \<open>What the decoys are, whatever the source of randomness does.\<close>

definition decoys_ok :: "bytes list \<Rightarrow> bytes list \<Rightarrow> bool" where
  "decoys_ok secrets ds \<longleftrightarrow> distinct ds \<and> set ds \<inter> set secrets = {} \<and> ZERO_SECRET \<notin> set ds"

lemma decoys_ok_snoc:
  "decoys_ok secrets (ds @ [d]) \<longleftrightarrow> decoys_ok secrets ds \<and> d \<noteq> ZERO_SECRET \<and> d \<notin> set (secrets @ ds)"
  by (auto simp: decoys_ok_def)

lemma decoys_ok_Nil [simp]: "decoys_ok secrets []"
  by (simp add: decoys_ok_def)

definition padded_with :: "bytes list \<Rightarrow> bytes list \<Rightarrow> bool" where
  "padded_with secrets ps \<longleftrightarrow> (\<exists>ds. ps = secrets @ ds \<and> decoys_ok secrets ds)"

lemma padded_with_refl: "padded_with secrets secrets"
  by (auto simp: padded_with_def)

lemma padded_with_snoc:
  "padded_with secrets ps \<Longrightarrow> d \<noteq> ZERO_SECRET \<Longrightarrow> d \<notin> set ps \<Longrightarrow> padded_with secrets (ps @ [d])"
  unfolding padded_with_def by (metis append.assoc decoys_ok_snoc)

lemma padded_with_set: "padded_with secrets ps \<Longrightarrow> set secrets \<subseteq> set ps"
  by (auto simp: padded_with_def)

lemma padded_with_distinct: "padded_with secrets ps \<Longrightarrow> distinct secrets \<Longrightarrow> distinct ps"
  by (auto simp: padded_with_def decoys_ok_def)

lemma pad_loop_Ok:
  assumes "run_loop (pad_body fill target) (secrets, s) = Ok r" "length secrets \<le> target"
  shows "padded_with secrets (fst r) \<and> length (fst r) = target"
proof (rule run_loop_partial [OF assms(1),
      where I = "\<lambda>(ps, _). padded_with secrets ps \<and> length ps \<le> target"])
  show "case (secrets, s) of (ps, _) \<Rightarrow> padded_with secrets ps \<and> length ps \<le> target"
    using assms(2) by (simp add: padded_with_refl)
qed (auto simp: padded_with_snoc split: if_splits prod.splits)

lemma pad_loop_sized:
  assumes "run_loop (pad_body fill target) (secrets, s) = Ok r" "rng_sized fill" "list_all secret_ok secrets"
  shows "list_all secret_ok (fst r)"
proof (rule run_loop_partial [OF assms(1), where I = "\<lambda>(ps, _). list_all secret_ok ps"])
  fix v v' :: "bytes list \<times> 'a"
  assume I: "case v of (ps, _) \<Rightarrow> list_all secret_ok ps" and b: "pad_body fill target v = Ok (Inl v')"
  obtain ps s0 where v: "v = (ps, s0)" by (cases v)
  have "length (fst (fill s0 32)) = 32" using assms(2) by (simp add: rng_sized_def)
  then show "case v' of (ps, _) \<Rightarrow> list_all secret_ok ps"
    using I b v by (auto simp: secret_ok_def split: if_splits prod.splits)
qed (use assms(3) in \<open>auto split: if_splits prod.splits\<close>)

lemma pad_individual_secrets_Ok:
  assumes "pad_individual_secrets fill s secrets = Ok (ps, s')"
  shows "padded_with secrets ps \<and> doubling_bucket (length secrets) = Ok (length ps)"
proof -
  from assms obtain t where t: "doubling_bucket (length secrets) = Ok t"
    and l: "run_loop (pad_body fill t) (secrets, s) = Ok (ps, s')"
    by (auto simp: pad_individual_secrets_def outcome_simps)
  from pad_loop_Ok [OF l] doubling_bucket_Ok [OF t] t show ?thesis by simp
qed

lemma pad_individual_secrets_sized:
  assumes "pad_individual_secrets fill s secrets = Ok (ps, s')" "rng_sized fill" "list_all secret_ok secrets"
  shows "list_all secret_ok ps"
proof -
  from assms(1) obtain t where l: "run_loop (pad_body fill t) (secrets, s) = Ok (ps, s')"
    by (auto simp: pad_individual_secrets_def outcome_simps)
  from pad_loop_sized [OF l assms(2,3)] show ?thesis by simp
qed

text \<open>
  The loop ends when the source keeps moving: from any state, and for any 256 strings, a later draw of
  32 bytes is none of them. A source stuck on one string makes it run forever.
\<close>

definition rng_fair :: "'s rng \<Rightarrow> bool" where
  "rng_fair fill \<longleftrightarrow>
     (\<forall>s X. finite X \<and> card X \<le> 256 \<longrightarrow> (\<exists>n. fst (fill (((\<lambda>s. snd (fill s 32)) ^^ n) s) 32) \<notin> X))"

lemma pad_step:
  "run_loop (pad_body fill target) (secrets, s) =
     (if length secrets < target then
        (if fst (fill s 32) \<noteq> ZERO_SECRET \<and> fst (fill s 32) \<notin> set secrets
         then run_loop (pad_body fill target) (secrets @ [fst (fill s 32)], snd (fill s 32))
         else run_loop (pad_body fill target) (secrets, snd (fill s 32)))
      else Ok (secrets, s))"
  by (subst run_loop_unfold) (simp split: prod.split)

lemma pad_skip:
  assumes "length secrets < target"
    and "fst (fill (((\<lambda>s. snd (fill s 32)) ^^ n) s) 32) \<notin> insert ZERO_SECRET (set secrets)"
  shows "\<exists>d s'. run_loop (pad_body fill target) (secrets, s) = run_loop (pad_body fill target) (secrets @ [d], s')"
  using assms(2)
proof (induction n arbitrary: s)
  case 0
  then show ?case using assms(1) by (subst pad_step) auto
next
  case (Suc n)
  from Suc.prems have "\<exists>d s'. run_loop (pad_body fill target) (secrets, snd (fill s 32)) =
      run_loop (pad_body fill target) (secrets @ [d], s')"
    by (intro Suc.IH) (simp only: funpow_Suc_right o_apply not_False_eq_True)
  then show ?case using assms(1) by (subst pad_step) auto
qed

lemma pad_loop_returns:
  assumes "rng_fair fill" "target \<le> 255"
  shows "\<exists>r. run_loop (pad_body fill target) (secrets, s) = Ok r"
proof (induction "target - length secrets" arbitrary: secrets s)
  case 0
  then show ?case by (subst pad_step) simp
next
  case (Suc k)
  then have lt: "length secrets < target" by simp
  then have "card (insert ZERO_SECRET (set secrets)) \<le> 256"
    using assms(2) card_length [of secrets] card_insert_le_m1 [of 256 "set secrets" ZERO_SECRET] by simp
  then obtain n where "fst (fill (((\<lambda>s. snd (fill s 32)) ^^ n) s) 32) \<notin> insert ZERO_SECRET (set secrets)"
    using assms(1) unfolding rng_fair_def by (metis List.finite_set finite.insertI)
  from pad_skip [where fill = fill and n = n and s = s, OF lt this] obtain d s' where
    "run_loop (pad_body fill target) (secrets, s) = run_loop (pad_body fill target) (secrets @ [d], s')" by blast
  moreover have "\<exists>r. run_loop (pad_body fill target) (secrets @ [d], s') = Ok r"
    using Suc.hyps by (intro Suc.hyps(1)) simp
  ultimately show ?case by simp
qed

lemma pad_individual_secrets_returns:
  assumes "rng_fair fill" "length secrets \<le> 255"
  shows "\<exists>r. pad_individual_secrets fill s secrets = Ok r"
proof -
  from assms(2) obtain t where t: "doubling_bucket (length secrets) = Ok t" using doubling_bucket_total by blast
  then show ?thesis
    using pad_loop_returns [OF assms(1), of t secrets s] doubling_bucket_Ok [OF t]
    by (simp add: pad_individual_secrets_def)
qed

text \<open>A source that repeats one string: the loop takes it once at most.\<close>

lemma pad_stuck:
  assumes stuck: "\<And>s. fst (fill s 32) = d" and d: "d = ZERO_SECRET \<or> d \<in> set secrets"
    and lt: "length secrets < target"
  shows "run_loop (pad_body fill target) (secrets, s) = Diverges"
proof (rule run_loop_diverges [where I = "\<lambda>(ps, _). ps = secrets"])
  fix v :: "bytes list \<times> 'a"
  assume "case v of (ps, _) \<Rightarrow> ps = secrets"
  then obtain s0 where v: "v = (secrets, s0)" by (cases v) auto
  have "fill s0 32 = (d, snd (fill s0 32))" using stuck [of s0] by (metis prod.collapse)
  then show "\<exists>v'. pad_body fill target v = Ok (Inl v') \<and> (case v' of (ps, _) \<Rightarrow> ps = secrets)"
    using v d lt by (auto split: prod.splits)
qed simp

lemma pad_individual_secrets_stuck:
  assumes stuck: "\<And>s. fst (fill s 32) = d" and bucket: "doubling_bucket (length secrets) = Ok t"
    and lt: "Suc (length secrets) < t"
  shows "pad_individual_secrets fill s secrets = Diverges"
proof (cases "d = ZERO_SECRET \<or> d \<in> set secrets")
  case True
  then show ?thesis using pad_stuck [where fill = fill and d = d and secrets = secrets and target = t and s = s] bucket lt stuck
    by (simp add: pad_individual_secrets_def)
next
  case False
  then have "run_loop (pad_body fill t) (secrets, s) = run_loop (pad_body fill t) (secrets @ [d], snd (fill s 32))"
    using stuck lt by (subst pad_step) simp
  also have "\<dots> = Diverges" using stuck lt by (intro pad_stuck [where d = d]) simp_all
  finally show ?thesis using bucket by (simp add: pad_individual_secrets_def)
qed

section \<open>Padding the secrets with the caller's decoys\<close>

lemma add_decoys_eq:
  "add_decoys secrets decoys =
     (if decoys_ok secrets decoys then Ok (secrets @ decoys) else Err E_IndividualSecretsLength)"
  by (induction decoys arbitrary: secrets) (auto simp: decoys_ok_def)

text \<open>The subtraction of the code never underflows, and the outcome is exact.\<close>

lemma pad_individual_secrets_with_decoys_eq:
  "pad_individual_secrets_with_decoys secrets decoys =
     (if length secrets \<le> 255 \<and> doubling_bucket (length secrets) = Ok (length secrets + length decoys)
         \<and> decoys_ok secrets decoys
      then Ok (secrets @ decoys) else Err E_IndividualSecretsLength)"
proof (cases "length secrets \<le> 255")
  case True
  then obtain t where t: "doubling_bucket (length secrets) = Ok t" using doubling_bucket_total by blast
  with doubling_bucket_Ok [OF t] True show ?thesis
    by (auto simp: pad_individual_secrets_with_decoys_def add_decoys_eq)
next
  case False
  then show ?thesis by (simp add: pad_individual_secrets_with_decoys_def doubling_bucket_eq)
qed

end
