(* ===== verification/Envelope.thy ===== *)
theory Envelope
  imports Wire
begin

text \<open>
  The version 1 envelope (\<open>encode_v1\<close>, \<open>decode_version\<close>, \<open>decode_derivation_paths\<close>,
  \<open>parse_v1_header\<close>, \<open>decode_v1\<close>, \<open>decode_v1_encrypted_payload_lengths\<close> of
  \<open>bip138-ll/src/lib.rs\<close>): magic, version, derivation paths, individual secrets, encryption,
  encrypted payload. Shown: what the header parser accepts, stated on the bytes instead of on
  offsets; encoding then decoding, with any bytes after it; trailing bytes do not change a successful
  decode; a decoded envelope encodes again and decodes to itself; no decoder panics or diverges.
\<close>

section \<open>Operations\<close>

definition encode_v1 :: "u8 \<Rightarrow> bytes \<Rightarrow> bytes \<Rightarrow> u8 \<Rightarrow> bytes \<Rightarrow> bytes" where
  "encode_v1 version derivation_paths individual_secrets encryption encrypted_payload =
     MAGIC @ [version] @ derivation_paths @ individual_secrets @ [encryption] @ encrypted_payload"

section \<open>Decoders\<close>

definition decode_version :: "bytes \<Rightarrow> u8 ll" where
  "decode_version bs =
     andThen (parse_magic_byte bs) (\<lambda>m.
     andThen (init_offset bs m) (\<lambda>offset.
     andThen (slice_from bs offset) (\<lambda>tail.
     andThen (parse_version tail) (\<lambda>(_, version).
     Ok version))))"

definition decode_derivation_paths :: "bytes \<Rightarrow> deriv_path list ll" where
  "decode_derivation_paths bs =
     andThen (parse_magic_byte bs) (\<lambda>m.
     andThen (init_offset bs m) (\<lambda>offset.
     andThen (slice_from bs offset) (\<lambda>tail.
     andThen (parse_version tail) (\<lambda>(incr, _).
     andThen (increment_offset bs offset incr) (\<lambda>offset.
     andThen (slice_from bs offset) (\<lambda>tail.
     andThen (parse_derivation_paths tail) (\<lambda>(_, derivation_paths).
     Ok derivation_paths)))))))"

definition parse_v1_header :: "bytes \<Rightarrow> (nat \<times> deriv_path list \<times> bytes list \<times> u8) ll" where
  "parse_v1_header bs =
     andThen (parse_magic_byte bs) (\<lambda>m.
     andThen (init_offset bs m) (\<lambda>offset.
     andThen (slice_from bs offset) (\<lambda>tail.
     andThen (parse_version tail) (\<lambda>(incr, _).
     andThen (increment_offset bs offset incr) (\<lambda>offset.
     andThen (slice_from bs offset) (\<lambda>tail.
     andThen (parse_derivation_paths tail) (\<lambda>(incr, derivation_paths).
     andThen (increment_offset bs offset incr) (\<lambda>offset.
     andThen (slice_from bs offset) (\<lambda>tail.
     andThen (parse_individual_secrets tail) (\<lambda>(incr, individual_secrets).
     andThen (increment_offset bs offset incr) (\<lambda>offset.
     andThen (slice_from bs offset) (\<lambda>tail.
     andThen (parse_encryption tail) (\<lambda>(incr, encryption_type).
     andThen (increment_offset bs offset incr) (\<lambda>offset.
     Ok (offset, derivation_paths, individual_secrets, encryption_type)))))))))))))))"

definition decode_v1 :: "bytes \<Rightarrow> (deriv_path list \<times> bytes list \<times> u8 \<times> bytes \<times> bytes) ll" where
  "decode_v1 bs =
     andThen (parse_v1_header bs) (\<lambda>(offset, derivation_paths, individual_secrets, encryption_type).
     andThen (slice_from bs offset) (\<lambda>tail.
     andThen (parse_encrypted_payload tail) (\<lambda>(nonce, cyphertext).
     Ok (derivation_paths, individual_secrets, encryption_type, nonce, cyphertext))))"

definition decode_v1_encrypted_payload_lengths :: "bytes \<Rightarrow> nat list ll" where
  "decode_v1_encrypted_payload_lengths bs =
     andThen (parse_v1_header bs) (\<lambda>(offset, _, _, _).
     andThen (slice_from bs offset) (\<lambda>tail.
     parse_encrypted_payload_lengths tail))"

section \<open>What the header parser accepts\<close>

text \<open>The header on the bytes: magic, version 1, paths, secrets, encryption, and at least one byte more.\<close>

definition v1_header :: "bytes \<Rightarrow> nat \<times> deriv_path list \<times> bytes list \<times> u8 \<Rightarrow> bool" where
  "v1_header bs r \<longleftrightarrow>
     (\<exists>t1 n1 ps n2 ss e t3.
        bs = MAGIC @ 1 # t1 \<and> parse_derivation_paths t1 = Ok (n1, ps) \<and>
        parse_individual_secrets (drop n1 t1) = Ok (n2, ss) \<and> drop (n1 + n2) t1 = e # t3 \<and>
        e \<noteq> 0 \<and> t3 \<noteq> [] \<and> r = (8 + n1 + n2, ps, ss, e))"

lemma take_6_MAGIC: "take 6 bs = MAGIC \<and> drop 6 bs = 1 # t \<longleftrightarrow> bs = MAGIC @ 1 # t"
proof
  assume "take 6 bs = MAGIC \<and> drop 6 bs = 1 # t"
  then show "bs = MAGIC @ 1 # t" by (metis append_take_drop_id)
qed simp

lemma parse_v1_header_iff:
  assumes len: "rust_slice bs"
  shows "parse_v1_header bs = Ok r \<longleftrightarrow> v1_header bs r"
proof
  assume "parse_v1_header bs = Ok r"
  then obtain t1 n1 ps n2 ss e t3 where m: "take 6 bs = MAGIC" and v: "drop 6 bs = 1 # t1"
    and p: "parse_derivation_paths (drop 7 bs) = Ok (n1, ps)"
    and s: "parse_individual_secrets (drop (7 + n1) bs) = Ok (n2, ss)"
    and e: "drop (7 + (n1 + n2)) bs = e # t3" "e \<noteq> 0" and l: "8 + (n1 + n2) < length bs"
    and r: "r = (8 + (n1 + n2), ps, ss, e)"
    by (auto simp: parse_v1_header_def outcome_simps)
  from m v have bs: "bs = MAGIC @ 1 # t1" using take_6_MAGIC by blast
  have d7: "drop (7 + k) bs = drop k t1" for k by (simp add: bs)
  have "t3 \<noteq> []"
  proof
    assume "t3 = []"
    with e have "length (drop (7 + (n1 + n2)) bs) = 1" by simp
    with l show False by simp
  qed
  with p s e r d7 [of 0] d7 [of n1] d7 [of "n1 + n2"] show "v1_header bs r"
    unfolding v1_header_def bs by (simp add: add.assoc)
next
  assume "v1_header bs r"
  then obtain t1 n1 ps n2 ss e t3 where bs: "bs = MAGIC @ 1 # t1"
    and p: "parse_derivation_paths t1 = Ok (n1, ps)"
    and s: "parse_individual_secrets (drop n1 t1) = Ok (n2, ss)" and e: "drop (n1 + n2) t1 = e # t3"
    and ne: "e \<noteq> 0" "t3 \<noteq> []" and r: "r = (8 + n1 + n2, ps, ss, e)"
    unfolding v1_header_def by blast
  have "length (drop (n1 + n2) t1) = 1 + length t3" by (simp add: e)
  with ne(2) have l: "n1 + n2 + 1 < length t1" by (cases t3) auto
  have small: "length t1 + 7 \<le> usize_MAX" using rust_slice_usize [OF len] by (simp add: bs)
  have e': "drop (n2 + n1) t1 = e # t3" "t1 \<noteq> []" using e l by (auto simp: add.commute)
  show "parse_v1_header bs = Ok r"
    using p s e e' ne l small
    by (simp add: parse_v1_header_def parse_magic_byte_def bs init_offset_def check_offset_def
        slice_from_def parse_version_def index_at_def version_max_def increment_offset_def
        plain_add_def checked_add_def parse_encryption_def r)
qed

section \<open>Encoding, then decoding\<close>

lemma decode_encode_v1:
  assumes dp: "encode_derivation_paths paths = Ok dp"
    and si: "encode_individual_secrets secrets = Ok sec" and ok: "list_all secret_ok secrets"
    and e: "e \<noteq> 0" and ep: "encode_encrypted_payload nonce cyphertext = Ok ep"
    and n: "length nonce = 12" "nonce \<noteq> ZERO_NONCE"
    and len: "rust_slice (encode_v1 1 dp sec e ep @ rest)"
  shows "decode_v1 (encode_v1 1 dp sec e ep @ rest) =
    Ok (sort_dedup paths, sort_dedup secrets, e, nonce, cyphertext)"
proof -
  let ?bs = "encode_v1 1 dp sec e ep @ rest"
  have bs: "?bs = MAGIC @ 1 # dp @ sec @ e # ep @ rest" by (simp add: encode_v1_def)
  have l1: "rust_slice (dp @ sec @ e # ep @ rest)" and l2: "rust_slice (sec @ e # ep @ rest)"
    and l3: "rust_slice (ep @ rest)" using len unfolding bs by (simp_all add: rust_slice_def)
  have p: "parse_derivation_paths (dp @ sec @ e # ep @ rest) = Ok (length dp, sort_dedup paths)"
    by (rule parse_encode_derivation_paths [OF dp l1])
  have s: "parse_individual_secrets (sec @ e # ep @ rest) = Ok (length sec, sort_dedup secrets)"
    by (rule parse_encode_individual_secrets [OF si ok l2])
  from ep have c: "cyphertext \<noteq> []" and epe: "ep = payload_enc (nonce, cyphertext)"
    by (simp_all add: encode_encrypted_payload_Ok)
  then have "ep @ rest \<noteq> []" by (simp add: payload_enc_def)
  with p s e have "v1_header ?bs (8 + length dp + length sec, sort_dedup paths, sort_dedup secrets, e)"
    unfolding v1_header_def bs by simp
  with len have h: "parse_v1_header ?bs = Ok (8 + length dp + length sec, sort_dedup paths, sort_dedup secrets, e)"
    by (simp add: parse_v1_header_iff)
  have d: "drop (8 + length dp + length sec) ?bs = ep @ rest" unfolding bs by simp
  have "payload_ok (nonce, cyphertext)"
    using n l3 epe by (simp add: payload_ok_def rust_slice_def isize_MAX_def payload_enc_def)
  then have "payload_dec (ep @ rest) = Some ((nonce, cyphertext), length ep)"
    unfolding epe by (rule payload_dec_enc)
  then have "parse_encrypted_payload (ep @ rest) = Ok (nonce, cyphertext)"
    by (simp add: parse_encrypted_payload_iff [OF l3])
  moreover have "slice_from ?bs (8 + length dp + length sec) = (Ok (ep @ rest) :: bytes ll)"
    unfolding slice_from_def d by (simp add: bs)
  ultimately show ?thesis by (simp add: decode_v1_def h)
qed

section \<open>Trailing bytes\<close>

lemma parse_derivation_paths_append:
  assumes "rust_slice (bs @ t)" and "parse_derivation_paths bs = Ok r"
  shows "parse_derivation_paths (bs @ t) = Ok r"
  using assms pathc.dec_many_append rust_slice_append1 [OF assms(1)]
  by (cases r) (fastforce simp: parse_derivation_paths_iff)

lemma parse_individual_secrets_append:
  assumes "rust_slice (bs @ t)" and "parse_individual_secrets bs = Ok r"
  shows "parse_individual_secrets (bs @ t) = Ok r"
  using assms secretc.dec_many_append rust_slice_append1 [OF assms(1)]
  by (cases r) (fastforce simp: parse_individual_secrets_iff)

lemma v1_header_append:
  assumes len: "rust_slice (bs @ t)" and h: "v1_header bs r"
  shows "v1_header (bs @ t) r"
proof -
  from h obtain t1 n1 ps n2 ss e t3 where bs: "bs = MAGIC @ 1 # t1"
    and p: "parse_derivation_paths t1 = Ok (n1, ps)"
    and s: "parse_individual_secrets (drop n1 t1) = Ok (n2, ss)" and e: "drop (n1 + n2) t1 = e # t3"
    and ne: "e \<noteq> 0" "t3 \<noteq> []" and r: "r = (8 + n1 + n2, ps, ss, e)"
    unfolding v1_header_def by blast
  have l1: "rust_slice (t1 @ t)" using len by (simp add: bs rust_slice_def)
  have n12: "n1 + n2 \<le> length t1" using e by (metis drop_all nat_le_linear list.distinct(1))
  then have l2: "rust_slice (drop n1 t1 @ t)" using l1 by (simp add: rust_slice_def)
  have "parse_derivation_paths (t1 @ t) = Ok (n1, ps)" by (rule parse_derivation_paths_append [OF l1 p])
  moreover have "parse_individual_secrets (drop n1 (t1 @ t)) = Ok (n2, ss)"
    using parse_individual_secrets_append [OF l2 s] n12 by simp
  moreover have "drop (n1 + n2) (t1 @ t) = e # t3 @ t" using e n12 by simp
  ultimately show ?thesis unfolding v1_header_def bs using ne r by simp
qed

lemma v1_header_bound: "v1_header bs (n, ps, ss, e) \<Longrightarrow> n < length bs"
proof -
  assume "v1_header bs (n, ps, ss, e)"
  then obtain t1 n1 n2 t3 where bs: "bs = MAGIC @ 1 # t1" and e: "drop (n1 + n2) t1 = e # t3"
    and ne: "t3 \<noteq> []" and n: "n = 8 + n1 + n2"
    unfolding v1_header_def by blast
  have "length (drop (n1 + n2) t1) = 1 + length t3" by (simp add: e)
  with ne n show ?thesis by (cases t3) (auto simp: bs)
qed

lemma decode_v1_iff:
  assumes len: "rust_slice bs"
  shows "decode_v1 bs = Ok (ps, ss, e, nonce, c) \<longleftrightarrow>
    (\<exists>n k. v1_header bs (n, ps, ss, e) \<and> payload_dec (drop n bs) = Some ((nonce, c), k))"
  using len v1_header_bound
  by (fastforce simp: decode_v1_def outcome_simps parse_v1_header_iff parse_encrypted_payload_iff)

lemma decode_v1_append:
  assumes len: "rust_slice (bs @ t)" and d: "decode_v1 bs = Ok r"
  shows "decode_v1 (bs @ t) = Ok r"
proof -
  obtain ps ss e nonce c where r: "r = (ps, ss, e, nonce, c)" by (cases r)
  with d decode_v1_iff [OF rust_slice_append1 [OF len]] obtain n k where
    h: "v1_header bs (n, ps, ss, e)" and p: "payload_dec (drop n bs) = Some ((nonce, c), k)" by blast
  have "drop n (bs @ t) = drop n bs @ t" using v1_header_bound [OF h] by simp
  with v1_header_append [OF len h] payloadc.dec_append [OF p, of t] show ?thesis
    unfolding r decode_v1_iff [OF len] by auto
qed

section \<open>What a decoded envelope looks like\<close>

lemma decode_v1_normal:
  assumes len: "rust_slice bs" and d: "decode_v1 bs = Ok (ps, ss, e, nonce, c)"
  shows "paths_normal ps \<and> secrets_normal ss \<and> e \<noteq> 0 \<and> payload_ok (nonce, c)"
proof -
  from d decode_v1_iff [OF len] obtain n k where h: "v1_header bs (n, ps, ss, e)"
    and p: "payload_dec (drop n bs) = Some ((nonce, c), k)" by blast
  from h obtain t1 n1 n2 where bs: "bs = MAGIC @ 1 # t1" and pp: "parse_derivation_paths t1 = Ok (n1, ps)"
    and sp: "parse_individual_secrets (drop n1 t1) = Ok (n2, ss)" and "e \<noteq> 0"
    unfolding v1_header_def by blast
  have l1: "rust_slice t1" using len by (simp add: bs rust_slice_def)
  have "paths_normal ps" using parse_derivation_paths_normal [OF l1 pp] by blast
  moreover have "secrets_normal ss"
    using parse_individual_secrets_normal [OF rust_slice_drop [OF l1] sp] by blast
  ultimately show ?thesis using payloadc.dec_canonical [OF p] \<open>e \<noteq> 0\<close> by blast
qed

lemma decode_v1_cipher_bound:
  assumes len: "rust_slice bs" and d: "decode_v1 bs = Ok (ps, ss, e, nonce, c)"
  shows "length c \<le> length bs"
proof -
  from d decode_v1_iff [OF len] obtain n k where "payload_dec (drop n bs) = Some ((nonce, c), k)" by blast
  from payloadc.dec_split [OF this]
  have "length (drop n bs) = length (payload_enc (nonce, c) @ drop k (drop n bs))" by simp
  then show ?thesis by (simp add: payload_enc_def)
qed

section \<open>No decoder panics or diverges\<close>

lemma decode_version_safe: "decode_version bs \<noteq> Panic \<and> decode_version bs \<noteq> Diverges"
  by (auto simp: decode_version_def outcome_simps)

lemma decode_derivation_paths_safe:
  assumes len: "rust_slice bs"
  shows "decode_derivation_paths bs \<noteq> Panic \<and> decode_derivation_paths bs \<noteq> Diverges"
  using len by (auto simp: decode_derivation_paths_def outcome_simps usize_MAX_def
      parse_derivation_paths_safe)

lemma parse_derivation_paths_drop_bound:
  "rust_slice bs \<Longrightarrow> parse_derivation_paths (drop m bs) = Ok (n, ps) \<Longrightarrow> n \<le> length bs - m"
  using parse_derivation_paths_normal [of "drop m bs"] by simp

lemma parse_individual_secrets_drop_bound:
  "rust_slice bs \<Longrightarrow> parse_individual_secrets (drop m bs) = Ok (n, ss) \<Longrightarrow> n \<le> length bs - m"
  using parse_individual_secrets_normal [of "drop m bs"] by simp

lemma parse_v1_header_safe:
  assumes len: "rust_slice bs"
  shows "parse_v1_header bs \<noteq> Panic \<and> parse_v1_header bs \<noteq> Diverges"
proof -
  have small: "length bs \<le> isize_MAX" using len by (simp add: rust_slice_def)
  then show ?thesis
    using len
    by (auto simp: parse_v1_header_def outcome_simps parse_derivation_paths_safe
        parse_individual_secrets_safe usize_MAX_def isize_MAX_def not_le
        dest!: parse_derivation_paths_drop_bound [OF len] parse_individual_secrets_drop_bound [OF len])
qed

lemma decode_v1_safe:
  assumes len: "rust_slice bs"
  shows "decode_v1 bs \<noteq> Panic \<and> decode_v1 bs \<noteq> Diverges"
  using len parse_v1_header_safe [OF len] v1_header_bound
  by (fastforce simp: decode_v1_def outcome_simps parse_encrypted_payload_safe parse_v1_header_iff)

lemma decode_v1_encrypted_payload_lengths_safe:
  assumes len: "rust_slice bs"
  shows "decode_v1_encrypted_payload_lengths bs \<noteq> Panic \<and>
    decode_v1_encrypted_payload_lengths bs \<noteq> Diverges"
  using len parse_v1_header_safe [OF len] v1_header_bound
  by (fastforce simp: decode_v1_encrypted_payload_lengths_def outcome_simps
      parse_encrypted_payload_lengths_safe parse_v1_header_iff)

lemma decode_lengths_iff:
  assumes "rust_slice bs"
  shows "decode_v1_encrypted_payload_lengths bs = Ok ls \<longleftrightarrow>
    (\<exists>n paths secrets e p ps. v1_header bs (n, paths, secrets, e) \<and>
       greedy_payloads (drop n bs) (p # ps) \<and> ls = map (length \<circ> snd) (p # ps))"
proof -
  have s: "slice_from bs n = (Ok (drop n bs) :: bytes ll)" if "v1_header bs (n, r)" for n r
    using v1_header_bound [of bs n] that by (cases r) (fastforce simp: slice_from_def)
  show ?thesis
    using assms s
    by (fastforce simp: decode_v1_encrypted_payload_lengths_def outcome_simps parse_v1_header_iff
        parse_encrypted_payload_lengths_iff rust_slice_drop)
qed

lemma decode_v1_lengths:
  assumes len: "rust_slice bs" and d: "decode_v1 bs = Ok (ps, ss, e, nonce, c)"
  shows "\<exists>ls. decode_v1_encrypted_payload_lengths bs = Ok (length c # ls)"
proof -
  from d decode_v1_iff [OF len] obtain n k where h: "v1_header bs (n, ps, ss, e)"
    and p: "payload_dec (drop n bs) = Some ((nonce, c), k)" by blast
  obtain qs where "greedy_payloads (drop k (drop n bs)) qs"
    using greedy_payloads_exist len rust_slice_drop by blast
  with p have g: "greedy_payloads (drop n bs) ((nonce, c) # qs)" by (rule greedy_more)
  have "decode_v1_encrypted_payload_lengths bs = Ok (map (length \<circ> snd) ((nonce, c) # qs))"
    by (rule iffD2 [OF decode_lengths_iff [OF len]], intro exI conjI, rule h, rule g, rule refl)
  then show ?thesis by simp
qed

section \<open>Properties\<close>

text \<open>
  C6. The version 1 envelope round trips: what \<open>encode_v1\<close> puts together from encoded paths, secrets
  and an encrypted payload decodes, whatever bytes follow it, to the same paths and secrets (sorted,
  each once), encryption byte, nonce and ciphertext.
\<close>

theorem envelope_roundtrip:
  assumes "encode_derivation_paths paths = Ok dp"
    and "encode_individual_secrets secrets = Ok sec" "list_all secret_ok secrets"
    and "e \<noteq> 0" "encode_encrypted_payload nonce cyphertext = Ok ep"
    and "length nonce = 12" "nonce \<noteq> ZERO_NONCE"
    and "rust_slice (encode_v1 1 dp sec e ep @ rest)"
  shows "decode_v1 (encode_v1 1 dp sec e ep @ rest) =
    Ok (sort_dedup paths, sort_dedup secrets, e, nonce, cyphertext)"
  using assms by (rule decode_encode_v1)

text \<open>A small envelope: no path, one secret, one byte of ciphertext.\<close>

definition small_envelope :: bytes where
  "small_envelope = encode_v1 1 [0] (1 # replicate 32 5) 1 (replicate 12 1 @ [1, 9])"

lemma small_envelope_slice: "length rest < 100 \<Longrightarrow> rust_slice (small_envelope @ rest)"
  by (simp add: small_envelope_def rust_slice_def isize_MAX_def encode_v1_def MAGIC_def ascii_def)

lemma sort_dedup_single: "sort_dedup [x] = [x]"
  by (simp add: sort_dedup_eq)

lemma sort_dedup_Nil: "sort_dedup [] = []"
  by (simp add: sort_dedup_eq)

lemma small_envelope_parts:
  "encode_derivation_paths [] = Ok [0]"
  "encode_individual_secrets [replicate 32 5] = Ok (1 # replicate 32 5)"
  "encode_encrypted_payload (replicate 12 1) [9] = Ok (replicate 12 1 @ [1, 9])"
proof -
  have v: "varint_encode 1 = [1]" by code_simp
  show "encode_derivation_paths [] = Ok [0]"
    by (simp add: encode_derivation_paths_Ok sort_dedup_Nil)
  show "encode_individual_secrets [replicate 32 5] = Ok (1 # replicate 32 5)"
    by (simp add: encode_individual_secrets_Ok sort_dedup_single)
  show "encode_encrypted_payload (replicate 12 1) [9] = Ok (replicate 12 1 @ [1, 9])"
    by (simp add: encode_encrypted_payload_Ok payload_enc_def v)
qed

lemma small_envelope_decodes:
  "length rest < 100 \<Longrightarrow>
   decode_v1 (small_envelope @ rest) = Ok ([], [replicate 32 5], 1, replicate 12 1, [9])"
  using decode_encode_v1 [OF small_envelope_parts(1,2) _ _ small_envelope_parts(3), of 1 rest]
    small_envelope_slice [of rest]
  by (simp add: secret_ok_def ZERO_NONCE_def sort_dedup_Nil sort_dedup_single small_envelope_def)

theorem envelope_roundtrip_witness:
  "decode_v1 (small_envelope @ [10]) = Ok ([], [replicate 32 5], 1, replicate 12 1, [9])"
  using envelope_roundtrip [OF small_envelope_parts(1,2) _ _ small_envelope_parts(3), of 1 "[10]"]
    small_envelope_slice [of "[10]"]
  by (simp add: secret_ok_def ZERO_NONCE_def sort_dedup_Nil sort_dedup_single small_envelope_def)

text \<open>
  No decoder of the envelope panics or runs forever, on any byte string Rust can hold: each returns
  a value or an error.
\<close>

lemma envelope_decoders_return:
  assumes "rust_slice bs"
  shows "decode_version bs \<noteq> Panic \<and> decode_version bs \<noteq> Diverges \<and>
    decode_derivation_paths bs \<noteq> Panic \<and> decode_derivation_paths bs \<noteq> Diverges \<and>
    decode_v1 bs \<noteq> Panic \<and> decode_v1 bs \<noteq> Diverges \<and>
    decode_v1_encrypted_payload_lengths bs \<noteq> Panic \<and> decode_v1_encrypted_payload_lengths bs \<noteq> Diverges"
  using assms decode_version_safe decode_derivation_paths_safe decode_v1_safe
    decode_v1_encrypted_payload_lengths_safe by blast

lemma envelope_decoders_return_witness:
  "decode_v1 (MAGIC @ [1, 255]) \<noteq> Panic \<and> decode_v1_encrypted_payload_lengths (MAGIC @ [1, 255]) \<noteq> Diverges"
  using envelope_decoders_return [of "MAGIC @ [1, 255]"]
  by (simp add: rust_slice_def isize_MAX_def MAGIC_def ascii_def)

text \<open>
  C30. What a decoded envelope holds, whoever wrote it: at most 255 paths of 1 to 255 child numbers, 1 to
  255 secrets of 32 bytes, both strictly increasing, a defined encryption byte, a nonce of 12 bytes that
  are not all zero, and a ciphertext within the input.
\<close>

theorem decoded_envelope_normal:
  assumes "rust_slice bs" "decode_v1 bs = Ok (ps, ss, e, nonce, c)"
  shows "sorted_wrt (<) ps \<and> length ps \<le> 255 \<and> list_all path_ok ps \<and>
    sorted_wrt (<) ss \<and> 1 \<le> length ss \<and> length ss \<le> 255 \<and> list_all (\<lambda>s. length s = 32) ss \<and>
    e \<noteq> 0 \<and> length nonce = 12 \<and> nonce \<noteq> ZERO_NONCE \<and> length c \<le> length bs"
  using decode_v1_normal [OF assms] decode_v1_cipher_bound [OF assms]
  by (auto simp: paths_normal_def secrets_normal_def payload_ok_def secret_ok_def list_all_iff Suc_le_eq)

theorem decoded_envelope_normal_witness:
  "list_all (\<lambda>s. length s = 32) [replicate 32 (5 :: u8)] \<and> length [9 :: u8] \<le> length small_envelope"
  using decoded_envelope_normal [of small_envelope "[]" "[replicate 32 5]" 1 "replicate 12 1" "[9]"]
    small_envelope_slice [of "[]"] small_envelope_decodes [of "[]"] by simp

text \<open>
  C33. The lengths \<open>inspect\<close> reports are those of the encrypted payloads that follow each other after
  the header, as many as parse; the list is refused exactly when the header or the first payload is.
\<close>

theorem ciphertext_lengths_walk:
  assumes "rust_slice bs"
  shows "decode_v1_encrypted_payload_lengths bs = Ok ls \<longleftrightarrow>
    (\<exists>n paths secrets e p ps. v1_header bs (n, paths, secrets, e) \<and>
       greedy_payloads (drop n bs) (p # ps) \<and> ls = map (length \<circ> snd) (p # ps))"
  using assms by (rule decode_lengths_iff)

theorem ciphertext_lengths_walk_witness:
  "\<exists>n ps. v1_header (small_envelope @ [10]) (n, [], [replicate 32 5], 1) \<and>
     greedy_payloads (drop n (small_envelope @ [10])) ((replicate 12 1, [9]) # ps) \<and>
     decode_v1_encrypted_payload_lengths (small_envelope @ [10]) = Ok (1 # map (length \<circ> snd) ps)"
proof -
  let ?bs = "small_envelope @ [10]"
  have len: "rust_slice ?bs" by (rule small_envelope_slice) simp
  from small_envelope_decodes [of "[10]"] obtain n k where h: "v1_header ?bs (n, [], [replicate 32 5], 1)"
    and p: "payload_dec (drop n ?bs) = Some ((replicate 12 1, [9]), k)"
    using decode_v1_iff [OF len] by auto
  have "\<exists>ps. greedy_payloads (drop k (drop n ?bs)) ps"
    by (intro greedy_payloads_exist rust_slice_drop len)
  then obtain ps where g: "greedy_payloads (drop n ?bs) ((replicate 12 1, [9]) # ps)"
    using greedy_more [OF p] by blast
  have "decode_v1_encrypted_payload_lengths ?bs = Ok (map (length \<circ> snd) ((replicate 12 1, [9]) # ps))"
    by (rule iffD2 [OF ciphertext_lengths_walk [OF len]], intro exI conjI, rule h, rule g, rule refl)
  then have "decode_v1_encrypted_payload_lengths ?bs = Ok (1 # map (length \<circ> snd) ps)"
    by simp
  with h g show ?thesis by blast
qed

end
