(* ===== verification/Content_Codec.thy ===== *)
theory Content_Codec
  imports Cursor Varint
begin

text \<open>
  The \<open>CONTENT\<close> field (\<open>TryFrom<Content> for Vec<u8>\<close> and \<open>parse_content\<close> of
  \<open>bip138-ll/src/lib.rs\<close>): a type byte, a length for every type but the BIP one, and data. Shown:
  what encodes reads back (up to the five BIP numbers with a variant of their own), the parser never
  panics and never runs past its input, and the behaviour of every type byte.
\<close>

section \<open>Operations\<close>

definition content_type_byte :: "content \<Rightarrow> (unit, bytes) outcome" where
  "content_type_byte value =
     (case value of
        Content_Unknown \<Rightarrow> Err ()
      | Content_None \<Rightarrow> Err ()
      | Content_Bip139 \<Rightarrow> Ok [CONTENT_BIP]
      | Content_Bip138 \<Rightarrow> Ok [CONTENT_BIP]
      | Content_Bip380 \<Rightarrow> Ok [CONTENT_BIP]
      | Content_Bip388 \<Rightarrow> Ok [CONTENT_BIP]
      | Content_Bip329 \<Rightarrow> Ok [CONTENT_BIP]
      | Content_BIP _ \<Rightarrow> Ok [CONTENT_BIP]
      | Content_Proprietary _ \<Rightarrow> Ok [CONTENT_PROPRIETARY]
      | Content_String \<Rightarrow> Ok [CONTENT_STRING])"

definition content_length_bytes :: "content \<Rightarrow> bytes" where
  "content_length_bytes value =
     (case value of
        Content_Proprietary d \<Rightarrow> varint_encode (word_of_nat (length d))
      | Content_String \<Rightarrow> varint_encode 0
      | _ \<Rightarrow> [])"

definition content_data_bytes :: "content \<Rightarrow> bytes" where
  "content_data_bytes value =
     (case value of
        Content_None \<Rightarrow> []
      | Content_Unknown \<Rightarrow> []
      | Content_Bip138 \<Rightarrow> u16_to_be_bytes 138
      | Content_Bip139 \<Rightarrow> u16_to_be_bytes 139
      | Content_Bip380 \<Rightarrow> u16_to_be_bytes 380
      | Content_Bip388 \<Rightarrow> u16_to_be_bytes 388
      | Content_Bip329 \<Rightarrow> u16_to_be_bytes 329
      | Content_BIP bip \<Rightarrow> u16_to_be_bytes bip
      | Content_Proprietary d \<Rightarrow> d
      | Content_String \<Rightarrow> [])"

definition content_try_into :: "content \<Rightarrow> (unit, bytes) outcome" where
  "content_try_into value =
     andThen (content_type_byte value) (\<lambda>out.
     Ok (out @ content_length_bytes value @ content_data_bytes value))"

definition content_of_bip :: "u16 \<Rightarrow> content" where
  "content_of_bip bip =
     (if bip = 138 then Content_Bip138
      else if bip = 139 then Content_Bip139
      else if bip = 380 then Content_Bip380
      else if bip = 388 then Content_Bip388
      else if bip = 329 then Content_Bip329
      else Content_BIP bip)"

definition parse_content :: "bytes \<Rightarrow> (nat \<times> content) ll" where
  "parse_content bs =
     (let len = length bs in
      andThen (init_offset bs 0) (\<lambda>_.
      andThen (index_at bs 0) (\<lambda>t.
      if t = CONTENT_END then Err E_ContentEnd
      else if t = CONTENT_BIP then
        andThen (map_err (\<lambda>_. E_ContentMetadata) (check_offset_lookahead 0 bs 3)) (\<lambda>_.
        andThen (slice_range bs 1 3) (\<lambda>bip_bytes.
        Ok (3, content_of_bip (u16_from_be_bytes bip_bytes))))
      else if t < CONTENT_UPGRADE then
        andThen (slice_from bs 1) (\<lambda>tail.
        andThen (ok_or E_ContentMetadata (varint_parse tail)) (\<lambda>(raw_len, offset).
        andThen (ok_or E_ContentMetadata (usize_of_u64 raw_len)) (\<lambda>data_len.
        andThen (plain_add 1 offset) (\<lambda>start.
        andThen (check_offset_lookahead start bs data_len) (\<lambda>_.
        andThen (plain_add start data_len) (\<lambda>fin.
        if len < fin then Err E_ContentMetadata
        else andThen (slice_range bs (offset + 1) fin) (\<lambda>data.
          if t = CONTENT_PROPRIETARY then Ok (fin, Content_Proprietary data)
          else if t = CONTENT_STRING then
            if data \<noteq> [] then Err E_ContentMetadata else Ok (fin, Content_String)
          else Ok (fin, Content_Unknown))))))))
      else Err E_ContentMetadata)))"

section \<open>Safety of the parser\<close>

lemma parse_content_not_Panic: "rust_slice bs \<Longrightarrow> parse_content bs \<noteq> Panic"
proof
  assume len: "rust_slice bs" and p: "parse_content bs = Panic"
  have small: "length bs \<le> usize_MAX" by (rule rust_slice_usize [OF len])
  have ten: "(10::nat) \<le> usize_MAX" by (simp add: usize_MAX_def)
  from p small ten show False
    by (auto simp: parse_content_def Let_def outcome_simps split: if_splits dest: varint_parse_bounds)
qed

lemma parse_content_not_Diverges [simp]: "parse_content bs \<noteq> Diverges"
  by (auto simp: parse_content_def Let_def outcome_simps split: if_splits)

lemma parse_content_Ok_bounds: "parse_content bs = Ok (n, c) \<Longrightarrow> 1 \<le> n \<and> n \<le> length bs"
  by (auto simp: parse_content_def Let_def outcome_simps split: if_splits)

section \<open>Behaviour on each type byte\<close>

lemma usize_room: "rust_slice d \<Longrightarrow> k \<le> 1000 \<Longrightarrow> k + length d \<le> usize_MAX"
  by (simp add: rust_slice_def usize_MAX_def isize_MAX_def)

lemma unat_length_u64: "rust_slice d \<Longrightarrow> unat (word_of_nat (length d) :: u64) = length d"
  by (simp add: rust_slice_def isize_MAX_def unat_of_nat)

lemma parse_content_Nil: "parse_content [] = Err E_Corrupted"
  by (simp add: parse_content_def init_offset_def check_offset_def)

lemma parse_content_bip:
  "parse_content (CONTENT_BIP # bs) =
     (if 2 \<le> length bs then Ok (3, content_of_bip (u16_from_be_bytes (take 2 bs)))
      else Err E_ContentMetadata)"
  by (simp add: parse_content_def content_type_defs init_offset_def check_offset_def
      check_offset_lookahead_def checked_add_def checked_sub_def usize_MAX_def index_at_def slice_range_def)

lemma parse_content_end: "parse_content (CONTENT_END # bs) = Err E_ContentEnd"
  by (simp add: parse_content_def init_offset_def check_offset_def index_at_def)

lemma parse_content_upgrade:
  "CONTENT_UPGRADE \<le> t \<Longrightarrow> parse_content (t # bs) = Err E_ContentMetadata"
  by (auto simp: parse_content_def init_offset_def check_offset_def index_at_def content_type_defs
      word_le_nat_alt word_less_nat_alt)

text \<open>A type below \<open>0x80\<close> other than end and BIP: length, then data, then the type decides.\<close>

definition content_of_type :: "u8 \<Rightarrow> bytes \<Rightarrow> content ll" where
  "content_of_type t data =
     (if t = CONTENT_PROPRIETARY then Ok (Content_Proprietary data)
      else if t = CONTENT_STRING then
        if data \<noteq> [] then Err E_ContentMetadata else Ok Content_String
      else Ok Content_Unknown)"

lemma parse_content_sized:
  assumes t: "t \<noteq> CONTENT_END" "t \<noteq> CONTENT_BIP" "t < CONTENT_UPGRADE" and d: "rust_slice d"
  shows "parse_content (t # varint_encode (word_of_nat (length d)) @ d @ rest) =
    (let n = 1 + length (varint_encode (word_of_nat (length d))) + length d in
     andThen (content_of_type t d) (\<lambda>c. Ok (n, c)))"
proof -
  let ?v = "varint_encode (word_of_nat (length d))"
  let ?bs = "t # ?v @ d @ rest"
  have v: "varint_parse (?v @ d @ rest) = Some (word_of_nat (length d), length ?v)"
    by (rule varint_parse_encode)
  have vb: "length ?v \<le> 9" using length_varint_encode_bounds by blast
  then have room: "Suc (length ?v + length d) \<le> usize_MAX"
    using usize_room [OF d, of "1 + length ?v"] by simp
  have add: "plain_add 1 (length ?v) = (Ok (1 + length ?v) :: nat ll)"
    and fin: "plain_add (1 + length ?v) (length d) = (Ok (1 + length ?v + length d) :: nat ll)"
    using room by (simp_all add: plain_add_def)
  have look: "check_offset_lookahead (1 + length ?v) ?bs (length d) = Ok ()"
    using room by (simp add: check_offset_lookahead_Ok)
  have sl: "slice_range ?bs (length ?v + 1) (1 + length ?v + length d) = (Ok d :: bytes ll)"
    by (simp add: slice_range_def)
  have "init_offset ?bs 0 = Ok 0" by (simp add: init_offset_def check_offset_def)
  moreover have "index_at ?bs 0 = (Ok t :: u8 ll)" by (simp add: index_at_def)
  moreover have "slice_from ?bs 1 = (Ok (?v @ d @ rest) :: bytes ll)" by (simp add: slice_from_def)
  ultimately show ?thesis
    unfolding parse_content_def Let_def using t
    by (simp add: v look sl add fin unat_length_u64 [OF d] content_of_type_def del: add_Suc add_Suc_right plus_1_eq_Suc One_nat_def)
qed

section \<open>Round trip\<close>

text \<open>A BIP number that has a variant of its own comes back as that variant.\<close>

fun content_norm :: "content \<Rightarrow> content" where
  "content_norm (Content_BIP bip) = content_of_bip bip"
| "content_norm c = c"

fun content_fits :: "content \<Rightarrow> bool" where
  "content_fits (Content_Proprietary d) = rust_slice d"
| "content_fits _ = True"

lemma content_norm_of_bip [simp]: "content_norm (content_of_bip b) = content_of_bip b"
  by (simp add: content_of_bip_def)

lemma content_norm_idem [simp]: "content_norm (content_norm c) = content_norm c"
  by (cases c) simp_all

lemma content_try_into_Ok_iff:
  "(\<exists>b. content_try_into c = Ok b) \<longleftrightarrow> c \<noteq> Content_None \<and> c \<noteq> Content_Unknown"
  by (cases c) (simp_all add: content_try_into_def content_type_byte_def)

lemma content_try_into_not_Panic [simp]: "content_try_into c \<noteq> Panic"
  by (cases c) (simp_all add: content_try_into_def content_type_byte_def)

lemma content_try_into_not_Diverges [simp]: "content_try_into c \<noteq> Diverges"
  by (cases c) (simp_all add: content_try_into_def content_type_byte_def)

lemma content_try_into_not_Nil: "content_try_into c = Ok b \<Longrightarrow> b \<noteq> []"
  by (cases c) (auto simp: content_try_into_def content_type_byte_def)

lemma content_try_into_hd: "content_try_into c = Ok b \<Longrightarrow> hd b \<noteq> CONTENT_END"
  by (cases c) (auto simp: content_try_into_def content_type_byte_def content_type_defs)

lemma parse_content_bip_bytes:
  "parse_content (CONTENT_BIP # u16_to_be_bytes w @ rest) = Ok (3, content_of_bip w)"
  by (simp add: parse_content_bip)

lemma parse_content_try_into:
  assumes enc: "content_try_into c = Ok b" and fits: "content_fits c"
  shows "parse_content (b @ rest) = Ok (length b, content_norm c)"
proof (cases c)
  case (Content_Proprietary d)
  have "parse_content (CONTENT_PROPRIETARY # varint_encode (word_of_nat (length d)) @ d @ rest) =
      Ok (1 + length (varint_encode (word_of_nat (length d))) + length d, Content_Proprietary d)"
    using fits Content_Proprietary
    by (subst parse_content_sized) (simp_all add: content_type_defs content_of_type_def)
  with enc Content_Proprietary show ?thesis
    by (auto simp: content_try_into_def content_type_byte_def content_length_bytes_def content_data_bytes_def)
next
  case Content_String
  have "parse_content (CONTENT_STRING # varint_encode (word_of_nat (length ([] :: bytes))) @ [] @ rest) =
      Ok (1 + length (varint_encode 0), Content_String)"
    by (subst parse_content_sized) (simp_all add: content_type_defs content_of_type_def rust_slice_def)
  with enc Content_String show ?thesis
    by (auto simp: content_try_into_def content_type_byte_def content_length_bytes_def content_data_bytes_def)
qed (use enc in \<open>auto simp: content_try_into_def content_type_byte_def content_length_bytes_def
      content_data_bytes_def parse_content_bip_bytes content_of_bip_def\<close>)

text \<open>The field as an instance of the codec contract.\<close>

definition content_enc :: "content \<Rightarrow> bytes" where
  "content_enc c = (case content_try_into c of Ok b \<Rightarrow> b | _ \<Rightarrow> [])"

definition content_dec :: "bytes \<Rightarrow> (content \<times> nat) option" where
  "content_dec bs = (case parse_content bs of Ok (n, c) \<Rightarrow> Some (c, n) | _ \<Rightarrow> None)"

definition content_plain :: "content \<Rightarrow> bool" where
  "content_plain c \<longleftrightarrow>
     c \<noteq> Content_None \<and> c \<noteq> Content_Unknown \<and> content_norm c = c \<and> content_fits c"

interpretation content: prefix_codec content_enc content_dec content_plain
proof
  fix c rest
  assume c: "content_plain c"
  then obtain b where b: "content_try_into c = Ok b"
    using content_try_into_Ok_iff by (auto simp: content_plain_def)
  with c show "content_dec (content_enc c @ rest) = Some (c, length (content_enc c))"
    by (simp add: content_enc_def content_dec_def parse_content_try_into content_plain_def)
next
  fix bs c n
  assume "content_dec bs = Some (c, n)"
  then show "n \<le> length bs"
    by (auto simp: content_dec_def split: outcome.splits dest: parse_content_Ok_bounds)
qed

section \<open>Property\<close>

text \<open>
  The content field round trips: what \<open>TryInto\<close> writes for a content type is read back, whatever
  follows, with its own length, as that type; a BIP number with a variant of its own comes back as the
  variant.
\<close>

lemma content_field_roundtrip:
  assumes "content_try_into c = Ok b" "content_fits c"
  shows "parse_content (b @ rest) = Ok (length b, content_norm c)"
  using assms by (rule parse_content_try_into)

lemma content_field_roundtrip_witness:
  "content_try_into (Content_Proprietary [7, 8]) = Ok [2, 2, 7, 8] \<and>
   parse_content ([2, 2, 7, 8] @ [9]) = Ok (4, Content_Proprietary [7, 8]) \<and>
   content_try_into (Content_BIP 380) = Ok [1, 1, 124] \<and>
   parse_content ([1, 1, 124] @ []) = Ok (3, Content_Bip380)"
proof -
  have a: "content_try_into (Content_Proprietary [7, 8]) = Ok [2, 2, 7, 8]" by code_simp
  have b: "content_try_into (Content_BIP 380) = Ok [1, 1, 124]" by code_simp
  have n: "content_norm (Content_BIP 380) = Content_Bip380" by code_simp
  have f: "content_fits (Content_Proprietary [7, 8])" by (simp add: rust_slice_def isize_MAX_def)
  show ?thesis
    using a b n content_field_roundtrip [OF a f, of "[9]"] content_field_roundtrip [OF b, of "[]"] by simp
qed

end
