(* ===== verification/Plaintext.thy ===== *)
theory Plaintext
  imports Content_Codec Padding
begin

text \<open>
  The decrypted payload: a sequence of \<open>CONTENT LENGTH PLAINTEXT\<close> items and zero padding
  (\<open>encode_plaintext\<close>, \<open>decode_plaintext\<close> and \<open>build_v1_payload\<close> of \<open>bip138-ll/src/lib.rs\<close>).
  Shown: the decoder loop returns on every input without a panic, it accepts exactly the item
  sequences of a grammar given as an inductive predicate, and it reads back what the encoder wrote
  under every padding policy.
\<close>

section \<open>Operations\<close>

definition vec_resize :: "'a list \<Rightarrow> nat \<Rightarrow> 'a \<Rightarrow> 'a list" where
  "vec_resize xs n v = (if n \<le> length xs then take n xs else xs @ replicate (n - length xs) v)"

definition encode_plaintext :: "(bytes \<times> bytes) list \<Rightarrow> padding \<Rightarrow> bytes ll" where
  "encode_plaintext items pad =
     (if items = [] then Err E_EmptyBytes
      else
        let payload = fold (\<lambda>(content_metadata, data) payload.
              payload @ content_metadata @ varint_encode (word_of_nat (length data)) @ data) items []
        in andThen (padded_size pad (length payload)) (\<lambda>target.
           Ok (vec_resize payload target 0)))"

type_synonym item = "content \<times> bytes"

fun decode_body :: "bytes \<Rightarrow> nat \<times> item list \<Rightarrow> ((nat \<times> item list) + item list) ll" where
  "decode_body bs (offset, items) =
     (if offset < length bs then
        andThen (index_at bs offset) (\<lambda>b.
        if b = CONTENT_END then Ok (Inr items)
        else
          andThen (slice_from bs offset) (\<lambda>tail.
          andThen (parse_content tail) (\<lambda>(incr, content).
          andThen (ok_or E_OffsetOverflow (checked_add offset incr)) (\<lambda>offset.
          andThen (slice_from bs offset) (\<lambda>tail.
          andThen (ok_or E_DataLength (varint_parse tail)) (\<lambda>(raw_len, incr).
          andThen (ok_or E_OffsetOverflow (checked_add offset incr)) (\<lambda>offset.
          andThen (ok_or E_DataLength (usize_of_u64 raw_len)) (\<lambda>data_len.
          andThen (ok_or E_OffsetOverflow (checked_add offset data_len)) (\<lambda>fin.
          if fin > length bs then Err E_Corrupted
          else andThen (slice_range bs offset fin) (\<lambda>data.
            Ok (Inl (fin, items @ [(content, data)]))))))))))))
      else Ok (Inr items))"

definition decode_plaintext :: "bytes \<Rightarrow> item list ll" where
  "decode_plaintext bs =
     (if bs = [] then Err E_EmptyBytes
      else andThen (run_loop (decode_body bs) (0, [])) (\<lambda>items.
        if items = [] then Err E_EmptyBytes else Ok items))"

definition u32_MAX :: nat where
  "u32_MAX = 2 ^ 32 - 1"

fun item_metadata :: "item \<Rightarrow> (bytes \<times> bytes) ll" where
  "item_metadata (content, data) =
     (if length data > u32_MAX \<or> data = [] then Err E_DataLength
      else andThen (map_err (\<lambda>_. E_ContentMetadata) (content_try_into content)) (\<lambda>content_metadata.
        if content_metadata = [] then Err E_ContentMetadata
        else Ok (content_metadata, data)))"

definition build_v1_payload :: "item list \<Rightarrow> padding \<Rightarrow> bytes ll" where
  "build_v1_payload items pad =
     andThen (collect_results item_metadata items) (\<lambda>metadata. encode_plaintext metadata pad)"

section \<open>One item at the front of the input\<close>

text \<open>What one turn of the loop does to the bytes that are left.\<close>

definition decode_item :: "bytes \<Rightarrow> (item \<times> nat) ll" where
  "decode_item bs =
     andThen (parse_content bs) (\<lambda>(n, content).
     andThen (ok_or E_DataLength (varint_parse (drop n bs))) (\<lambda>(raw_len, k).
     if n + k + unat raw_len \<le> usize_MAX then
       if length bs < n + k + unat raw_len then Err E_Corrupted
       else Ok ((content, take (unat raw_len) (drop (n + k) bs)), n + k + unat raw_len)
     else Err E_OffsetOverflow))"

lemma decode_item_Ok_bounds: "decode_item bs = Ok (it, n) \<Longrightarrow> 1 \<le> n \<and> n \<le> length bs"
  by (auto simp: decode_item_def outcome_simps split: if_splits dest!: parse_content_Ok_bounds)

lemma decode_item_not_Panic: "rust_slice bs \<Longrightarrow> decode_item bs \<noteq> Panic"
  by (auto simp: decode_item_def outcome_simps parse_content_not_Panic split: if_splits)

lemma decode_item_not_Diverges [simp]: "decode_item bs \<noteq> Diverges"
  by (auto simp: decode_item_def outcome_simps split: if_splits)

text \<open>
  Away from the very end of the address space the loop body is \<open>decode_item\<close> on the suffix; only
  which overflow error is reported can differ, so the statement is about acceptance.
\<close>

lemma decode_body_end:
  "offset \<le> length bs \<Longrightarrow> drop offset bs = [] \<or> hd (drop offset bs) = CONTENT_END \<Longrightarrow>
   decode_body bs (offset, items) = Ok (Inr items)"
  by (auto simp: index_at_def hd_drop_conv_nth)

lemma decode_body_item:
  assumes len: "rust_slice bs" and off: "offset < length bs" and b: "bs ! offset \<noteq> CONTENT_END"
  shows "decode_body bs (offset, items) = Ok r \<longleftrightarrow>
    (\<exists>it n. decode_item (drop offset bs) = Ok (it, n) \<and> r = Inl (offset + n, items @ [it]))"
proof (cases "parse_content (drop offset bs)")
  case (Ok p)
  obtain n c where p: "parse_content (drop offset bs) = Ok (n, c)"
    using Ok by (cases p) auto
  from parse_content_Ok_bounds [OF p] off have n: "1 \<le> n" "offset + n \<le> length bs" by auto
  have small: "length bs \<le> usize_MAX" by (rule rust_slice_usize [OF len])
  show ?thesis
  proof (cases "varint_parse (drop (offset + n) bs)")
    case None
    with off b p n small show ?thesis
      by (auto simp: decode_item_def outcome_simps index_at_def slice_from_def checked_add_def add.commute)
  next
    case (Some q)
    obtain l k where q: "varint_parse (drop (offset + n) bs) = Some (l, k)"
      using Some by (cases q) auto
    from varint_parse_bounds [OF q] n have k: "offset + n + k \<le> length bs" by auto
    from off b p q n k small show ?thesis
      by (auto simp: decode_item_def outcome_simps index_at_def slice_from_def checked_add_def
          slice_range_def add.assoc [symmetric] add.commute [of _ offset])
  qed
qed (use off b in \<open>auto simp: decode_item_def outcome_simps index_at_def\<close>)

section \<open>The loop returns, without a panic\<close>

lemma decode_body_safe:
  assumes "rust_slice bs" and "offset \<le> length bs"
  shows "decode_body bs (offset, items) \<noteq> Panic \<and> decode_body bs (offset, items) \<noteq> Diverges"
  using assms rust_slice_usize [OF assms(1)]
  by (auto simp: outcome_simps parse_content_not_Panic split: if_splits
      dest: parse_content_Ok_bounds varint_parse_bounds)

lemma decode_body_progress:
  assumes "rust_slice bs" and "decode_body bs (offset, items) = Ok (Inl (offset', items'))"
  shows "offset < offset' \<and> offset' \<le> length bs"
  using assms by (auto simp: outcome_simps split: if_splits dest: parse_content_Ok_bounds)

lemma decode_loop_safe:
  assumes "rust_slice bs"
  shows "run_loop (decode_body bs) (0, []) \<noteq> Panic \<and> run_loop (decode_body bs) (0, []) \<noteq> Diverges"
proof (rule run_loop_rule [where I = "\<lambda>s. fst s \<le> length bs" and m = "\<lambda>s. length bs - fst s"])
  fix s s' :: "nat \<times> item list"
  assume "fst s \<le> length bs" and "decode_body bs s = Ok (Inl s')"
  then show "fst s' \<le> length bs \<and> length bs - fst s' < length bs - fst s"
    using decode_body_progress [OF assms, of "fst s" "snd s" "fst s'" "snd s'"] by auto
next
  fix s :: "nat \<times> item list"
  assume "fst s \<le> length bs"
  then show "decode_body bs s \<noteq> Panic \<and> decode_body bs s \<noteq> Diverges"
    using decode_body_safe [OF assms, of "fst s" "snd s"] by simp
qed simp_all

lemma decode_plaintext_safe:
  "rust_slice bs \<Longrightarrow> decode_plaintext bs \<noteq> Panic \<and> decode_plaintext bs \<noteq> Diverges"
  using decode_loop_safe by (auto simp: decode_plaintext_def outcome_simps)

section \<open>The grammar of a payload\<close>

text \<open>
  A payload is a sequence of items up to the end of the input or a zero type byte. An item is a
  content field, the minimal length of its data, and the data.
\<close>

inductive payload_items :: "bytes \<Rightarrow> item list \<Rightarrow> bool" where
  payload_end: "bs = [] \<or> hd bs = CONTENT_END \<Longrightarrow> payload_items bs []"
| payload_item:
    "bs = cm @ varint_encode l @ data @ rest \<Longrightarrow> parse_content bs = Ok (length cm, c) \<Longrightarrow>
     unat l = length data \<Longrightarrow> payload_items rest its \<Longrightarrow> payload_items bs ((c, data) # its)"

inductive_cases payload_NilE: "payload_items bs []"
inductive_cases payload_ConsE: "payload_items bs (it # its)"

lemma parse_content_hd: "parse_content bs = Ok (n, c) \<Longrightarrow> bs \<noteq> [] \<and> hd bs \<noteq> CONTENT_END"
  by (cases bs) (auto simp: parse_content_Nil parse_content_end)

lemma payload_at_end:
  assumes e: "bs = [] \<or> hd bs = CONTENT_END"
  shows "payload_items bs its \<longleftrightarrow> its = []"
proof
  assume "payload_items bs its"
  then show "its = []" using e by cases (blast dest: parse_content_hd)+
qed (simp add: payload_end [OF e])

lemma decode_item_iff:
  assumes len: "rust_slice bs"
  shows "decode_item bs = Ok ((c, data), n) \<longleftrightarrow>
    (\<exists>cm l rest. bs = cm @ varint_encode l @ data @ rest \<and> parse_content bs = Ok (length cm, c) \<and>
      unat l = length data \<and> n = length cm + length (varint_encode l) + length data)"
proof
  assume "decode_item bs = Ok ((c, data), n)"
  then obtain m l k where m: "parse_content bs = Ok (m, c)" and l: "varint_parse (drop m bs) = Some (l, k)"
    and fits: "m + k + unat l \<le> length bs" and data: "data = take (unat l) (drop (m + k) bs)"
    and n: "n = m + k + unat l"
    by (auto simp: decode_item_def outcome_simps split: if_splits)
  have "m \<le> length bs" using parse_content_Ok_bounds [OF m] by simp
  then have lm: "length (take m bs) = m" by simp
  from varint.dec_split [OF l] have v: "drop m bs = varint_encode l @ drop (m + k) bs"
    and k: "k = length (varint_encode l)" by (simp_all add: add.commute)
  have "bs = take m bs @ varint_encode l @ data @ drop n bs"
    using v data n by (metis append_take_drop_id drop_drop add.commute)
  with m fits data n k lm show "\<exists>cm l rest. bs = cm @ varint_encode l @ data @ rest \<and>
      parse_content bs = Ok (length cm, c) \<and> unat l = length data \<and>
      n = length cm + length (varint_encode l) + length data"
    by (intro exI [of _ "take m bs"] exI [of _ l] exI [of _ "drop n bs"]) simp
next
  assume "\<exists>cm l rest. bs = cm @ varint_encode l @ data @ rest \<and> parse_content bs = Ok (length cm, c) \<and>
      unat l = length data \<and> n = length cm + length (varint_encode l) + length data"
  then obtain cm l rest where bs: "bs = cm @ varint_encode l @ data @ rest"
    and p: "parse_content bs = Ok (length cm, c)" and l: "unat l = length data"
    and n: "n = length cm + length (varint_encode l) + length data" by blast
  have v: "varint_parse (drop (length cm) bs) = Some (l, length (varint_encode l))"
    using varint_parse_encode [of l "data @ rest"] by (simp add: bs)
  have "n \<le> usize_MAX" using rust_slice_usize [OF len] n bs by simp
  with p v l n show "decode_item bs = Ok ((c, data), n)"
    by (simp add: decode_item_def) (simp add: bs)
qed

lemma payload_items_step:
  assumes "rust_slice bs" and "bs \<noteq> []" and "hd bs \<noteq> CONTENT_END"
  shows "payload_items bs its \<longleftrightarrow>
    (\<exists>it n its'. decode_item bs = Ok (it, n) \<and> its = it # its' \<and> payload_items (drop n bs) its')"
proof
  assume "payload_items bs its"
  then show "\<exists>it n its'. decode_item bs = Ok (it, n) \<and> its = it # its' \<and> payload_items (drop n bs) its'"
  proof cases
    case payload_end
    with assms show ?thesis by simp
  next
    case (payload_item cm l data rest c its')
    let ?n = "length cm + length (varint_encode l) + length data"
    have "decode_item bs = Ok ((c, data), ?n)"
      using payload_item decode_item_iff [OF assms(1)] by blast
    moreover have "drop ?n bs = rest" using payload_item by simp
    ultimately show ?thesis using payload_item by blast
  qed
next
  assume "\<exists>it n its'. decode_item bs = Ok (it, n) \<and> its = it # its' \<and> payload_items (drop n bs) its'"
  then obtain c data n its' where d: "decode_item bs = Ok ((c, data), n)"
    and its: "its = (c, data) # its'" and tail: "payload_items (drop n bs) its'" by auto
  from d decode_item_iff [OF assms(1)] obtain cm l rest where
    bs: "bs = cm @ varint_encode l @ data @ rest" and p: "parse_content bs = Ok (length cm, c)"
    and l: "unat l = length data" and n: "n = length cm + length (varint_encode l) + length data" by blast
  have "drop n bs = rest" by (simp add: bs n)
  with tail show "payload_items bs its" unfolding its
    by (intro payload_item [OF bs p l]) simp
qed

lemma decode_loop_grammar:
  assumes len: "rust_slice bs"
  shows "offset \<le> length bs \<Longrightarrow>
    run_loop (decode_body bs) (offset, acc) = Ok items \<longleftrightarrow>
    (\<exists>its. payload_items (drop offset bs) its \<and> items = acc @ its)"
proof (induction "length bs - offset" arbitrary: offset acc rule: less_induct)
  case less
  show ?case
  proof (cases "drop offset bs = [] \<or> hd (drop offset bs) = CONTENT_END")
    case True
    then show ?thesis
      by (subst run_loop_unfold)
        (auto simp: decode_body_end [OF less.prems] payload_at_end [OF True] simp del: decode_body.simps)
  next
    case False
    then have off: "offset < length bs" "bs ! offset \<noteq> CONTENT_END"
      by (auto simp: hd_drop_conv_nth)
    have step: "payload_items (drop offset bs) its \<longleftrightarrow>
        (\<exists>it n its'. decode_item (drop offset bs) = Ok (it, n) \<and> its = it # its' \<and>
          payload_items (drop (offset + n) bs) its')" for its
      using payload_items_step [of "drop offset bs" its] False len by (simp add: add.commute)
    show ?thesis
    proof (cases "decode_item (drop offset bs)")
      case (Ok p)
      obtain it n where d: "decode_item (drop offset bs) = Ok (it, n)" using Ok by (cases p) auto
      then have n: "1 \<le> n" "offset + n \<le> length bs" using decode_item_Ok_bounds [OF d] off by auto
      have body: "decode_body bs (offset, acc) = Ok (Inl (offset + n, acc @ [it]))"
        using decode_body_item [OF len off] d by blast
      have "run_loop (decode_body bs) (offset + n, acc @ [it]) = Ok items \<longleftrightarrow>
          (\<exists>its. payload_items (drop (offset + n) bs) its \<and> items = (acc @ [it]) @ its)"
        by (rule less.hyps) (use n in auto)
      with body d step show ?thesis
        by (subst run_loop_unfold) (auto simp del: decode_body.simps)
    qed (use decode_body_item [OF len off] step in
        \<open>auto simp: run_loop_andThen [of _ "(offset, acc)"] andThen_eq_Ok simp del: decode_body.simps\<close>)
  qed
qed

lemma decode_plaintext_grammar:
  assumes "rust_slice bs"
  shows "decode_plaintext bs = Ok items \<longleftrightarrow> items \<noteq> [] \<and> payload_items bs items"
  using decode_loop_grammar [OF assms, of 0 "[]" items]
  by (auto simp: decode_plaintext_def outcome_simps payload_at_end split: if_splits)

section \<open>Encoding, then decoding\<close>

definition plain_item :: "bytes \<times> bytes \<Rightarrow> bytes" where
  "plain_item it = fst it @ varint_encode (word_of_nat (length (snd it))) @ snd it"

lemma encode_fold:
  "fold (\<lambda>(content_metadata, data) payload.
      payload @ content_metadata @ varint_encode (word_of_nat (length data)) @ data) items acc =
   acc @ concat (map plain_item items)"
  by (induction items arbitrary: acc) (auto simp: plain_item_def)

lemma encode_plaintext_Ok:
  assumes "encode_plaintext items pad = Ok payload"
  shows "items \<noteq> [] \<and> (\<exists>k. payload = concat (map plain_item items) @ replicate k 0)"
  using assms
  by (auto simp: encode_plaintext_def encode_fold outcome_simps vec_resize_def Let_def
      split: if_splits dest: padded_size_ge)

fun norm_item :: "item \<Rightarrow> item" where
  "norm_item (c, d) = (content_norm c, d)"

lemma content_fits_of_bytes: "content_try_into c = Ok b \<Longrightarrow> rust_slice b \<Longrightarrow> content_fits c"
  by (cases c) (auto simp: content_try_into_def content_type_byte_def content_data_bytes_def rust_slice_def)

lemma item_metadata_Ok [outcome_simps]:
  "item_metadata (c, d) = Ok m \<longleftrightarrow>
     d \<noteq> [] \<and> length d \<le> u32_MAX \<and> (\<exists>b. content_try_into c = Ok b \<and> m = (b, d))"
  by (auto simp: outcome_simps split: if_splits dest: content_try_into_not_Nil)

lemma payload_items_encoded:
  assumes "list_all2 (\<lambda>it m. item_metadata it = Ok m) items metas"
    and "rust_slice (concat (map plain_item metas) @ pad)"
    and "pad = [] \<or> hd pad = CONTENT_END"
  shows "payload_items (concat (map plain_item metas) @ pad) (map norm_item items)"
  using assms
proof (induction rule: list_all2_induct)
  case Nil
  then show ?case by (simp add: payload_end)
next
  case (Cons it items m metas)
  obtain c d where it: "it = (c, d)" by (cases it)
  with Cons.hyps obtain b where b: "content_try_into c = Ok b" and m: "m = (b, d)"
    and d: "length d \<le> u32_MAX" by (auto simp: item_metadata_Ok simp del: item_metadata.simps)
  let ?l = "word_of_nat (length d) :: u64"
  let ?rest = "concat (map plain_item metas) @ pad"
  from Cons.prems m have len: "rust_slice (b @ varint_encode ?l @ d @ ?rest)"
    by (simp add: plain_item_def [of "(b, d)"])
  then have "content_fits c" and rest: "rust_slice ?rest" and l: "rust_slice d"
    using content_fits_of_bytes [OF b] by (auto simp: rust_slice_def)
  have "payload_items (b @ varint_encode ?l @ d @ ?rest) ((content_norm c, d) # map norm_item items)"
  proof (rule payload_item [OF refl])
    show "parse_content (b @ varint_encode ?l @ d @ ?rest) = Ok (length b, content_norm c)"
      by (rule parse_content_try_into [OF b \<open>content_fits c\<close>])
    show "unat ?l = length d" by (rule unat_length_u64 [OF l])
    show "payload_items ?rest (map norm_item items)" using Cons.IH rest Cons.prems(2) by blast
  qed
  then show ?case by (simp add: it m plain_item_def [of "(b, d)"])
qed

lemma decode_build_v1_payload:
  assumes enc: "build_v1_payload items pad = Ok payload" and len: "rust_slice payload"
  shows "decode_plaintext payload = Ok (map norm_item items)"
proof -
  from enc obtain metas where metas: "list_all2 (\<lambda>it m. item_metadata it = Ok m) items metas"
    and "encode_plaintext metas pad = Ok payload"
    by (auto simp: build_v1_payload_def outcome_simps collect_results_Ok_iff)
  from encode_plaintext_Ok [OF this(2)] obtain k where "metas \<noteq> []"
    and payload: "payload = concat (map plain_item metas) @ replicate k 0" by blast
  from metas \<open>metas \<noteq> []\<close> have "items \<noteq> []" by auto
  have "payload_items payload (map norm_item items)"
    using payload_items_encoded [OF metas, of "replicate k 0"] len
    by (cases k) (simp_all add: payload CONTENT_END_def)
  with \<open>items \<noteq> []\<close> show ?thesis by (simp add: decode_plaintext_grammar [OF len])
qed

section \<open>Which payloads the encoder accepts\<close>

fun item_valid :: "item \<Rightarrow> bool" where
  "item_valid (c, d) \<longleftrightarrow> d \<noteq> [] \<and> length d \<le> u32_MAX \<and> c \<noteq> Content_None \<and> c \<noteq> Content_Unknown"

lemma item_metadata_Ok_iff: "(\<exists>m. item_metadata it = Ok m) \<longleftrightarrow> item_valid it"
  using content_try_into_Ok_iff
  by (cases it) (auto simp: item_metadata_Ok simp del: item_metadata.simps)

lemma collect_item_metadata_Ok_iff:
  "(\<exists>ms. collect_results item_metadata items = Ok ms) \<longleftrightarrow> list_all item_valid items"
proof (induction items)
  case Nil
  show ?case by simp
next
  case (Cons it items)
  with item_metadata_Ok_iff [of it] show ?case
    by (auto simp: andThen_eq_Ok simp del: item_metadata.simps)
qed

lemma item_metadata_returns [simp]:
  "item_metadata it \<noteq> Panic" "item_metadata it \<noteq> Diverges"
  by (cases it; auto simp: outcome_simps split: if_splits)+

lemma collect_item_metadata_returns [simp]:
  "collect_results item_metadata items \<noteq> Panic" "collect_results item_metadata items \<noteq> Diverges"
  by (induction items) (auto simp: outcome_simps simp del: item_metadata.simps)

lemma build_v1_payload_returns [simp]:
  "build_v1_payload items pad \<noteq> Panic" "build_v1_payload items pad \<noteq> Diverges"
  by (auto simp: build_v1_payload_def encode_plaintext_def Let_def outcome_simps split: if_splits)

lemma build_v1_payload_unpadded_iff:
  "(\<exists>p. build_v1_payload items Padding_None = Ok p) \<longleftrightarrow> items \<noteq> [] \<and> list_all item_valid items"
proof -
  have "collect_results item_metadata items = Ok [] \<longleftrightarrow> items = []"
    by (cases items) (auto simp: outcome_simps simp del: item_metadata.simps)
  moreover have "(\<exists>p. encode_plaintext ms Padding_None = Ok p) \<longleftrightarrow> ms \<noteq> []" for ms
    by (auto simp: encode_plaintext_def Let_def padded_size_def)
  ultimately show ?thesis
    using collect_item_metadata_Ok_iff [of items]
    by (fastforce simp: build_v1_payload_def outcome_simps)
qed

section \<open>Properties\<close>

text \<open>
  C7. The payload decoder, a loop over offsets with its bounds checks, accepts exactly the sequences of
  one or more items of the payload grammar, up to the end of the input or the first zero type byte,
  and returns those items in order.
\<close>

theorem payload_decoder_grammar:
  assumes "rust_slice bs"
  shows "decode_plaintext bs = Ok items \<longleftrightarrow> items \<noteq> [] \<and> payload_items bs items"
  using assms by (rule decode_plaintext_grammar)

theorem payload_decoder_grammar_witness:
  "decode_plaintext [3, 0, 2, 65, 66, 0, 0] = Ok [(Content_String, [65, 66])]"
proof -
  have c: "varint_encode 0 = [0]" "varint_encode 2 = [2]" by code_simp+
  have "parse_content (3 # [0] @ [] @ [2, 65, 66, 0, 0]) = Ok (2, Content_String)"
    using parse_content_sized [of 3 "[]" "[2, 65, 66, 0, 0]"] c(1)
    by (simp add: content_type_defs content_of_type_def rust_slice_def)
  then have "payload_items [3, 0, 2, 65, 66, 0, 0] [(Content_String, [65, 66])]"
    by (intro payload_item [where cm = "[3, 0]" and l = 2 and rest = "[0, 0]"])
      (simp_all add: c payload_end CONTENT_END_def)
  then show ?thesis
    using payload_decoder_grammar [of "[3, 0, 2, 65, 66, 0, 0]" "[(Content_String, [65, 66])]"]
    by (simp add: rust_slice_def isize_MAX_def)
qed

text \<open>
  Every payload the encoder builds, under either padding policy, decodes to its items: the same
  bytes in the same order, each content type up to the variants that stand for a BIP number.
\<close>

theorem payload_roundtrip:
  assumes "build_v1_payload items pad = Ok payload" "rust_slice payload"
  shows "decode_plaintext payload = Ok (map norm_item items)"
  using assms by (rule decode_build_v1_payload)

theorem payload_roundtrip_witness:
  "build_v1_payload [(Content_BIP 380, [65]), (Content_String, [66])] Padding_None = Ok [1, 1, 124, 1, 65, 3, 0, 1, 66] \<and>
   decode_plaintext [1, 1, 124, 1, 65, 3, 0, 1, 66] = Ok [(Content_Bip380, [65]), (Content_String, [66])]"
proof -
  have c: "varint_encode 0 = [0]" "varint_encode 1 = [1]" "u16_to_be_bytes 380 = [1, 124]" by code_simp+
  have b: "build_v1_payload [(Content_BIP 380, [65]), (Content_String, [66])] Padding_None =
      Ok [1, 1, 124, 1, 65, 3, 0, 1, 66]"
    by (simp add: build_v1_payload_def encode_plaintext_def padded_size_def vec_resize_def Let_def u32_MAX_def
        content_try_into_def content_type_byte_def content_length_bytes_def content_data_bytes_def
        content_type_defs c)
  have n: "map norm_item [(Content_BIP 380, [65]), (Content_String, [66])] =
      [(Content_Bip380, [65]), (Content_String, [66])]" by code_simp
  have "decode_plaintext [1, 1, 124, 1, 65, 3, 0, 1, 66] =
      Ok (map norm_item [(Content_BIP 380, [65]), (Content_String, [66])])"
    by (rule payload_roundtrip [OF b]) (simp add: rust_slice_def isize_MAX_def)
  with b n show ?thesis by simp
qed

end
