(* ===== verification/Scheme.thy ===== *)
theory Scheme
  imports Secrets Envelope Plaintext
begin

text \<open>
  The encryption scheme (\<open>encrypt_with_nonce\<close>, \<open>encode_v1_backup\<close>, \<open>encrypt_chacha20_poly1305_v1\<close>
  with its \<open>_items\<close> and \<open>_with_decoys\<close> variants, \<open>decrypt_chacha20_poly1305_v1\<close> of
  \<open>bip138-ll/src/lib.rs\<close>). Shown: the exact conditions under which a backup is produced and what it
  decodes to; that the order and the repetition of keys and paths do not matter; that every recipient
  reads the items back; which keys get \<open>WrongKey\<close>.
\<close>

section \<open>Operations\<close>

definition encrypt_with_nonce :: "crypto \<Rightarrow> bytes \<Rightarrow> bytes \<Rightarrow> bytes \<Rightarrow> (bytes \<times> bytes) ll" where
  "encrypt_with_nonce C secret data nonce =
     (if nonce = ZERO_NONCE then Err E_ZeroedNonce
      else if data = [] then Err E_EmptyBytes
      else ok_or E_Encrypt (map_option (Pair nonce) (aead_encrypt C secret nonce data)))"

text \<open>\<open>pad\<close> is the closure of the caller, with the state of the random source it captures.\<close>

definition encode_v1_backup ::
  "crypto \<Rightarrow> deriv_path list \<Rightarrow> bool \<Rightarrow> bytes list \<Rightarrow> bytes \<Rightarrow> bytes \<Rightarrow>
   (bytes list \<Rightarrow> (bytes list \<times> 's) ll) \<Rightarrow> (bytes \<times> 's) ll" where
  "encode_v1_backup C derivation_paths store_common_paths keys payload nonce pad =
     (let raw_keys = btree_collect (filter (\<lambda>k. k \<noteq> NUMS_XONLY) keys);
          fallback_derivation_paths = fallback_derivation_path_set;
          derivation_paths = btree_collect (filter (\<lambda>path. store_common_paths \<or>
            \<not> List.member fallback_derivation_paths path) derivation_paths) in
      if length raw_keys > u8_MAX \<or> raw_keys = [] then Err E_KeyCount
      else if length derivation_paths > u8_MAX then Err E_DerivPathCount
      else
        (let secret = decryption_secret C raw_keys in
         andThen (individual_secrets C secret raw_keys) (\<lambda>individual_secrets.
         andThen (pad individual_secrets) (\<lambda>(individual_secrets, s).
         andThen (encode_individual_secrets individual_secrets) (\<lambda>individual_secrets.
         andThen (encode_derivation_paths derivation_paths) (\<lambda>derivation_paths.
         andThen (encrypt_with_nonce C secret payload nonce) (\<lambda>(nonce, cyphertext).
         andThen (encode_encrypted_payload nonce cyphertext) (\<lambda>encrypted_payload.
         Ok (encode_v1 (u8_of_version V1) derivation_paths individual_secrets
               (u8_of_encryption ChaCha20Poly1305) encrypted_payload, s)))))))))"

definition encrypt_chacha20_poly1305_v1_items ::
  "crypto \<Rightarrow> 's rng \<Rightarrow> 's \<Rightarrow> deriv_path list \<Rightarrow> bool \<Rightarrow> item list \<Rightarrow> bytes list \<Rightarrow> padding \<Rightarrow>
   (bytes \<times> 's) ll" where
  "encrypt_chacha20_poly1305_v1_items C fill s derivation_paths store_common_paths items keys padding =
     (let (nonce, s) = draw_nonce fill s in
      andThen (build_v1_payload items padding) (\<lambda>payload.
      encode_v1_backup C derivation_paths store_common_paths keys payload nonce
        (\<lambda>secrets. pad_individual_secrets fill s secrets)))"

definition encrypt_chacha20_poly1305_v1 ::
  "crypto \<Rightarrow> 's rng \<Rightarrow> 's \<Rightarrow> deriv_path list \<Rightarrow> bool \<Rightarrow> content \<Rightarrow> bytes list \<Rightarrow> bytes \<Rightarrow> padding \<Rightarrow>
   (bytes \<times> 's) ll" where
  "encrypt_chacha20_poly1305_v1 C fill s derivation_paths store_common_paths content_metadata keys data padding =
     encrypt_chacha20_poly1305_v1_items C fill s derivation_paths store_common_paths
       [(content_metadata, data)] keys padding"

definition encrypt_chacha20_poly1305_v1_items_with_decoys ::
  "crypto \<Rightarrow> deriv_path list \<Rightarrow> bool \<Rightarrow> item list \<Rightarrow> bytes list \<Rightarrow> padding \<Rightarrow> bytes \<Rightarrow> bytes list \<Rightarrow>
   bytes ll" where
  "encrypt_chacha20_poly1305_v1_items_with_decoys C derivation_paths store_common_paths items keys padding
       nonce decoy_individual_secrets =
     andThen (build_v1_payload items padding) (\<lambda>payload.
     andThen (encode_v1_backup C derivation_paths store_common_paths keys payload nonce
       (\<lambda>secrets. andThen (pad_individual_secrets_with_decoys secrets decoy_individual_secrets) (\<lambda>ps. Ok (ps, ()))))
     (\<lambda>(backup, _). Ok backup))"

definition try_decrypt_chacha20_poly1305 :: "crypto \<Rightarrow> bytes \<Rightarrow> bytes \<Rightarrow> bytes \<Rightarrow> bytes option" where
  "try_decrypt_chacha20_poly1305 C cyphertext secret nonce = aead_decrypt C secret nonce cyphertext"

fun decrypt_loop :: "crypto \<Rightarrow> bytes \<Rightarrow> bytes list \<Rightarrow> bytes \<Rightarrow> bytes \<Rightarrow> item list ll" where
  "decrypt_loop C si [] cyphertext nonce = Err E_WrongKey"
| "decrypt_loop C si (ci # secrets) cyphertext nonce =
     (let secret = xor_bytes si ci in
      case try_decrypt_chacha20_poly1305 C cyphertext secret nonce of
        Some out \<Rightarrow> decode_plaintext out
      | None \<Rightarrow> decrypt_loop C si secrets cyphertext nonce)"

definition decrypt_chacha20_poly1305_v1 ::
  "crypto \<Rightarrow> bytes \<Rightarrow> bytes list \<Rightarrow> bytes \<Rightarrow> bytes \<Rightarrow> item list ll" where
  "decrypt_chacha20_poly1305_v1 C key secrets cyphertext nonce =
     (let si = tagged_hash C INDIVIDUAL_SECRET key in
      decrypt_loop C si secrets cyphertext nonce)"

section \<open>What a backup holds\<close>

definition recipients :: "bytes list \<Rightarrow> bytes set" where
  "recipients keys = set keys - {NUMS_XONLY}"

definition stored_paths :: "bool \<Rightarrow> deriv_path list \<Rightarrow> deriv_path set" where
  "stored_paths store ps = {p \<in> set ps. store \<or> p \<notin> set fallback_derivation_path_set}"

abbreviation backup_secret :: "crypto \<Rightarrow> bytes list \<Rightarrow> bytes" where
  "backup_secret C keys \<equiv> decryption_secret C (sorted_list_of_set (recipients keys))"

definition real_secrets :: "crypto \<Rightarrow> bytes list \<Rightarrow> bytes list" where
  "real_secrets C keys = map (\<lambda>k. xor_bytes (backup_secret C keys) (tagged_hash C INDIVIDUAL_SECRET k))
     (sorted_list_of_set (recipients keys))"

lemma finite_recipients [simp]: "finite (recipients keys)"
  by (simp add: recipients_def)

lemma finite_stored_paths [simp]: "finite (stored_paths store ps)"
  by (simp add: stored_paths_def)

lemma collect_recipients:
  "btree_collect (filter (\<lambda>k. k \<noteq> NUMS_XONLY) keys) = sorted_list_of_set (recipients keys)"
  by (simp add: btree_collect_eq recipients_def set_diff_eq)

lemma collect_stored_paths:
  "btree_collect (filter (\<lambda>path. store \<or> \<not> List.member fallback_derivation_path_set path) ps) =
   sorted_list_of_set (stored_paths store ps)"
  by (simp add: btree_collect_eq stored_paths_def conj_commute)

lemma set_real_secrets:
  "set (real_secrets C keys) =
     (\<lambda>k. xor_bytes (backup_secret C keys) (tagged_hash C INDIVIDUAL_SECRET k)) ` recipients keys"
  by (simp add: real_secrets_def)

lemma real_secrets_sized: "list_all secret_ok (real_secrets C keys)"
  by (auto simp: real_secrets_def list_all_iff secret_ok_def)

lemma length_real_secrets: "length (real_secrets C keys) = card (recipients keys)"
  by (simp add: real_secrets_def)

lemma individual_secrets_recipients:
  "individual_secrets C (backup_secret C keys) (sorted_list_of_set (recipients keys)) = Ok cs \<longleftrightarrow>
     cs = real_secrets C keys \<and> ZERO_SECRET \<notin> set cs"
  by (auto simp: individual_secrets_Ok real_secrets_def)

lemma encode_v1_backup_eq:
  "encode_v1_backup C paths store keys payload nonce pad =
     (if card (recipients keys) = 0 \<or> 255 < card (recipients keys) then Err E_KeyCount
      else if 255 < card (stored_paths store paths) then Err E_DerivPathCount
      else if ZERO_SECRET \<in> set (real_secrets C keys) then Panic
      else
        andThen (pad (real_secrets C keys)) (\<lambda>(ps, s).
        andThen (encode_individual_secrets ps) (\<lambda>sec.
        andThen (encode_derivation_paths (sorted_list_of_set (stored_paths store paths))) (\<lambda>dp.
        andThen (encrypt_with_nonce C (backup_secret C keys) payload nonce) (\<lambda>(nonce, c).
        andThen (encode_encrypted_payload nonce c) (\<lambda>ep.
        Ok (encode_v1 1 dp sec 1 ep, s)))))))"
proof -
  have "individual_secrets C (backup_secret C keys) (sorted_list_of_set (recipients keys)) =
      (if ZERO_SECRET \<in> set (real_secrets C keys) then Panic else Ok (real_secrets C keys))"
    using individual_secrets_recipients [of C keys "real_secrets C keys"]
      individual_secrets_recipients [of C keys]
      individual_secrets_not_Err [of C "backup_secret C keys" "sorted_list_of_set (recipients keys)"]
      individual_secrets_not_Diverges [of C "backup_secret C keys" "sorted_list_of_set (recipients keys)"]
    by (cases "individual_secrets C (backup_secret C keys) (sorted_list_of_set (recipients keys))") auto
  moreover have "sorted_list_of_set (recipients keys) = [] \<longleftrightarrow> card (recipients keys) = 0"
    by (simp flip: length_sorted_list_of_set)
  ultimately show ?thesis
    unfolding encode_v1_backup_def collect_recipients collect_stored_paths Let_def u8_MAX_def
    by (auto simp: not_less)
qed

text \<open>Neither the order nor the repetition of keys and paths shows in the backup.\<close>

lemma encode_v1_backup_cong:
  assumes "set keys = set keys'" "set paths = set paths'"
  shows "encode_v1_backup C paths store keys payload nonce pad =
         encode_v1_backup C paths' store keys' payload nonce pad"
  using assms by (simp add: encode_v1_backup_eq recipients_def stored_paths_def real_secrets_def)

lemma encrypt_with_nonce_Ok:
  "encrypt_with_nonce C secret data nonce = Ok (n, c) \<longleftrightarrow>
     n = nonce \<and> nonce \<noteq> ZERO_NONCE \<and> data \<noteq> [] \<and> aead_encrypt C secret nonce data = Some c"
  by (auto simp: encrypt_with_nonce_def outcome_simps)

lemma encode_v1_backup_Ok_iff:
  "encode_v1_backup C paths store keys payload nonce pad = Ok (bs, s') \<longleftrightarrow>
     (\<exists>ps sec dp c.
        1 \<le> card (recipients keys) \<and> card (recipients keys) \<le> 255 \<and> card (stored_paths store paths) \<le> 255 \<and>
        ZERO_SECRET \<notin> set (real_secrets C keys) \<and> pad (real_secrets C keys) = Ok (ps, s') \<and>
        encode_individual_secrets ps = Ok sec \<and>
        encode_derivation_paths (sorted_list_of_set (stored_paths store paths)) = Ok dp \<and>
        nonce \<noteq> ZERO_NONCE \<and> payload \<noteq> [] \<and> aead_encrypt C (backup_secret C keys) nonce payload = Some c \<and>
        c \<noteq> [] \<and> bs = encode_v1 1 dp sec 1 (payload_enc (nonce, c)))"
  by (auto simp: encode_v1_backup_eq outcome_simps encrypt_with_nonce_Ok encode_encrypted_payload_Ok
      not_less Suc_le_eq card_gt_0_iff)

section \<open>The laws of the cipher\<close>

text \<open>
  What \<open>crypto.rs\<close> documents of an implementation: decrypting what was encrypted under the same key
  and nonce gives the plaintext back, and the ciphertext is 16 bytes longer.
\<close>

definition aead_correct :: "crypto \<Rightarrow> bool" where
  "aead_correct C \<longleftrightarrow> (\<forall>k n p c. length k = 32 \<longrightarrow> length n = 12 \<longrightarrow> aead_encrypt C k n p = Some c \<longrightarrow>
     aead_decrypt C k n c = Some p \<and> length c = length p + 16)"

text \<open>
  A recipient tries every stored secret, decoys included. \<open>candidates_agree\<close>: those under which the
  ciphertext authenticates all give the same plaintext. A cipher does not promise it in general, it
  fails only on a forged tag.
\<close>

definition candidates_agree :: "crypto \<Rightarrow> bytes \<Rightarrow> bytes list \<Rightarrow> bytes \<Rightarrow> bytes \<Rightarrow> bool" where
  "candidates_agree C key ss c nonce \<longleftrightarrow>
     (\<forall>ci \<in> set ss. \<forall>cj \<in> set ss. \<forall>p q.
        aead_decrypt C (xor_bytes (tagged_hash C INDIVIDUAL_SECRET key) ci) nonce c = Some p \<longrightarrow>
        aead_decrypt C (xor_bytes (tagged_hash C INDIVIDUAL_SECRET key) cj) nonce c = Some q \<longrightarrow> p = q)"

text \<open>The same of an encoded backup.\<close>

definition backup_agrees :: "crypto \<Rightarrow> bytes \<Rightarrow> bytes \<Rightarrow> bool" where
  "backup_agrees C bs key \<longleftrightarrow>
     (\<forall>ps ss t nonce c. decode_v1 bs = Ok (ps, ss, t, nonce, c) \<longrightarrow> candidates_agree C key ss c nonce)"

section \<open>Decryption\<close>

definition opens :: "crypto \<Rightarrow> bytes \<Rightarrow> bytes list \<Rightarrow> bytes \<Rightarrow> bytes \<Rightarrow> bytes list" where
  "opens C key ss c nonce = List.map_filter
     (\<lambda>ci. aead_decrypt C (xor_bytes (tagged_hash C INDIVIDUAL_SECRET key) ci) nonce c) ss"

text \<open>Decryption is decoding the first plaintext a stored secret opens.\<close>

lemma decrypt_eq:
  "decrypt_chacha20_poly1305_v1 C key ss c nonce =
     (case opens C key ss c nonce of [] \<Rightarrow> Err E_WrongKey | p # _ \<Rightarrow> decode_plaintext p)"
proof -
  have "decrypt_loop C (tagged_hash C INDIVIDUAL_SECRET key) ss c nonce =
     (case opens C key ss c nonce of [] \<Rightarrow> Err E_WrongKey | p # _ \<Rightarrow> decode_plaintext p)"
    by (induction ss) (auto simp: opens_def map_filter_simps try_decrypt_chacha20_poly1305_def Let_def
        split: option.split)
  then show ?thesis by (simp add: decrypt_chacha20_poly1305_v1_def Let_def)
qed

lemma opens_mem:
  "p \<in> set (opens C key ss c nonce) \<longleftrightarrow>
     (\<exists>ci \<in> set ss. aead_decrypt C (xor_bytes (tagged_hash C INDIVIDUAL_SECRET key) ci) nonce c = Some p)"
  by (force simp: opens_def List.map_filter_def)

lemma candidates_agree_iff:
  "candidates_agree C key ss c nonce \<longleftrightarrow>
     (\<forall>p \<in> set (opens C key ss c nonce). \<forall>q \<in> set (opens C key ss c nonce). p = q)"
  unfolding candidates_agree_def Ball_def opens_mem by blast

lemma decrypt_safe:
  assumes "\<And>k n c p. aead_decrypt C k n c = Some p \<Longrightarrow> rust_slice p"
  shows "decrypt_chacha20_poly1305_v1 C key ss c nonce \<noteq> Panic \<and>
         decrypt_chacha20_poly1305_v1 C key ss c nonce \<noteq> Diverges"
proof (cases "opens C key ss c nonce")
  case (Cons p qs)
  then have "p \<in> set (opens C key ss c nonce)" by simp
  then have "rust_slice p" using assms by (auto simp: opens_mem)
  with Cons decode_plaintext_safe show ?thesis by (simp add: decrypt_eq)
qed (simp add: decrypt_eq)

text \<open>A key no stored secret opens the ciphertext for is told so.\<close>

lemma decrypt_no_candidate:
  assumes "\<And>ci. ci \<in> set ss \<Longrightarrow>
     aead_decrypt C (xor_bytes (tagged_hash C INDIVIDUAL_SECRET key) ci) nonce c = None"
  shows "decrypt_chacha20_poly1305_v1 C key ss c nonce = Err E_WrongKey"
proof -
  have "\<forall>p. p \<notin> set (opens C key ss c nonce)" using assms by (simp add: opens_mem)
  then show ?thesis by (cases "opens C key ss c nonce") (auto simp: decrypt_eq)
qed

lemma decrypt_candidate:
  assumes ci: "ci \<in> set ss"
    and "aead_decrypt C (xor_bytes (tagged_hash C INDIVIDUAL_SECRET key) ci) nonce c = Some p"
    and agree: "candidates_agree C key ss c nonce"
  shows "decrypt_chacha20_poly1305_v1 C key ss c nonce = decode_plaintext p"
proof -
  have p: "p \<in> set (opens C key ss c nonce)" using assms by (auto simp: opens_mem)
  then show ?thesis using agree
    by (cases "opens C key ss c nonce") (auto simp: decrypt_eq candidates_agree_iff)
qed

section \<open>Encrypting, then decrypting\<close>

lemma recipient_decrypts:
  assumes laws: "sha256_sized C" "aead_correct C"
    and key: "key \<in> recipients keys" and ss: "set (real_secrets C keys) \<subseteq> set ss"
    and c: "aead_encrypt C (backup_secret C keys) nonce payload = Some c" and nonce: "length nonce = 12"
    and agree: "candidates_agree C key ss c nonce"
  shows "decrypt_chacha20_poly1305_v1 C key ss c nonce = decode_plaintext payload"
proof -
  let ?s = "backup_secret C keys" and ?ci = "xor_bytes (backup_secret C keys) (tagged_hash C INDIVIDUAL_SECRET key)"
  have l: "length ?s = 32" by (rule length_decryption_secret [OF laws(1)])
  have "?ci \<in> set ss" using key ss by (auto simp: set_real_secrets)
  moreover have "xor_bytes (tagged_hash C INDIVIDUAL_SECRET key) ?ci = ?s" by (rule xor_bytes_cancel [OF l])
  then have "aead_decrypt C (xor_bytes (tagged_hash C INDIVIDUAL_SECRET key) ?ci) nonce c = Some payload"
    using laws(2) c l nonce unfolding aead_correct_def by metis
  ultimately show ?thesis using agree by (rule decrypt_candidate)
qed

text \<open>
  The interface of the padding closures: on a valid parameter (a source of randomness that fills the
  buffer, decoys of 32 bytes) the set keeps the real secrets, gets only good decoys, and has the size
  of the bucket.
\<close>

locale secret_padding =
  fixes valid :: "'p \<Rightarrow> bool" and pad :: "'p \<Rightarrow> bytes list \<Rightarrow> (bytes list \<times> 's) ll"
  assumes pad_sized: "valid p \<Longrightarrow> pad p ss = Ok (ps, s) \<Longrightarrow> list_all secret_ok ss \<Longrightarrow> list_all secret_ok ps"
    and pad_keeps: "pad p ss = Ok (ps, s) \<Longrightarrow> padded_with ss ps \<and> doubling_bucket (length ss) = Ok (length ps)"
begin

text \<open>What a produced backup decodes to, whatever bytes follow it.\<close>

lemma decode_backup:
  assumes v: "valid p" and enc: "encode_v1_backup C paths store keys payload nonce (pad p) = Ok (bs, s')"
    and nonce: "length nonce = 12" and len: "rust_slice (bs @ rest)"
  obtains ps c where "pad p (real_secrets C keys) = Ok (ps, s')"
    "aead_encrypt C (backup_secret C keys) nonce payload = Some c"
    "decode_v1 (bs @ rest) =
       Ok (sorted_list_of_set (stored_paths store paths), sort_dedup ps, 1, nonce, c)"
    "length c \<le> length bs"
proof -
  from enc obtain ps sec dp c where p: "pad p (real_secrets C keys) = Ok (ps, s')"
    and s: "encode_individual_secrets ps = Ok sec"
    and d: "encode_derivation_paths (sorted_list_of_set (stored_paths store paths)) = Ok dp"
    and n: "nonce \<noteq> ZERO_NONCE" and c: "aead_encrypt C (backup_secret C keys) nonce payload = Some c" "c \<noteq> []"
    and bs: "bs = encode_v1 1 dp sec 1 (payload_enc (nonce, c))"
    by (auto simp: encode_v1_backup_Ok_iff)
  have "encode_encrypted_payload nonce c = Ok (payload_enc (nonce, c))"
    using c by (simp add: encode_encrypted_payload_Ok)
  from decode_encode_v1 [OF d s pad_sized [OF v p real_secrets_sized] _ this nonce n, of 1 rest] len
  have "decode_v1 (bs @ rest) =
      Ok (sorted_list_of_set (stored_paths store paths), sort_dedup ps, 1, nonce, c)"
    by (simp add: bs sort_dedup_idem)
  moreover have "length c \<le> length bs" by (simp add: bs encode_v1_def payload_enc_def)
  ultimately show ?thesis using p c that by blast
qed

text \<open>A produced backup decodes to fields with which every recipient reads the items back.\<close>

lemma roundtrip:
  assumes laws: "sha256_sized C" "aead_correct C" and v: "valid p"
    and payload: "build_v1_payload items padding = Ok payload"
    and enc: "encode_v1_backup C paths store keys payload nonce (pad p) = Ok (bs, s')"
    and nonce: "length nonce = 12" and len: "rust_slice bs"
  shows "\<exists>ss c. decode_v1 bs = Ok (sorted_list_of_set (stored_paths store paths), ss, 1, nonce, c) \<and>
    set (real_secrets C keys) \<subseteq> set ss \<and>
    (\<forall>key \<in> recipients keys. candidates_agree C key ss c nonce \<longrightarrow>
       decrypt_chacha20_poly1305_v1 C key ss c nonce = Ok (map norm_item items))"
proof -
  have len0: "rust_slice (bs @ [])" using len by simp
  from decode_backup [OF v enc nonce len0] obtain ps c where
    p: "pad p (real_secrets C keys) = Ok (ps, s')"
    and c: "aead_encrypt C (backup_secret C keys) nonce payload = Some c"
    and d: "decode_v1 (bs @ []) = Ok (sorted_list_of_set (stored_paths store paths), sort_dedup ps, 1, nonce, c)"
    and lc: "length c \<le> length bs" .
  have sub: "set (real_secrets C keys) \<subseteq> set (sort_dedup ps)"
    using pad_keeps [OF p] padded_with_set by auto
  have "length c = length payload + 16"
    using laws(2) c nonce length_decryption_secret [OF laws(1)] unfolding aead_correct_def by metis
  then have "rust_slice payload" using lc len by (simp add: rust_slice_def)
  from decode_build_v1_payload [OF payload this] have "decode_plaintext payload = Ok (map norm_item items)" .
  with recipient_decrypts [OF laws _ sub c nonce] d sub show ?thesis by auto
qed

text \<open>The number of stored secrets tells the bucket of the recipient count, no more.\<close>

lemma stored_count:
  assumes v: "valid p" and enc: "encode_v1_backup C paths store keys payload nonce (pad p) = Ok (bs, s')"
    and nonce: "length nonce = 12" and len: "rust_slice bs" and inj: "distinct (real_secrets C keys)"
  shows "\<exists>ps ss c. decode_v1 bs = Ok (ps, ss, 1, nonce, c) \<and>
    doubling_bucket (card (recipients keys)) = Ok (length ss)"
proof -
  have len0: "rust_slice (bs @ [])" using len by simp
  from decode_backup [OF v enc nonce len0] obtain ps c where
    p: "pad p (real_secrets C keys) = Ok (ps, s')"
    and d: "decode_v1 (bs @ []) = Ok (sorted_list_of_set (stored_paths store paths), sort_dedup ps, 1, nonce, c)" .
  from pad_keeps [OF p] have b: "doubling_bucket (length (real_secrets C keys)) = Ok (length ps)"
    and w: "padded_with (real_secrets C keys) ps" by auto
  from w inj have "distinct ps" by (rule padded_with_distinct)
  then have "length (sort_dedup ps) = length ps" by (simp add: sort_dedup_eq distinct_card)
  with b d show ?thesis by (auto simp: length_real_secrets)
qed

end

interpretation random_pad: secret_padding
  "\<lambda>(fill, s). rng_sized fill" "\<lambda>(fill, s). pad_individual_secrets fill s"
proof (unfold_locales, goal_cases)
  case (1 p ss ps s)
  then show ?case by (cases p) (auto intro: pad_individual_secrets_sized)
next
  case (2 p ss ps s)
  then show ?case by (cases p) (auto dest: pad_individual_secrets_Ok)
qed

abbreviation pad_with_decoys :: "bytes list \<Rightarrow> bytes list \<Rightarrow> (bytes list \<times> unit) ll" where
  "pad_with_decoys decoys secrets \<equiv>
     andThen (pad_individual_secrets_with_decoys secrets decoys) (\<lambda>ps. Ok (ps, ()))"

interpretation decoy_pad: secret_padding "list_all secret_ok" pad_with_decoys
  by unfold_locales (auto simp: outcome_simps pad_individual_secrets_with_decoys_eq padded_with_def
      split: if_splits)

section \<open>The entry points\<close>

lemma encrypt_items_Ok:
  "encrypt_chacha20_poly1305_v1_items C fill s paths store items keys padding = Ok (bs, s') \<longleftrightarrow>
     (\<exists>payload. build_v1_payload items padding = Ok payload \<and>
        encode_v1_backup C paths store keys payload (fst (draw_nonce fill s))
          (pad_individual_secrets fill (snd (draw_nonce fill s))) = Ok (bs, s'))"
  by (simp add: encrypt_chacha20_poly1305_v1_items_def outcome_simps split: prod.split)

lemma encrypt_items_with_decoys_Ok:
  "encrypt_chacha20_poly1305_v1_items_with_decoys C paths store items keys padding nonce decoys = Ok bs \<longleftrightarrow>
     (\<exists>payload. build_v1_payload items padding = Ok payload \<and>
        encode_v1_backup C paths store keys payload nonce (pad_with_decoys decoys) = Ok (bs, ()))"
  by (auto simp: encrypt_chacha20_poly1305_v1_items_with_decoys_def outcome_simps)

lemma encrypt_items_roundtrip:
  assumes "sha256_sized C" "aead_correct C" "rng_sized fill"
    and "encrypt_chacha20_poly1305_v1_items C fill s paths store items keys padding = Ok (bs, s')"
    and "rust_slice bs"
  shows "\<exists>ss nonce c. decode_v1 bs = Ok (sorted_list_of_set (stored_paths store paths), ss, 1, nonce, c) \<and>
    set (real_secrets C keys) \<subseteq> set ss \<and>
    (\<forall>key \<in> recipients keys. candidates_agree C key ss c nonce \<longrightarrow>
       decrypt_chacha20_poly1305_v1 C key ss c nonce = Ok (map norm_item items))"
proof -
  from assms(4) obtain payload where "build_v1_payload items padding = Ok payload"
    and "encode_v1_backup C paths store keys payload (fst (draw_nonce fill s))
          (pad_individual_secrets fill (snd (draw_nonce fill s))) = Ok (bs, s')"
    by (auto simp: encrypt_items_Ok)
  from random_pad.roundtrip [of C "(fill, snd (draw_nonce fill s))", OF assms(1,2) _ this(1)] this(2)
    length_draw_nonce [OF assms(3)] assms(3,5) show ?thesis by fastforce
qed

section \<open>When a backup is produced\<close>

text \<open>The requests the encoder accepts, for a cipher that never fails and secrets that do not collapse.\<close>

definition request_ok :: "crypto \<Rightarrow> deriv_path list \<Rightarrow> bool \<Rightarrow> bytes list \<Rightarrow> bool" where
  "request_ok C paths store keys \<longleftrightarrow>
     1 \<le> card (recipients keys) \<and> card (recipients keys) \<le> 255 \<and>
     card (stored_paths store paths) \<le> 255 \<and> (\<forall>p \<in> stored_paths store paths. path_ok p) \<and>
     ZERO_SECRET \<notin> set (real_secrets C keys)"

definition aead_total :: "crypto \<Rightarrow> bool" where
  "aead_total C \<longleftrightarrow> (\<forall>k n p. \<exists>c. aead_encrypt C k n p = Some c \<and> c \<noteq> [])"

lemma length_sort_dedup_le: "length (sort_dedup xs) \<le> length xs"
  by (simp add: sort_dedup_eq card_length)

lemma encode_v1_backup_returns:
  assumes req: "request_ok C paths store keys" and cipher: "aead_total C"
    and "payload \<noteq> []" "nonce \<noteq> ZERO_NONCE"
    and pad: "pad (real_secrets C keys) = Ok (ps, s')" "padded_with (real_secrets C keys) ps"
      "doubling_bucket (length (real_secrets C keys)) = Ok (length ps)"
  shows "\<exists>bs. encode_v1_backup C paths store keys payload nonce pad = Ok (bs, s')"
proof -
  have "length ps \<le> 255" "ps \<noteq> []" using doubling_bucket_Ok [OF pad(3)] by auto
  then have "\<exists>sec. encode_individual_secrets ps = Ok sec"
    using length_sort_dedup_le [of ps] by (simp add: encode_individual_secrets_Ok)
  moreover have "\<exists>dp. encode_derivation_paths (sorted_list_of_set (stored_paths store paths)) = Ok dp"
    using req by (simp add: encode_derivation_paths_Ok sort_dedup_idem request_ok_def list_all_iff)
  moreover from cipher obtain c where "aead_encrypt C (backup_secret C keys) nonce payload = Some c" "c \<noteq> []"
    unfolding aead_total_def by blast
  ultimately show ?thesis using assms by (fastforce simp: encode_v1_backup_Ok_iff request_ok_def)
qed

lemma encrypt_items_returns:
  assumes req: "request_ok C paths store keys" and cipher: "aead_total C" and fair: "rng_fair fill"
    and nonce: "fst (draw_nonce fill s) \<noteq> ZERO_NONCE"
    and payload: "build_v1_payload items padding = Ok payload" "payload \<noteq> []"
  shows "\<exists>bs s'. encrypt_chacha20_poly1305_v1_items C fill s paths store items keys padding = Ok (bs, s')"
proof -
  have "length (real_secrets C keys) \<le> 255" using req by (simp add: request_ok_def length_real_secrets)
  then obtain ps s' where p: "pad_individual_secrets fill (snd (draw_nonce fill s)) (real_secrets C keys) = Ok (ps, s')"
    using pad_individual_secrets_returns [OF fair] by (metis surj_pair)
  have "\<exists>bs. encode_v1_backup C paths store keys payload (fst (draw_nonce fill s))
      (pad_individual_secrets fill (snd (draw_nonce fill s))) = Ok (bs, s')"
    by (rule encode_v1_backup_returns [where ps = ps])
      (use req cipher payload(2) nonce p pad_individual_secrets_Ok [OF p] in auto)
  with payload(1) show ?thesis by (auto simp: encrypt_items_Ok)
qed

text \<open>The checks before any secret is derived, in their order.\<close>

lemma encode_v1_backup_KeyCount:
  "card (recipients keys) = 0 \<or> 255 < card (recipients keys) \<Longrightarrow>
   encode_v1_backup C paths store keys payload nonce pad = Err E_KeyCount"
  by (auto simp: encode_v1_backup_eq)

lemma encode_v1_backup_DerivPathCount:
  "1 \<le> card (recipients keys) \<Longrightarrow> card (recipients keys) \<le> 255 \<Longrightarrow> 255 < card (stored_paths store paths) \<Longrightarrow>
   encode_v1_backup C paths store keys payload nonce pad = Err E_DerivPathCount"
  by (auto simp: encode_v1_backup_eq)

text \<open>No backup is addressed to the NUMS point, which has no known private key.\<close>

lemma NUMS_no_recipient: "NUMS_XONLY \<notin> recipients keys"
  by (simp add: recipients_def)

lemma build_v1_payload_not_Nil:
  assumes "build_v1_payload items padding = Ok payload" shows "payload \<noteq> []"
proof
  assume "payload = []"
  then have "decode_plaintext payload = Ok (map norm_item items)"
    using decode_build_v1_payload [OF assms] by (simp add: rust_slice_def)
  with \<open>payload = []\<close> show False
    using decode_plaintext_grammar [of payload "map norm_item items"] payload_at_end [of payload]
    by (simp add: rust_slice_def)
qed

section \<open>The size of a backup\<close>

text \<open>
  With distinct real secrets the size depends on the stored paths, the bucket of the number of
  recipients and the size of the padded payload, on nothing else.
\<close>

definition backup_size :: "deriv_path set \<Rightarrow> nat \<Rightarrow> nat \<Rightarrow> nat" where
  "backup_size paths bucket payload_len =
     22 + (\<Sum>p \<in> paths. 1 + 4 * path_len p) + 32 * bucket
     + length (varint_encode (word_of_nat (payload_len + 16))) + (payload_len + 16)"

lemma length_path_enc: "length (path_enc p) = 1 + 4 * path_len p"
proof -
  have "length (concat (map u32_to_be_bytes cs)) = 4 * length cs" for cs
    by (induction cs) (simp_all add: u32_to_be_bytes_def)
  then show ?thesis by (simp add: path_enc_def path_len_def)
qed

lemma length_concat_paths:
  "finite S \<Longrightarrow> length (concat (map path_enc (sorted_list_of_set S))) = (\<Sum>p \<in> S. 1 + 4 * path_len p)"
proof -
  assume "finite S"
  then have "(\<Sum>p \<in> S. 1 + 4 * path_len p) = sum_list (map (\<lambda>p. 1 + 4 * path_len p) (sorted_list_of_set S))"
    by (simp add: sum_list_distinct_conv_sum_set)
  then show ?thesis by (simp add: length_concat length_path_enc comp_def)
qed

lemma length_concat_secrets: "list_all secret_ok ss \<Longrightarrow> length (concat ss) = 32 * length ss"
  by (induction ss) (auto simp: secret_ok_def)

context secret_padding
begin

lemma backup_length:
  assumes v: "valid p" and cipher: "aead_correct C" "sha256_sized C" and nonce: "length nonce = 12"
    and enc: "encode_v1_backup C paths store keys payload nonce (pad p) = Ok (bs, s')"
  shows "\<exists>bucket. doubling_bucket (card (recipients keys)) = Ok bucket \<and>
    length bs \<le> backup_size (stored_paths store paths) bucket (length payload) \<and>
    (distinct (real_secrets C keys) \<longrightarrow>
       length bs = backup_size (stored_paths store paths) bucket (length payload))"
proof -
  from enc obtain ps sec dp c where pd: "pad p (real_secrets C keys) = Ok (ps, s')"
    and s: "encode_individual_secrets ps = Ok sec"
    and d: "encode_derivation_paths (sorted_list_of_set (stored_paths store paths)) = Ok dp"
    and c: "aead_encrypt C (backup_secret C keys) nonce payload = Some c"
    and bs: "bs = encode_v1 1 dp sec 1 (payload_enc (nonce, c))"
    by (auto simp: encode_v1_backup_Ok_iff)
  have lc: "length c = length payload + 16"
    using cipher c nonce length_decryption_secret [OF cipher(2)] unfolding aead_correct_def by metis
  have "length dp = 1 + (\<Sum>p \<in> stored_paths store paths. 1 + 4 * path_len p)"
    using d by (simp add: encode_derivation_paths_Ok sort_dedup_idem length_concat_paths)
  moreover have "list_all secret_ok (sort_dedup ps)"
    using pad_sized [OF v pd real_secrets_sized] by (simp add: list_all_iff)
  then have ls: "length sec = 1 + 32 * length (sort_dedup ps)"
    using s by (simp add: encode_individual_secrets_Ok length_concat_secrets)
  moreover have "distinct (real_secrets C keys) \<longrightarrow> length (sort_dedup ps) = length ps"
    using pad_keeps [OF pd] padded_with_distinct by (auto simp: sort_dedup_eq distinct_card)
  ultimately show ?thesis
    using lc nonce length_sort_dedup_le [of ps] pad_keeps [OF pd]
    by (auto simp: bs encode_v1_def payload_enc_def backup_size_def length_real_secrets MAGIC_def ascii_def)
qed

end

end
