(* ===== verification/Ffi.thy ===== *)
theory Ffi
  imports Scheme
begin

text \<open>
  The C binding (\<open>bip138-ll/src/ffi.rs\<close>): discriminants, error codes, the crypto provider over the
  vtable of callbacks, \<open>bip138_encrypt\<close>, \<open>bip138_decrypt\<close>, \<open>bip138_decrypt_len\<close>,
  \<open>bip138_decrypt_item\<close>. A pointer is \<open>None\<close> when null and otherwise the memory it points at, which the
  \<open>Safety\<close> sections require to be at least as long as stated; the release functions only give memory
  back and are left out. Shown: error codes identify the error and are never the success code, the
  discriminants round trip, decryption never panics whatever the callbacks do, what one entry point
  encrypts the other decrypts, and that encryption does panic on a constant hash callback.
\<close>

section \<open>Discriminants\<close>

definition BIP138_OK :: int where "BIP138_OK = 0"

definition BIP138_CONTENT_NONE :: u32 where "BIP138_CONTENT_NONE = 0"
definition BIP138_CONTENT_BIP138 :: u32 where "BIP138_CONTENT_BIP138 = 1"
definition BIP138_CONTENT_BIP139 :: u32 where "BIP138_CONTENT_BIP139 = 2"
definition BIP138_CONTENT_BIP380 :: u32 where "BIP138_CONTENT_BIP380 = 3"
definition BIP138_CONTENT_BIP388 :: u32 where "BIP138_CONTENT_BIP388 = 4"
definition BIP138_CONTENT_BIP329 :: u32 where "BIP138_CONTENT_BIP329 = 5"
definition BIP138_CONTENT_BIP :: u32 where "BIP138_CONTENT_BIP = 6"
definition BIP138_CONTENT_PROPRIETARY :: u32 where "BIP138_CONTENT_PROPRIETARY = 7"
definition BIP138_CONTENT_STRING :: u32 where "BIP138_CONTENT_STRING = 8"
definition BIP138_CONTENT_UNKNOWN :: u32 where "BIP138_CONTENT_UNKNOWN = 9"

definition BIP138_PADDING_NONE :: u32 where "BIP138_PADDING_NONE = 0"
definition BIP138_PADDING_GEOMETRIC :: u32 where "BIP138_PADDING_GEOMETRIC = 1"

lemmas ffi_content_defs =
  BIP138_CONTENT_NONE_def BIP138_CONTENT_BIP138_def BIP138_CONTENT_BIP139_def
  BIP138_CONTENT_BIP380_def BIP138_CONTENT_BIP388_def BIP138_CONTENT_BIP329_def
  BIP138_CONTENT_BIP_def BIP138_CONTENT_PROPRIETARY_def BIP138_CONTENT_STRING_def
  BIP138_CONTENT_UNKNOWN_def

section \<open>Errors\<close>

datatype ffi_error = NullPointer | BadVtable | BadContentType | BadPadding | IndexOutOfBounds | Ll ll_error

definition c_str :: "string \<Rightarrow> string" where
  "c_str s = s @ [CHR 0x00]"

fun ll_error_info :: "ll_error \<Rightarrow> int \<times> string" where
  "ll_error_info E_KeyCount = (100, c_str ''key count out of range'')"
| "ll_error_info E_DerivPathCount = (101, c_str ''too many derivation paths'')"
| "ll_error_info E_DerivPathLength = (102, c_str ''derivation path too long'')"
| "ll_error_info E_DerivPathEmpty = (103, c_str ''empty derivation path'')"
| "ll_error_info E_DataLength = (104, c_str ''data length out of range'')"
| "ll_error_info E_Encrypt = (105, c_str ''encryption failed'')"
| "ll_error_info E_Decrypt = (106, c_str ''decryption failed'')"
| "ll_error_info E_Corrupted = (107, c_str ''corrupted payload'')"
| "ll_error_info E_Version = (108, c_str ''invalid version'')"
| "ll_error_info E_Magic = (109, c_str ''bad magic'')"
| "ll_error_info E_VarInt = (110, c_str ''invalid varint'')"
| "ll_error_info E_WrongKey = (111, c_str ''no supplied key decrypts this backup'')"
| "ll_error_info E_IndividualSecretsEmpty = (112, c_str ''individual secrets empty'')"
| "ll_error_info E_IndividualSecretsLength = (113, c_str ''individual secrets length out of range'')"
| "ll_error_info E_CypherTextEmpty = (114, c_str ''ciphertext empty'')"
| "ll_error_info E_CypherTextLength = (115, c_str ''ciphertext length out of range'')"
| "ll_error_info E_ContentMetadata = (116, c_str ''invalid content metadata'')"
| "ll_error_info E_Encryption = (117, c_str ''invalid encryption field'')"
| "ll_error_info E_OffsetOverflow = (118, c_str ''offset overflow'')"
| "ll_error_info E_EmptyBytes = (119, c_str ''empty input'')"
| "ll_error_info E_Increment = (120, c_str ''offset increment overflow'')"
| "ll_error_info E_ContentMetadataEmpty = (121, c_str ''content metadata empty'')"
| "ll_error_info E_ContentEnd = (122, c_str ''unexpected end of content'')"
| "ll_error_info E_EncryptionReserved = (123, c_str ''reserved encryption value'')"
| "ll_error_info E_ZeroedNonce = (124, c_str ''zeroed nonce'')"
| "ll_error_info E_Padding = (125, c_str ''padding overflow'')"

fun info :: "ffi_error \<Rightarrow> int \<times> string" where
  "info NullPointer = (500, c_str ''null pointer'')"
| "info BadVtable = (501, c_str ''crypto vtable has a null callback'')"
| "info BadContentType = (502, c_str ''unknown content type discriminant'')"
| "info BadPadding = (503, c_str ''unknown padding discriminant'')"
| "info IndexOutOfBounds = (504, c_str ''item index out of bounds'')"
| "info (Ll error) = ll_error_info error"

section \<open>The vtable\<close>

text \<open>
  A callback is what it writes: \<open>sha256\<close> the 32 bytes of \<open>out\<close>; the ciphers a return code, the bytes of
  \<open>out\<close> (as many as \<open>out_cap\<close>) and \<open>out_len\<close>; \<open>fill_random\<close> the buffer and the new state behind \<open>ctx\<close>.
\<close>

record 's vtable =
  vt_sha256 :: "(bytes \<Rightarrow> bytes) option"
  vt_aead_encrypt :: "(bytes \<Rightarrow> bytes \<Rightarrow> bytes \<Rightarrow> nat \<Rightarrow> int \<times> bytes \<times> nat) option"
  vt_aead_decrypt :: "(bytes \<Rightarrow> bytes \<Rightarrow> bytes \<Rightarrow> nat \<Rightarrow> int \<times> bytes \<times> nat) option"
  vt_fill_random :: "('s \<Rightarrow> nat \<Rightarrow> bytes \<times> 's) option"

text \<open>\<open>out\<close> is a buffer of \<open>cap\<close> zeroed bytes of which the callback overwrites a prefix.\<close>

definition out_buffer :: "nat \<Rightarrow> bytes \<Rightarrow> bytes" where
  "out_buffer cap written = take cap (written @ replicate (cap - length written) 0)"

definition provider_sha256 :: "'s vtable \<Rightarrow> bytes \<Rightarrow> bytes" where
  "provider_sha256 vt data =
     (case vt_sha256 vt of None \<Rightarrow> replicate 32 0 | Some callback \<Rightarrow> out_buffer 32 (callback data))"

definition provider_aead_encrypt :: "'s vtable \<Rightarrow> bytes \<Rightarrow> bytes \<Rightarrow> bytes \<Rightarrow> bytes option" where
  "provider_aead_encrypt vt key nonce plaintext =
     (case vt_aead_encrypt vt of None \<Rightarrow> None
      | Some encrypt \<Rightarrow>
         (let cap = length plaintext + 16;
              (rc, written, out_len) = encrypt key nonce plaintext cap in
          if rc \<noteq> 0 \<or> out_len > cap then None else Some (take out_len (out_buffer cap written))))"

definition provider_aead_decrypt :: "'s vtable \<Rightarrow> bytes \<Rightarrow> bytes \<Rightarrow> bytes \<Rightarrow> bytes option" where
  "provider_aead_decrypt vt key nonce ciphertext =
     (case vt_aead_decrypt vt of None \<Rightarrow> None
      | Some decrypt \<Rightarrow>
         (let cap = length ciphertext;
              (rc, written, out_len) = decrypt key nonce ciphertext cap in
          if rc \<noteq> 0 \<or> out_len > cap then None else Some (take out_len (out_buffer cap written))))"

definition provider :: "'s vtable \<Rightarrow> crypto" where
  "provider vt = \<lparr>sha256 = provider_sha256 vt, aead_encrypt = provider_aead_encrypt vt,
     aead_decrypt = provider_aead_decrypt vt\<rparr>"

text \<open>Every buffer the code fills is zeroed before, so a missing callback leaves zeros.\<close>

definition provider_fill_bytes :: "'s vtable \<Rightarrow> 's rng" where
  "provider_fill_bytes vt s n =
     (case vt_fill_random vt of None \<Rightarrow> (replicate n 0, s)
      | Some fill_random \<Rightarrow> (let (buf, s) = fill_random s n in (out_buffer n buf, s)))"

section \<open>Conversions\<close>

definition content_from_ffi :: "u32 \<Rightarrow> u16 \<Rightarrow> bytes \<Rightarrow> (ffi_error, content) outcome" where
  "content_from_ffi content_type bip tag =
     (if content_type = BIP138_CONTENT_NONE then Ok Content_None
      else if content_type = BIP138_CONTENT_BIP138 then Ok Content_Bip138
      else if content_type = BIP138_CONTENT_BIP139 then Ok Content_Bip139
      else if content_type = BIP138_CONTENT_BIP380 then Ok Content_Bip380
      else if content_type = BIP138_CONTENT_BIP388 then Ok Content_Bip388
      else if content_type = BIP138_CONTENT_BIP329 then Ok Content_Bip329
      else if content_type = BIP138_CONTENT_BIP then Ok (Content_BIP bip)
      else if content_type = BIP138_CONTENT_PROPRIETARY then Ok (Content_Proprietary tag)
      else if content_type = BIP138_CONTENT_STRING then Ok Content_String
      else if content_type = BIP138_CONTENT_UNKNOWN then Ok Content_Unknown
      else Err BadContentType)"

text \<open>The tag is a borrowed run of bytes; an empty one has a null pointer or no length.\<close>

fun content_to_ffi :: "content \<Rightarrow> u32 \<times> u16 \<times> bytes" where
  "content_to_ffi Content_None = (BIP138_CONTENT_NONE, 0, [])"
| "content_to_ffi Content_Bip138 = (BIP138_CONTENT_BIP138, 0, [])"
| "content_to_ffi Content_Bip139 = (BIP138_CONTENT_BIP139, 0, [])"
| "content_to_ffi Content_Bip380 = (BIP138_CONTENT_BIP380, 0, [])"
| "content_to_ffi Content_Bip388 = (BIP138_CONTENT_BIP388, 0, [])"
| "content_to_ffi Content_Bip329 = (BIP138_CONTENT_BIP329, 0, [])"
| "content_to_ffi (Content_BIP bip) = (BIP138_CONTENT_BIP, bip, [])"
| "content_to_ffi (Content_Proprietary tag) = (BIP138_CONTENT_PROPRIETARY, 0, tag)"
| "content_to_ffi Content_String = (BIP138_CONTENT_STRING, 0, [])"
| "content_to_ffi Content_Unknown = (BIP138_CONTENT_UNKNOWN, 0, [])"

definition padding_from_ffi :: "u32 \<Rightarrow> (ffi_error, padding) outcome" where
  "padding_from_ffi padding =
     (if padding = BIP138_PADDING_NONE then Ok Padding_None
      else if padding = BIP138_PADDING_GEOMETRIC then Ok Padding_Geometric
      else Err BadPadding)"

text \<open>\<open>chunks_exact\<close>: full chunks only.\<close>

function chunks_exact :: "nat \<Rightarrow> 'a list \<Rightarrow> 'a list list" where
  "chunks_exact n xs =
     (if n = 0 \<or> length xs < n then [] else take n xs # chunks_exact n (drop n xs))"
  by auto
termination by (relation "measure (\<lambda>(n, xs). length xs)") auto

declare chunks_exact.simps [simp del]

type_synonym u32_list = "u32 list option \<times> nat"

fun read_path_lists :: "u32_list list \<Rightarrow> deriv_path list \<Rightarrow> (ffi_error, deriv_path list) outcome" where
  "read_path_lists [] out = Ok out"
| "read_path_lists ((p, len) # rest) out =
     (if len = 0 then read_path_lists rest (out @ [DerivationPath []])
      else case p of None \<Rightarrow> Err NullPointer
        | Some mem \<Rightarrow> read_path_lists rest (out @ [DerivationPath (take len mem)]))"

definition read_paths :: "u32_list list option \<Rightarrow> nat \<Rightarrow> (ffi_error, deriv_path list) outcome" where
  "read_paths paths n_paths =
     (if n_paths = 0 then Ok []
      else case paths of None \<Rightarrow> Err NullPointer | Some mem \<Rightarrow> read_path_lists (take n_paths mem) [])"

section \<open>Entry points\<close>

text \<open>
  An entry point returns a code, what it wrote to \<open>*out\<close>, and what it wrote to \<open>*err\<close>. \<open>err_null\<close> says
  whether \<open>err\<close> is null. Only a panic or a loop of the core does not return.
\<close>

type_synonym 'a ffi_ret = "(unit, int \<times> 'a option \<times> string option) outcome"

definition fail :: "ffi_error \<Rightarrow> bool \<Rightarrow> 'a ffi_ret" where
  "fail error err_null =
     (let (code, message) = info error in Ok (code, None, if err_null then None else Some message))"

fun finish :: "bool \<Rightarrow> (ffi_error, 'a) outcome \<Rightarrow> 'a ffi_ret" where
  "finish err_null (Ok x) = Ok (BIP138_OK, Some x, None)"
| "finish err_null (Err e) = fail e err_null"
| "finish err_null Panic = Panic"
| "finish err_null Diverges = Diverges"

definition encrypt_request ::
  "'s vtable option \<Rightarrow> 's \<Rightarrow> bytes option \<Rightarrow> nat \<Rightarrow> u32_list list option \<Rightarrow> nat \<Rightarrow> u32 \<Rightarrow> u16 \<Rightarrow>
   bytes option \<Rightarrow> nat \<Rightarrow> bytes option \<Rightarrow> nat \<Rightarrow> u32 \<Rightarrow> bool \<Rightarrow> (ffi_error, bytes) outcome" where
  "encrypt_request vtable s keys n_keys paths n_paths content_type bip tag tag_len payload payload_len
       padding out_null =
     (if vtable = None \<or> out_null \<or> keys = None \<or> payload = None then Err NullPointer
      else
        (let vt = the vtable in
         if vt_sha256 vt = None \<or> vt_aead_encrypt vt = None \<or> vt_fill_random vt = None then Err BadVtable
         else
           andThen (plain_mul n_keys XONLY_KEY_SIZE) (\<lambda>n.
           let key_list = chunks_exact XONLY_KEY_SIZE (take n (the keys)) in
           andThen (read_paths paths n_paths) (\<lambda>derivation_paths.
           let tag = (case tag of None \<Rightarrow> [] | Some mem \<Rightarrow> take tag_len mem) in
           andThen (content_from_ffi content_type bip tag) (\<lambda>content.
           andThen (padding_from_ffi padding) (\<lambda>padding.
           let data = take payload_len (the payload) in
           andThen (map_err Ll (encrypt_chacha20_poly1305_v1 (provider vt) (provider_fill_bytes vt) s
               derivation_paths False content key_list data padding)) (\<lambda>(backup, _). Ok backup)))))))"

definition bip138_encrypt ::
  "'s vtable option \<Rightarrow> 's \<Rightarrow> bytes option \<Rightarrow> nat \<Rightarrow> u32_list list option \<Rightarrow> nat \<Rightarrow> u32 \<Rightarrow> u16 \<Rightarrow>
   bytes option \<Rightarrow> nat \<Rightarrow> bytes option \<Rightarrow> nat \<Rightarrow> u32 \<Rightarrow> bool \<Rightarrow> bool \<Rightarrow> bytes ffi_ret" where
  "bip138_encrypt vtable s keys n_keys paths n_paths content_type bip tag tag_len payload payload_len
       padding out_null err_null =
     finish err_null (encrypt_request vtable s keys n_keys paths n_paths content_type bip tag tag_len
       payload payload_len padding out_null)"

definition decrypt_request ::
  "'s vtable option \<Rightarrow> bytes option \<Rightarrow> bytes option \<Rightarrow> nat \<Rightarrow> bool \<Rightarrow> (ffi_error, item list) outcome" where
  "decrypt_request vtable key encrypted encrypted_len out_null =
     (if vtable = None \<or> out_null \<or> key = None \<or> encrypted = None then Err NullPointer
      else
        (let vt = the vtable in
         if vt_sha256 vt = None \<or> vt_aead_decrypt vt = None then Err BadVtable
         else
           andThen (map_err Ll (decode_v1 (take encrypted_len (the encrypted))))
             (\<lambda>(derivation_paths, individual_secrets, encryption, nonce, cyphertext).
           map_err Ll (decrypt_chacha20_poly1305_v1 (provider vt) (take XONLY_KEY_SIZE (the key))
             individual_secrets cyphertext nonce))))"

definition bip138_decrypt ::
  "'s vtable option \<Rightarrow> bytes option \<Rightarrow> bytes option \<Rightarrow> nat \<Rightarrow> bool \<Rightarrow> bool \<Rightarrow> item list ffi_ret" where
  "bip138_decrypt vtable key encrypted encrypted_len out_null err_null =
     finish err_null (decrypt_request vtable key encrypted encrypted_len out_null)"

definition bip138_decrypt_len :: "item list option \<Rightarrow> nat" where
  "bip138_decrypt_len result = (case result of None \<Rightarrow> 0 | Some items \<Rightarrow> length items)"

text \<open>An item as C sees it: content type, BIP number, tag, plaintext.\<close>

type_synonym ffi_item = "u32 \<times> u16 \<times> bytes \<times> bytes"

definition bip138_decrypt_item :: "item list option \<Rightarrow> nat \<Rightarrow> bool \<Rightarrow> bool \<Rightarrow> ffi_item ffi_ret" where
  "bip138_decrypt_item result i out_null err_null =
     (if result = None \<or> out_null then fail NullPointer err_null
      else
        (let items = the result in
         if i < length items
         then (let (content, plaintext) = items ! i; (content_type, bip, tag) = content_to_ffi content in
               Ok (BIP138_OK, Some (content_type, bip, tag, plaintext), None))
         else fail IndexOutOfBounds err_null))"

section \<open>Codes and discriminants\<close>

lemma ll_error_info_range: "100 \<le> fst (ll_error_info e) \<and> fst (ll_error_info e) \<le> 125"
  by (cases e) simp_all

lemma ll_error_info_inject: "fst (ll_error_info e) = fst (ll_error_info e') \<Longrightarrow> e = e'"
  by (cases e; cases e'; simp)

lemma info_range:
  "fst (info e) \<in> {100..125} \<union> {500..504}"
  using ll_error_info_range by (cases e) auto

text \<open>A code names one error, and none is the success code.\<close>

lemma ll_info_neq [simp]:
  "500 \<le> n \<Longrightarrow> fst (ll_error_info e) \<noteq> n" "500 \<le> n \<Longrightarrow> n \<noteq> fst (ll_error_info e)"
  using ll_error_info_range [of e] by auto

lemma info_inject: "fst (info e) = fst (info e') \<Longrightarrow> e = e'"
  by (cases e; cases e') (simp_all add: ll_error_info_inject)

lemma content_from_to_ffi:
  "content_to_ffi c = (t, bip, tag) \<Longrightarrow> content_from_ffi t bip tag = Ok c"
  by (cases c) (auto simp: content_from_ffi_def ffi_content_defs)

lemma content_from_ffi_Ok_iff: "(\<exists>c. content_from_ffi t bip tag = Ok c) \<longleftrightarrow> t \<le> 9"
proof -
  have "t \<le> 9 \<longleftrightarrow> unat t \<le> 9" by (simp add: word_le_nat_alt)
  also have "\<dots> \<longleftrightarrow> unat t \<in> {0, 1, 2, 3, 4, 5, 6, 7, 8, 9}" by auto
  also have "\<dots> \<longleftrightarrow> t \<in> {0, 1, 2, 3, 4, 5, 6, 7, 8, 9}" by (auto simp: word_unat_eq_iff)
  finally show ?thesis by (auto simp: content_from_ffi_def ffi_content_defs)
qed

lemma content_from_ffi_returns [simp]:
  "content_from_ffi t bip tag \<noteq> Panic" "content_from_ffi t bip tag \<noteq> Diverges"
  by (simp_all add: content_from_ffi_def)

section \<open>The provider\<close>

lemma length_out_buffer [simp]: "length (out_buffer cap w) = cap"
  by (simp add: out_buffer_def)

lemma out_buffer_exact: "length w = cap \<Longrightarrow> out_buffer cap w = w"
  by (simp add: out_buffer_def)

lemma provider_sha256_sized: "sha256_sized (provider vt)"
  by (simp add: sha256_sized_def provider_def provider_sha256_def split: option.split)

lemma provider_rng_sized: "rng_sized (provider_fill_bytes vt)"
  by (simp add: rng_sized_def provider_fill_bytes_def Let_def split: option.split prod.split)

lemma provider_decrypt_bound:
  "aead_decrypt (provider vt) k n c = Some p \<Longrightarrow> length p \<le> length c"
  by (auto simp: provider_def provider_aead_decrypt_def Let_def split: option.splits prod.splits if_splits)

section \<open>Entry points\<close>

lemma finish_cases:
  "finish err_null m = Ok (code, out, msg) \<longleftrightarrow>
     (\<exists>x. m = Ok x \<and> code = 0 \<and> out = Some x \<and> msg = None) \<or>
     (\<exists>e. m = Err e \<and> code = fst (info e) \<and> out = None \<and> msg = (if err_null then None else Some (snd (info e))))"
  by (cases m) (auto simp: fail_def BIP138_OK_def Let_def split: prod.split)

lemma finish_not_Err: "finish err_null m \<noteq> Err u"
  by (cases m) (auto simp: fail_def split: prod.split)

lemma finish_Panic_iff: "finish err_null m = Panic \<longleftrightarrow> m = Panic"
  by (cases m) (auto simp: fail_def split: prod.split)

lemma finish_Diverges_iff: "finish err_null m = Diverges \<longleftrightarrow> m = Diverges"
  by (cases m) (auto simp: fail_def split: prod.split)

text \<open>Success, and only success, writes the output.\<close>

lemma finish_code:
  assumes "finish err_null m = Ok (code, out, msg)"
  shows "(code = BIP138_OK \<longleftrightarrow> out \<noteq> None) \<and> (msg \<noteq> None \<longleftrightarrow> code \<noteq> BIP138_OK \<and> \<not> err_null)"
proof -
  have "fst (info e) \<noteq> 0" for e using info_range [of e] by auto
  with assms show ?thesis by (auto simp: finish_cases BIP138_OK_def)
qed

text \<open>Whatever the callbacks do, decryption returns a code.\<close>

lemma decrypt_request_returns:
  assumes "\<And>mem. encrypted = Some mem \<Longrightarrow> rust_slice (take n mem)"
  shows "decrypt_request vtable key encrypted n out_null \<noteq> Panic \<and>
         decrypt_request vtable key encrypted n out_null \<noteq> Diverges"
proof (cases "vtable = None \<or> out_null \<or> key = None \<or> encrypted = None")
  case False
  then obtain vt k mem where v: "vtable = Some vt" "key = Some k" "encrypted = Some mem" by auto
  have len: "rust_slice (take n mem)" using assms v by simp
  have dec: "decrypt_chacha20_poly1305_v1 (provider vt) k' ss c nonce \<noteq> Panic \<and>
      decrypt_chacha20_poly1305_v1 (provider vt) k' ss c nonce \<noteq> Diverges"
    if "decode_v1 (take n mem) = Ok (ps, ss, e, nonce, c)" for k' ps ss e nonce c
  proof -
    have c: "length c \<le> length (take n mem)" using decode_v1_cipher_bound [OF len that] .
    show ?thesis
    proof (cases "opens (provider vt) k' ss c nonce")
      case (Cons p qs)
      then have "p \<in> set (opens (provider vt) k' ss c nonce)" by simp
      then have "length p \<le> length c" using provider_decrypt_bound by (auto simp: opens_mem)
      with c len have "rust_slice p" unfolding rust_slice_def by linarith
      with Cons decode_plaintext_safe show ?thesis by (simp add: decrypt_eq)
    qed (simp add: decrypt_eq)
  qed
  show ?thesis using decode_v1_safe [OF len] dec
    by (auto simp: decrypt_request_def v outcome_simps)
qed (auto simp: decrypt_request_def)

lemma encrypt_request_Ok:
  "encrypt_request vtable s keys n_keys paths n_paths t bip tag tag_len payload payload_len pad out_null = Ok bs \<longleftrightarrow>
   (\<exists>vt ks data ps c p s'.
      vtable = Some vt \<and> keys = Some ks \<and> payload = Some data \<and> \<not> out_null \<and>
      vt_sha256 vt \<noteq> None \<and> vt_aead_encrypt vt \<noteq> None \<and> vt_fill_random vt \<noteq> None \<and>
      n_keys * XONLY_KEY_SIZE \<le> usize_MAX \<and> read_paths paths n_paths = Ok ps \<and>
      content_from_ffi t bip (case tag of None \<Rightarrow> [] | Some mem \<Rightarrow> take tag_len mem) = Ok c \<and>
      padding_from_ffi pad = Ok p \<and>
      encrypt_chacha20_poly1305_v1 (provider vt) (provider_fill_bytes vt) s ps False c
        (chunks_exact XONLY_KEY_SIZE (take (n_keys * XONLY_KEY_SIZE) ks)) (take payload_len data) p = Ok (bs, s'))"
  unfolding encrypt_request_def by (auto simp: outcome_simps Let_def)

text \<open>What one entry point encrypts the other decrypts.\<close>

lemma ffi_roundtrip:
  assumes enc: "bip138_encrypt (Some vt) s (Some ks) n_keys paths n_paths t bip tag tag_len (Some data) payload_len
      pad False err_null = Ok (BIP138_OK, Some bs, None)"
    and cipher: "aead_correct (provider vt)" and dec: "vt_aead_decrypt vt \<noteq> None" and len: "rust_slice bs"
    and key: "take XONLY_KEY_SIZE k \<in> recipients (chunks_exact XONLY_KEY_SIZE (take (n_keys * XONLY_KEY_SIZE) ks))"
    and agree: "backup_agrees (provider vt) bs (take XONLY_KEY_SIZE k)"
  shows "\<exists>c. content_from_ffi t bip (case tag of None \<Rightarrow> [] | Some mem \<Rightarrow> take tag_len mem) = Ok c \<and>
    bip138_decrypt (Some vt) (Some k) (Some bs) (length bs) False err_null' =
      Ok (BIP138_OK, Some [(content_norm c, take payload_len data)], None)"
proof -
  have "encrypt_request (Some vt) s (Some ks) n_keys paths n_paths t bip tag tag_len (Some data) payload_len
      pad False = Ok bs"
    using enc by (auto simp: bip138_encrypt_def finish_cases)
  then obtain ps c p s' where sha: "vt_sha256 vt \<noteq> None"
    and c: "content_from_ffi t bip (case tag of None \<Rightarrow> [] | Some mem \<Rightarrow> take tag_len mem) = Ok c"
    and e: "encrypt_chacha20_poly1305_v1_items (provider vt) (provider_fill_bytes vt) s ps False
        [(c, take payload_len data)] (chunks_exact XONLY_KEY_SIZE (take (n_keys * XONLY_KEY_SIZE) ks)) p = Ok (bs, s')"
    by (auto simp: encrypt_request_Ok encrypt_chacha20_poly1305_v1_def)
  from encrypt_items_roundtrip [OF provider_sha256_sized cipher provider_rng_sized e len] obtain ss nonce y where
    d: "decode_v1 bs = Ok (sorted_list_of_set (stored_paths False ps), ss, 1, nonce, y)"
    and r: "\<And>key. key \<in> recipients (chunks_exact XONLY_KEY_SIZE (take (n_keys * XONLY_KEY_SIZE) ks)) \<Longrightarrow>
        candidates_agree (provider vt) key ss y nonce \<Longrightarrow>
        decrypt_chacha20_poly1305_v1 (provider vt) key ss y nonce = Ok [(content_norm c, take payload_len data)]"
    by auto
  have "decrypt_request (Some vt) (Some k) (Some bs) (length bs) False = Ok [(content_norm c, take payload_len data)]"
    using sha dec d r [OF key] agree by (simp add: decrypt_request_def backup_agrees_def)
  with c show ?thesis by (simp add: bip138_decrypt_def)
qed

text \<open>
  A hash callback that always writes the same bytes: the decryption secret and the hash of the key are
  equal, the individual secret collapses, and the assertion of \<open>individual_secret\<close> panics.
\<close>

lemma constant_hash_collapses:
  assumes "sha256_sized C" "\<And>x. sha256 C x = h" "recipients keys \<noteq> {}"
  shows "ZERO_SECRET \<in> set (real_secrets C keys)"
proof -
  have "length h = 32" using assms(1,2) unfolding sha256_sized_def by metis
  then have "xor_bytes h h = ZERO_SECRET" by (simp add: xor_bytes_zero_iff)
  with assms(2,3) show ?thesis
    by (auto simp: set_real_secrets tagged_hash_def decryption_secret_eq image_iff)
qed

lemma encrypt_request_panics:
  assumes vt: "vt_sha256 vt = Some (\<lambda>_. h)" "vt_aead_encrypt vt \<noteq> None" "vt_fill_random vt \<noteq> None"
    and args: "n_keys * XONLY_KEY_SIZE \<le> usize_MAX" "read_paths paths n_paths = Ok ps"
      "content_from_ffi t bip (case tag of None \<Rightarrow> [] | Some mem \<Rightarrow> take tag_len mem) = Ok c"
      "padding_from_ffi pad = Ok p" "build_v1_payload [(c, take payload_len data)] p = Ok payload"
    and keys: "keys = chunks_exact XONLY_KEY_SIZE (take (n_keys * XONLY_KEY_SIZE) ks)"
      "recipients keys \<noteq> {}" "card (recipients keys) \<le> 255" "card (stored_paths False ps) \<le> 255"
  shows "bip138_encrypt (Some vt) s (Some ks) n_keys paths n_paths t bip tag tag_len (Some data) payload_len
      pad False err_null = Panic"
proof -
  have "sha256 (provider vt) x = out_buffer 32 h" for x
    by (simp add: provider_def provider_sha256_def vt)
  then have "ZERO_SECRET \<in> set (real_secrets (provider vt) keys)"
    using constant_hash_collapses [OF provider_sha256_sized _ keys(2)] by blast
  then have "encode_v1_backup (provider vt) ps False keys payload n pd = Panic" for n and pd :: "bytes list \<Rightarrow> (bytes list \<times> 'a) ll"
    using keys by (auto simp: encode_v1_backup_eq)
  then have "encrypt_chacha20_poly1305_v1 (provider vt) (provider_fill_bytes vt) s ps False c keys (take payload_len data) p = Panic"
    using args by (simp add: encrypt_chacha20_poly1305_v1_def encrypt_chacha20_poly1305_v1_items_def split: prod.split)
  then show ?thesis using vt args keys(1)
    by (auto simp: bip138_encrypt_def encrypt_request_def plain_mul_def)
qed

lemma bip138_decrypt_item_in_bounds:
  "i < length items \<Longrightarrow> items ! i = (c, d) \<Longrightarrow>
   bip138_decrypt_item (Some items) i False err_null =
     Ok (BIP138_OK, Some (fst (content_to_ffi c), fst (snd (content_to_ffi c)), snd (snd (content_to_ffi c)), d), None)"
  by (simp add: bip138_decrypt_item_def split: prod.split)

end
