(* ===== verification/Sample.thy ===== *)
theory Sample
  imports Ffi
begin

text \<open>
  One concrete instance of the parameters (hash, cipher, random source), with which the properties are
  applied to concrete inputs. The hash folds its input into 32 bytes, the cipher appends half the key
  as its tag, the random source counts. Only the laws asked of the parameters matter.
\<close>

definition sample_hash :: "bytes \<Rightarrow> bytes" where
  "sample_hash d =
     (if length d \<le> 32 then take 32 (d @ replicate 32 0)
      else xor_bytes (take 32 d) (drop (length d - 32) d))"

definition sample_encrypt :: "bytes \<Rightarrow> bytes \<Rightarrow> bytes \<Rightarrow> bytes option" where
  "sample_encrypt k n p = Some (p @ take 16 (k @ replicate 16 0))"

definition sample_decrypt :: "bytes \<Rightarrow> bytes \<Rightarrow> bytes \<Rightarrow> bytes option" where
  "sample_decrypt k n c =
     (if 16 \<le> length c \<and> drop (length c - 16) c = take 16 (k @ replicate 16 0)
      then Some (take (length c - 16) c) else None)"

definition sample_crypto :: crypto where
  "sample_crypto = \<lparr>sha256 = sample_hash, aead_encrypt = sample_encrypt, aead_decrypt = sample_decrypt\<rparr>"

definition sample_fill :: "nat rng" where
  "sample_fill s n = (take n (word_of_nat s # word_of_nat (s div 256) # replicate n 7), Suc s)"

definition sample_vtable :: "nat vtable" where
  "sample_vtable = \<lparr>
     vt_sha256 = Some sample_hash,
     vt_aead_encrypt = Some (\<lambda>k n p cap. (0, p @ take 16 (k @ replicate 16 0), length p + 16)),
     vt_aead_decrypt = Some (\<lambda>k n c cap.
       case sample_decrypt k n c of None \<Rightarrow> (1, [], 0) | Some p \<Rightarrow> (0, p, length p)),
     vt_fill_random = Some sample_fill\<rparr>"

definition sample_key :: "u8 \<Rightarrow> bytes" where
  "sample_key b = replicate 32 b"

section \<open>The laws\<close>

lemma sample_sized: "sha256_sized sample_crypto"
  by (simp add: sha256_sized_def sample_crypto_def sample_hash_def)

lemma sample_correct: "aead_correct sample_crypto"
  by (auto simp: aead_correct_def sample_crypto_def sample_encrypt_def sample_decrypt_def)

lemma sample_total: "aead_total sample_crypto"
  by (simp add: aead_total_def sample_crypto_def sample_encrypt_def)

lemma sample_agree: "candidates_agree sample_crypto key ss c nonce"
  by (auto simp: candidates_agree_def sample_crypto_def sample_decrypt_def split: if_splits)

lemma sample_fill_sized: "rng_sized sample_fill"
  by (simp add: rng_sized_def sample_fill_def)

lemma sample_fill_steps: "((\<lambda>s. snd (sample_fill s 32)) ^^ n) s = s + n"
  by (induction n arbitrary: s) (simp_all add: sample_fill_def)

lemma mod_window: "i \<le> j \<Longrightarrow> j < m \<Longrightarrow> (s + i) mod m = (s + j) mod m \<Longrightarrow> i = (j :: nat)"
  using mod_eq_dvd_iff_nat [of "s + i" "s + j" m] nat_dvd_not_less [of "j - i" m] by fastforce

lemma u8_of_nat_eq_iff: "(word_of_nat a :: u8) = word_of_nat b \<longleftrightarrow> a mod 256 = b mod 256"
  by (simp add: word_of_nat_eq_iff take_bit_eq_mod)

lemma sample_draw_inj:
  assumes "i < 65536" "j < 65536" "fst (sample_fill (s + i) 32) = fst (sample_fill (s + j) 32)"
  shows "i = j"
proof -
  have "(word_of_nat (s + i) :: u8) = word_of_nat (s + j) \<and>
      (word_of_nat ((s + i) div 256) :: u8) = word_of_nat ((s + j) div 256)"
    using assms(3) by (simp add: sample_fill_def take_Cons' del: of_nat_add)
  then have "(s + i) mod 256 = (s + j) mod 256 \<and> (s + i) div 256 mod 256 = (s + j) div 256 mod 256"
    by (simp only: u8_of_nat_eq_iff)
  then have "(s + i) mod 65536 = (s + j) mod 65536"
    using mod_mult2_eq [of "s + i" 256 256] mod_mult2_eq [of "s + j" 256 256]
    by (simp only: mult.commute [of 256] flip: numeral_mult) simp
  with assms(1,2) mod_window [of i j 65536 s] mod_window [of j i 65536 s] show ?thesis by fastforce
qed

lemma sample_fair: "rng_fair sample_fill"
  unfolding rng_fair_def sample_fill_steps
proof (intro allI impI, elim conjE)
  fix s and X :: "bytes set"
  assume X: "finite X" "card X \<le> 256"
  let ?f = "\<lambda>n. fst (sample_fill (s + n) 32)"
  have "inj_on ?f {0..<257}" by (rule inj_onI, rule sample_draw_inj [of _ _ s]) auto
  then have "card (?f ` {0..<257}) = card {0..<257::nat}" by (rule card_image)
  with X(2) have "card X < card (?f ` {0..<257})" by (simp only: card_atLeastLessThan)
  then have "\<not> ?f ` {0..<257} \<subseteq> X" using card_mono [OF X(1)] leD by blast
  then show "\<exists>n. ?f n \<notin> X" by blast
qed

section \<open>A request\<close>

lemma sample_recipients: "recipients [sample_key 3, sample_key 2] = {sample_key 2, sample_key 3}"
  by code_simp

lemma sample_request: "request_ok sample_crypto [] False [sample_key 3, sample_key 2]"
proof -
  have "card (recipients [sample_key 3, sample_key 2]) = 2" by code_simp
  moreover have "ZERO_SECRET \<notin> set (real_secrets sample_crypto [sample_key 3, sample_key 2])" by code_simp
  ultimately show ?thesis by (simp add: request_ok_def stored_paths_def)
qed

section \<open>A backup\<close>

lemma sample_nonce: "fst (draw_nonce sample_fill s) \<noteq> ZERO_NONCE"
proof -
  have "fst (sample_fill s 12) ! 2 = 7" "ZERO_NONCE ! 2 = 0"
    by (simp_all add: sample_fill_def ZERO_NONCE_def)
  then have "fst (sample_fill s 12) \<noteq> ZERO_NONCE" by auto
  then show ?thesis by (simp only: draw_nonce_zero_iff) simp
qed

lemma stored_paths_size:
  assumes "request_ok C paths store keys"
  shows "(\<Sum>p \<in> stored_paths store paths. 1 + 4 * path_len p) \<le> 255 * 1021"
proof -
  have "(\<Sum>p \<in> stored_paths store paths. 1 + 4 * path_len p) \<le> of_nat (card (stored_paths store paths)) * 1021"
    by (rule sum_bounded_above) (use assms in \<open>auto simp: request_ok_def path_ok_def\<close>)
  also have "\<dots> \<le> 255 * 1021" using assms by (simp add: request_ok_def)
  finally show ?thesis .
qed

lemma sample_backup_size:
  assumes "encrypt_chacha20_poly1305_v1_items sample_crypto sample_fill s paths False items keys pad = Ok (bs, s')"
    and "build_v1_payload items pad = Ok payload" "length payload < 2 ^ 40"
    and req: "request_ok sample_crypto paths False keys"
  shows "length bs < length payload + 1000000"
proof -
  let ?p = "(sample_fill, snd (draw_nonce sample_fill s))"
  from assms(1,2) have e: "encode_v1_backup sample_crypto paths False keys payload (fst (draw_nonce sample_fill s))
      (case ?p of (fill, s) \<Rightarrow> pad_individual_secrets fill s) = Ok (bs, s')"
    by (auto simp: encrypt_items_Ok)
  have "case ?p of (fill, s) \<Rightarrow> rng_sized fill" by (simp add: sample_fill_sized)
  from random_pad.backup_length [OF this sample_correct sample_sized length_draw_nonce [OF sample_fill_sized] e]
  obtain bucket where bucket: "doubling_bucket (card (recipients keys)) = Ok bucket"
    and "length bs \<le> backup_size (stored_paths False paths) bucket (length payload)" by blast
  moreover have "bucket \<le> 255" using doubling_bucket_Ok [OF bucket] by simp
  ultimately show ?thesis
    using stored_paths_size [OF req] length_varint_encode_bounds [of "word_of_nat (length payload + 16)"] assms(3)
    by (simp add: backup_size_def)
qed

lemma sample_backup:
  assumes req: "request_ok sample_crypto paths False keys"
    and "build_v1_payload items pad = Ok payload" "length payload < 2 ^ 40"
  shows "\<exists>bs s'. encrypt_chacha20_poly1305_v1_items sample_crypto sample_fill s paths False items keys pad = Ok (bs, s') \<and>
    length bs < length payload + 1000000 \<and> rust_slice (bs @ [10])"
proof -
  from encrypt_items_returns [OF req sample_total sample_fair sample_nonce assms(2) build_v1_payload_not_Nil [OF assms(2)]]
  obtain bs s' where e: "encrypt_chacha20_poly1305_v1_items sample_crypto sample_fill s paths False items keys pad = Ok (bs, s')"
    by blast
  from sample_backup_size [OF this assms(2,3) req] assms(3) have "length bs < length payload + 1000000"
    "rust_slice (bs @ [10])" by (simp_all add: rust_slice_def isize_MAX_def)
  with e show ?thesis by blast
qed

text \<open>A note of one byte, and the payload it makes.\<close>

definition sample_items :: "item list" where
  "sample_items = [(Content_String, [65])]"

lemma sample_payload: "build_v1_payload sample_items Padding_None = Ok [3, 0, 1, 65]"
proof -
  have c: "varint_encode 0 = [0]" "varint_encode 1 = [1]" by code_simp+
  show ?thesis
    by (simp add: sample_items_def build_v1_payload_def encode_plaintext_def padded_size_def vec_resize_def Let_def
        u32_MAX_def content_try_into_def content_type_byte_def content_length_bytes_def content_data_bytes_def
        content_type_defs c)
qed

lemma sample_items_norm: "map norm_item sample_items = sample_items"
  by (simp add: sample_items_def)

section \<open>Through the C binding\<close>

lemma length_sample_hash: "length (sample_hash d) = 32"
  by (simp add: sample_hash_def)

lemma take_out_buffer: "length w \<le> cap \<Longrightarrow> take (length w) (out_buffer cap w) = w"
  by (simp add: out_buffer_def)

lemma sample_provider: "provider sample_vtable = sample_crypto"
proof -
  have "provider_sha256 sample_vtable = sample_hash"
    by (rule ext) (simp add: provider_sha256_def sample_vtable_def out_buffer_exact length_sample_hash)
  moreover have "provider_aead_encrypt sample_vtable k n p = sample_encrypt k n p" for k n p
    by (simp add: provider_aead_encrypt_def sample_vtable_def sample_encrypt_def out_buffer_def)
  moreover have "provider_aead_decrypt sample_vtable k n c = sample_decrypt k n c" for k n c
  proof (cases "sample_decrypt k n c")
    case (Some p)
    then have "length p \<le> length c" by (auto simp: sample_decrypt_def split: if_splits)
    with Some show ?thesis
      by (simp add: provider_aead_decrypt_def sample_vtable_def take_out_buffer)
  qed (simp add: provider_aead_decrypt_def sample_vtable_def)
  ultimately show ?thesis by (simp add: provider_def sample_crypto_def fun_eq_iff)
qed

lemma sample_provider_fill: "provider_fill_bytes sample_vtable = sample_fill"
  by (intro ext) (simp add: provider_fill_bytes_def sample_vtable_def sample_fill_def out_buffer_def Let_def)

lemma sample_vtable_some:
  "\<exists>y. vt_sha256 sample_vtable = Some y" "\<exists>y. vt_aead_encrypt sample_vtable = Some y"
  "\<exists>y. vt_aead_decrypt sample_vtable = Some y" "\<exists>y. vt_fill_random sample_vtable = Some y"
  by (simp_all add: sample_vtable_def)

definition sample_keys :: bytes where
  "sample_keys = sample_key 3 @ sample_key 2"

lemma sample_chunks: "chunks_exact XONLY_KEY_SIZE (take (2 * XONLY_KEY_SIZE) sample_keys) = [sample_key 3, sample_key 2]"
  by (simp add: sample_keys_def sample_key_def XONLY_KEY_SIZE_def chunks_exact.simps)

lemma sample_bip138_encrypt:
  "\<exists>bs. bip138_encrypt (Some sample_vtable) 1 (Some sample_keys) 2 None 0 8 0 None 0 (Some [65]) 1 0 False False =
     Ok (BIP138_OK, Some bs, None) \<and> rust_slice bs"
proof -
  from sample_backup [OF sample_request sample_payload, of 1] obtain bs s' where
    e: "encrypt_chacha20_poly1305_v1_items sample_crypto sample_fill 1 [] False sample_items
      [sample_key 3, sample_key 2] Padding_None = Ok (bs, s')" and l: "rust_slice (bs @ [10])" by auto
  have "encrypt_request (Some sample_vtable) 1 (Some sample_keys) 2 None 0 8 0 None 0 (Some [65]) 1 0 False = Ok bs"
    unfolding encrypt_request_Ok
    using e
    by (rule_tac exI [of _ sample_vtable], rule_tac exI [of _ sample_keys], rule_tac exI [of _ "[65]"],
        rule_tac exI [of _ "[]"], rule_tac exI [of _ Content_String], rule_tac exI [of _ Padding_None],
        rule_tac exI [of _ s'], unfold sample_chunks sample_provider sample_provider_fill)
      (simp add: sample_vtable_some XONLY_KEY_SIZE_def usize_MAX_def read_paths_def content_from_ffi_def
        ffi_content_defs padding_from_ffi_def BIP138_PADDING_NONE_def encrypt_chacha20_poly1305_v1_def sample_items_def)
  with l show ?thesis by (auto simp: bip138_encrypt_def rust_slice_def)
qed

end
