(* ===== verification/Text.thy ===== *)
theory Text
  imports Prelude
begin

text \<open>
  What the code uses of \<open>str\<close>: \<open>from_utf8\<close>, \<open>trim\<close>, \<open>lines\<close>, \<open>split_once\<close>, \<open>split\<close> and
  \<open>split_whitespace\<close>, on the UTF-8 bytes of a string. Whitespace is the Unicode property, as byte
  sequences. Shown: what trimming and splitting keep.
\<close>

section \<open>UTF-8\<close>

text \<open>\<open>core::str::from_utf8\<close>: the well-formed byte sequences of the Unicode standard.\<close>

definition utf8_tail :: "u8 \<Rightarrow> bool" where
  "utf8_tail b \<longleftrightarrow> 0x80 \<le> b \<and> b \<le> 0xBF"

fun utf8_valid :: "bytes \<Rightarrow> bool" where
  "utf8_valid [] = True"
| "utf8_valid (a # rest) =
     (if a \<le> 0x7F then utf8_valid rest
      else case rest of [] \<Rightarrow> False
      | b # rest2 \<Rightarrow>
          if 0xC2 \<le> a \<and> a \<le> 0xDF then utf8_tail b \<and> utf8_valid rest2
          else case rest2 of [] \<Rightarrow> False
          | c # rest3 \<Rightarrow>
              if a = 0xE0 then 0xA0 \<le> b \<and> b \<le> 0xBF \<and> utf8_tail c \<and> utf8_valid rest3
              else if a = 0xED then 0x80 \<le> b \<and> b \<le> 0x9F \<and> utf8_tail c \<and> utf8_valid rest3
              else if 0xE1 \<le> a \<and> a \<le> 0xEF then utf8_tail b \<and> utf8_tail c \<and> utf8_valid rest3
              else case rest3 of [] \<Rightarrow> False
              | d # rest4 \<Rightarrow>
                  if a = 0xF0 then 0x90 \<le> b \<and> b \<le> 0xBF \<and> utf8_tail c \<and> utf8_tail d \<and> utf8_valid rest4
                  else if 0xF1 \<le> a \<and> a \<le> 0xF3 then utf8_tail b \<and> utf8_tail c \<and> utf8_tail d \<and> utf8_valid rest4
                  else if a = 0xF4 then 0x80 \<le> b \<and> b \<le> 0x8F \<and> utf8_tail c \<and> utf8_tail d \<and> utf8_valid rest4
                  else False)"

lemma utf8_ascii: "list_all (\<lambda>b. b \<le> 0x7F) bs \<Longrightarrow> utf8_valid bs"
  by (induction bs) auto

section \<open>Trimming\<close>

text \<open>The UTF-8 forms of the characters with the property \<open>White_Space\<close>.\<close>

definition whitespace_seqs :: "bytes list" where
  "whitespace_seqs =
     map (\<lambda>b. [b]) [0x09, 0x0A, 0x0B, 0x0C, 0x0D, 0x20]
     @ [[0xC2, 0x85], [0xC2, 0xA0], [0xE1, 0x9A, 0x80]]
     @ map (\<lambda>b. [0xE2, 0x80, b])
         [0x80, 0x81, 0x82, 0x83, 0x84, 0x85, 0x86, 0x87, 0x88, 0x89, 0x8A, 0xA8, 0xA9, 0xAF]
     @ [[0xE2, 0x81, 0x9F], [0xE3, 0x80, 0x80]]"

lemma whitespace_seqs_not_Nil: "[] \<notin> set whitespace_seqs"
  by (simp add: whitespace_seqs_def)

definition starts_with :: "bytes \<Rightarrow> bytes \<Rightarrow> bool" where
  "starts_with bs prefix \<longleftrightarrow> take (length prefix) bs = prefix"

text \<open>The whitespace character at the front, if any, and the same at the back.\<close>

definition leading_space :: "bytes \<Rightarrow> bytes option" where
  "leading_space bs = List.find (starts_with bs) whitespace_seqs"

definition trailing_space :: "bytes \<Rightarrow> bytes option" where
  "trailing_space bs = List.find (\<lambda>w. starts_with (rev bs) (rev w)) whitespace_seqs"

lemma leading_space_Some: "leading_space bs = Some w \<Longrightarrow> 0 < length w \<and> length w \<le> length bs"
proof -
  assume "leading_space bs = Some w"
  then have "w \<in> set whitespace_seqs" "starts_with bs w"
    unfolding leading_space_def by (auto simp: find_Some_iff)
  then show ?thesis
    using whitespace_seqs_not_Nil by (auto simp: starts_with_def) (metis length_take min.cobounded2 min.commute)
qed

lemma trailing_space_Some: "trailing_space bs = Some w \<Longrightarrow> 0 < length w \<and> length w \<le> length bs"
proof -
  assume "trailing_space bs = Some w"
  then have "w \<in> set whitespace_seqs" "starts_with (rev bs) (rev w)"
    unfolding trailing_space_def by (auto simp: find_Some_iff)
  then show ?thesis
    using whitespace_seqs_not_Nil
    by (auto simp: starts_with_def) (metis length_rev length_take min.cobounded2 min.commute)
qed

function trim_start :: "bytes \<Rightarrow> bytes" where
  "trim_start bs = (case leading_space bs of None \<Rightarrow> bs | Some w \<Rightarrow> trim_start (drop (length w) bs))"
  by auto
termination
  by (relation "measure length") (auto dest!: leading_space_Some intro: diff_less less_le_trans simp del: length_greater_0_conv)

function trim_end :: "bytes \<Rightarrow> bytes" where
  "trim_end bs = (case trailing_space bs of None \<Rightarrow> bs | Some w \<Rightarrow> trim_end (take (length bs - length w) bs))"
  by auto
termination
  by (relation "measure length") (auto dest!: trailing_space_Some intro: diff_less less_le_trans simp del: length_greater_0_conv)

declare trim_start.simps [simp del] trim_end.simps [simp del]

definition trim :: "bytes \<Rightarrow> bytes" where
  "trim bs = trim_end (trim_start bs)"

lemma trim_start_idem: "trim_start (trim_start bs) = trim_start bs"
proof (induction bs rule: trim_start.induct)
  case (1 bs)
  then show ?case
    by (cases "leading_space bs") (simp_all add: trim_start.simps [of bs])
qed

text \<open>Text with no whitespace at either end is left alone.\<close>

lemma trim_id: "leading_space bs = None \<Longrightarrow> trailing_space bs = None \<Longrightarrow> trim bs = bs"
  by (simp add: trim_def trim_start.simps [of bs] trim_end.simps [of bs])

section \<open>Splitting\<close>

text \<open>\<open>split(c)\<close>: the pieces between the separators.\<close>

fun split_on :: "u8 \<Rightarrow> bytes \<Rightarrow> bytes list" where
  "split_on sep [] = [[]]"
| "split_on sep (b # bs) =
     (if b = sep then [] # split_on sep bs
      else case split_on sep bs of [] \<Rightarrow> [[b]] | p # ps \<Rightarrow> (b # p) # ps)"

text \<open>\<open>split_once(sep)\<close>: around the first occurrence.\<close>

fun split_once :: "bytes \<Rightarrow> bytes \<Rightarrow> (bytes \<times> bytes) option" where
  "split_once sep [] = (if sep = [] then Some ([], []) else None)"
| "split_once sep (b # bs) =
     (if starts_with (b # bs) sep then Some ([], drop (length sep) (b # bs))
      else map_option (\<lambda>(l, r). (b # l, r)) (split_once sep bs))"

text \<open>\<open>lines()\<close>: split at line feeds, the last empty piece and one carriage return per line dropped.\<close>

definition strip_cr :: "bytes \<Rightarrow> bytes" where
  "strip_cr l = (if l \<noteq> [] \<and> last l = 0x0D then butlast l else l)"

text \<open>A last line without its line feed keeps its carriage return.\<close>

definition lines_of :: "bytes \<Rightarrow> bytes list" where
  "lines_of bs =
     (let ps = split_on 0x0A bs in
      map strip_cr (butlast ps) @ (if last ps = [] then [] else [last ps]))"

fun join_with :: "u8 \<Rightarrow> bytes list \<Rightarrow> bytes" where
  "join_with sep [] = []"
| "join_with sep [p] = p"
| "join_with sep (p # ps) = p @ sep # join_with sep ps"

lemma split_on_not_Nil [simp]: "split_on sep bs \<noteq> []"
  by (induction bs) (auto split: list.split)

lemma split_on_pieces: "p \<in> set (split_on sep bs) \<Longrightarrow> sep \<notin> set p"
proof (induction bs arbitrary: p)
  case (Cons b bs)
  obtain q ps where q: "split_on sep bs = q # ps" using split_on_not_Nil by (metis list.exhaust)
  with Cons show ?case by (auto split: if_splits)
qed simp

lemma join_split: "join_with sep (split_on sep bs) = bs"
proof (induction bs)
  case (Cons b bs)
  obtain q ps where q: "split_on sep bs = q # ps" using split_on_not_Nil by (metis list.exhaust)
  with Cons show ?case by (cases ps) auto
qed simp

lemma split_once_Some:
  "split_once sep bs = Some (l, r) \<Longrightarrow> bs = l @ sep @ r"
proof (induction bs arbitrary: l r)
  case (Cons b bs)
  show ?case
  proof (cases "starts_with (b # bs) sep")
    case True
    with Cons.prems have "l = []" "r = drop (length sep) (b # bs)" by auto
    with True show ?thesis unfolding starts_with_def by (metis append_Nil append_take_drop_id)
  qed (use Cons in auto)
qed (auto split: if_splits)

section \<open>Appending lines\<close>

lemma split_on_append: "split_on sep (xs @ sep # ys) = split_on sep xs @ split_on sep ys"
proof (induction xs)
  case (Cons x xs)
  obtain q ps where q: "split_on sep xs = q # ps" using split_on_not_Nil by (metis list.exhaust)
  with Cons show ?case by simp
qed simp

lemma split_on_piece: "sep \<notin> set bs \<Longrightarrow> split_on sep bs = [bs]"
  by (induction bs) auto

text \<open>Text that ends with a line feed, or is empty, gets one more line.\<close>

definition whole_lines :: "bytes \<Rightarrow> bool" where
  "whole_lines bs \<longleftrightarrow> bs = [] \<or> last bs = 0x0A"

definition line_text :: "bytes \<Rightarrow> bool" where
  "line_text l \<longleftrightarrow> 0x0A \<notin> set l \<and> strip_cr l = l"

lemma lines_of_snoc:
  assumes "whole_lines bs" "line_text l"
  shows "lines_of (bs @ l @ [0x0A]) = lines_of bs @ [l]" "whole_lines (bs @ l @ [0x0A])"
proof -
  have p: "split_on 0x0A (l @ [0x0A]) = [l, []]"
    using split_on_append [of "0x0A" l "[]"] split_on_piece [of "0x0A" l] assms(2) by (simp add: line_text_def)
  show "lines_of (bs @ l @ [0x0A]) = lines_of bs @ [l]"
  proof (cases "bs = []")
    case True
    with p assms(2) show ?thesis by (simp add: lines_of_def line_text_def)
  next
    case False
    with assms(1) obtain b0 where b: "bs = b0 @ [0x0A]" by (metis whole_lines_def append_butlast_last_id)
    have "split_on 0x0A (bs @ l @ [0x0A]) = split_on 0x0A b0 @ [l, []]"
      using split_on_append [of "0x0A" b0 "l @ [0x0A]"] by (simp add: b p)
    moreover have "split_on 0x0A bs = split_on 0x0A b0 @ [[]]"
      using split_on_append [of "0x0A" b0 "[]"] by (simp add: b)
    ultimately show ?thesis using assms(2) by (simp add: lines_of_def line_text_def butlast_append)
  qed
qed (simp add: whole_lines_def)

section \<open>Words\<close>

lemma drop_space_less: "leading_space bs = Some w \<Longrightarrow> length bs - length w < length bs"
  using leading_space_Some [of bs w] by linarith

text \<open>\<open>split_whitespace\<close>: the runs between whitespace, none empty. \<open>cur\<close> is the run being read.\<close>

function split_words :: "bytes \<Rightarrow> bytes \<Rightarrow> bytes list" where
  "split_words bs cur =
     (case leading_space bs of
        Some w \<Rightarrow> (if cur = [] then split_words (drop (length w) bs) [] else cur # split_words (drop (length w) bs) [])
      | None \<Rightarrow> (case bs of [] \<Rightarrow> (if cur = [] then [] else [cur]) | b # rest \<Rightarrow> split_words rest (cur @ [b])))"
  by auto
termination
  by (relation "measure (\<lambda>(bs, cur). length bs)") (simp_all add: drop_space_less)

declare split_words.simps [simp del]

definition split_whitespace :: "bytes \<Rightarrow> bytes list" where
  "split_whitespace bs = split_words bs []"

end
