(* ===== verification/Backend.thy ===== *)
theory Backend
  imports Scheme Text "HOL-Library.Product_Lexorder" "HOL-Library.Option_ord"
begin

text \<open>
  The backend interface (\<open>src/backend/mod.rs\<close>), its implementation over miniscript
  (\<open>src/backend/rust_miniscript.rs\<close>) and the errors of the upper crate (\<open>src/lib.rs\<close>). Public keys,
  key expressions and descriptors are types of third-party crates: type variables, with what the code
  calls on them as the fields of a record. Of a miniscript key expression the constructors and the
  fields the code matches on are kept. Shown: which key expressions count as derived, and how each
  kind is classified.
\<close>

section \<open>Errors\<close>

datatype bip_error =
    B_Ll ll_error
  | B_Utf8
  | B_Descriptor
  | B_DescriptorBackup
  | B_WalletPolicy
  | B_NotImplemented
  | B_UnknownContent
  | B_EncryptionUndefined
  | B_UnsupportedEncryption
  | B_InvalidVersion
  | B_WrongPayload
  | B_UnknownVersion
  | B_NoKey
  | B_WrongKey
  | B_DescriptorHasNoKeys
  | B_Base64
  | B_InvalidKeyExpression
  | B_String string

type_synonym 'a bip = "(bip_error, 'a) outcome"

text \<open>\<open>?\<close> on a result of the lower crate.\<close>

abbreviation from_ll :: "'a ll \<Rightarrow> 'a bip" where
  "from_ll \<equiv> map_err B_Ll"

section \<open>The interface\<close>

datatype 'pk key_expr =
    Literal bytes "deriv_path option"
  | XPub 'pk "deriv_path option" bool bool

text \<open>
  The descriptor of the backend comes with its parser and its printer, on the UTF-8 bytes of a string.
  A derivation path of the backend is a list of child numbers, in bijection with the 32-bit words of
  the lower crate, so both are \<open>deriv_path\<close>.
\<close>

record ('pk, 'dk, 'd) backend =
  xonly :: "'pk \<Rightarrow> bytes"
  descriptor_keys :: "'d \<Rightarrow> 'dk list"
  classify :: "'dk \<Rightarrow> 'pk key_expr"
  is_multipath :: "'d \<Rightarrow> bool"
  to_wallet_policy :: "'d \<Rightarrow> (bytes \<times> 'dk list) bip"
  from_wallet_policy :: "bytes \<Rightarrow> 'dk list \<Rightarrow> 'd bip"
  parse_descriptor :: "bytes \<Rightarrow> 'd option"
  show_descriptor :: "'d \<Rightarrow> bytes"

definition to_ll_path :: "deriv_path \<Rightarrow> deriv_path" where
  "to_ll_path path = DerivationPath (to_u32_vec path)"

definition from_ll_path :: "deriv_path \<Rightarrow> deriv_path" where
  "from_ll_path path = DerivationPath (map (\<lambda>child. child) (to_u32_vec path))"

lemma ll_paths_id [simp]: "to_ll_path p = p" "from_ll_path p = p"
  by (simp_all add: to_ll_path_def from_ll_path_def)

lemma map_ll_paths_id [simp]: "map to_ll_path ps = ps" "map from_ll_path ps = ps"
  by (simp_all add: map_idI)

section \<open>Miniscript key expressions\<close>

datatype wildcard = Wildcard_None | Wildcard_Unhardened | Wildcard_Hardened

datatype 'pk single_key = FullKey 'pk | XOnlyKey bytes

type_synonym origin = "(u32 \<times> deriv_path) option"

text \<open>\<open>'x\<close> is an extended key, of which the code reads the public key.\<close>

datatype ('pk, 'x) dpk =
    DSingle origin "'pk single_key"
  | DXPub origin 'x deriv_path wildcard
  | DMultiXPub origin 'x "deriv_path list" wildcard

text \<open>The derived order: the variants as they are declared, then the fields in turn.\<close>

fun wildcard_rank :: "wildcard \<Rightarrow> nat" where
  "wildcard_rank Wildcard_None = 0"
| "wildcard_rank Wildcard_Unhardened = 1"
| "wildcard_rank Wildcard_Hardened = 2"

fun single_key_rank :: "'pk single_key \<Rightarrow> nat \<times> 'pk option \<times> bytes" where
  "single_key_rank (FullKey pk) = (0, Some pk, [])"
| "single_key_rank (XOnlyKey xo) = (1, None, xo)"

fun dpk_rank ::
  "('pk, 'x) dpk \<Rightarrow> nat \<times> origin \<times> (nat \<times> 'pk option \<times> bytes) option \<times> 'x option \<times> deriv_path list \<times> nat" where
  "dpk_rank (DSingle origin key) = (0, origin, Some (single_key_rank key), None, [], 0)"
| "dpk_rank (DXPub origin xkey path w) = (1, origin, None, Some xkey, [path], wildcard_rank w)"
| "dpk_rank (DMultiXPub origin xkey paths w) = (2, origin, None, Some xkey, paths, wildcard_rank w)"

lemma dpk_rank_inject: "dpk_rank j = dpk_rank k \<longleftrightarrow> j = k"
proof -
  have w: "wildcard_rank u = wildcard_rank v \<longleftrightarrow> u = v" for u v by (cases u; cases v) simp_all
  have s: "single_key_rank a = single_key_rank b \<longleftrightarrow> a = b" for a b :: "'a single_key"
    by (cases a; cases b) simp_all
  show ?thesis by (cases j; cases k) (simp_all add: w s)
qed

instantiation dpk :: (linorder, linorder) linorder
begin

definition less_eq_dpk :: "('a, 'b) dpk \<Rightarrow> ('a, 'b) dpk \<Rightarrow> bool" where
  "less_eq_dpk j k \<longleftrightarrow> dpk_rank j \<le> dpk_rank k"

definition less_dpk :: "('a, 'b) dpk \<Rightarrow> ('a, 'b) dpk \<Rightarrow> bool" where
  "less_dpk j k \<longleftrightarrow> dpk_rank j < dpk_rank k"

instance
proof
  fix i j k :: "('a, 'b) dpk"
  show "i < j \<longleftrightarrow> i \<le> j \<and> \<not> j \<le> i"
    unfolding less_eq_dpk_def less_dpk_def by (rule less_le_not_le)
  show "i \<le> i" unfolding less_eq_dpk_def by (rule order_refl)
  show "i \<le> j \<Longrightarrow> j \<le> k \<Longrightarrow> i \<le> k" unfolding less_eq_dpk_def by (rule order_trans)
  show "i \<le> j \<Longrightarrow> j \<le> i \<Longrightarrow> i = j"
    unfolding less_eq_dpk_def by (metis dpk_rank_inject order_antisym)
  show "i \<le> j \<or> j \<le> i" unfolding less_eq_dpk_def by (rule linear)
qed

end

definition is_derived :: "deriv_path list \<Rightarrow> wildcard \<Rightarrow> bool" where
  "is_derived paths wildcard =
     (let deriv = paths \<noteq> [] \<and> list_all (\<lambda>p. \<not> path_is_empty p) paths in
      deriv \<or> wildcard \<noteq> Wildcard_None)"

fun miniscript_classify :: "('pk \<Rightarrow> bytes) \<Rightarrow> ('x \<Rightarrow> 'pk) \<Rightarrow> ('pk, 'x) dpk \<Rightarrow> 'pk key_expr" where
  "miniscript_classify x_only public_key (DSingle origin key) =
     Literal (case key of FullKey pk \<Rightarrow> x_only pk | XOnlyKey xo \<Rightarrow> xo) (map_option snd origin)"
| "miniscript_classify x_only public_key (DXPub origin xkey derivation_path wildcard) =
     XPub (public_key xkey) (map_option snd origin) (is_derived [derivation_path] wildcard) False"
| "miniscript_classify x_only public_key (DMultiXPub origin xkey derivation_paths wildcard) =
     XPub (public_key xkey) (map_option snd origin) (is_derived derivation_paths wildcard) True"

lemma is_derived_iff:
  "is_derived paths w \<longleftrightarrow> w \<noteq> Wildcard_None \<or> (paths \<noteq> [] \<and> (\<forall>p \<in> set paths. to_u32_vec p \<noteq> []))"
  by (auto simp: is_derived_def Let_def list_all_iff path_is_empty_def)

lemma miniscript_classify_bare:
  "(\<exists>root path. miniscript_classify x_only public_key k = XPub root path False False) \<longleftrightarrow>
   (\<exists>origin xkey. k = DXPub origin xkey (DerivationPath []) Wildcard_None)"
proof (cases k)
  case (DXPub origin xkey path w)
  then show ?thesis by (cases path) (auto simp: is_derived_iff)
qed auto

end
