(* ===== verification/Descriptor_Rules.thy ===== *)
theory Descriptor_Rules
  imports Backend
begin

text \<open>
  Which keys of a descriptor may encrypt (\<open>src/descriptor.rs\<close>): roots of derived xpub expressions,
  without the NUMS point; literal keys and bare xpubs are left out with a warning, and reported as
  exposed. Shown: the key set and the warnings split the expressions of a descriptor; what is exposed;
  the key set, the key paths and the exposed keys as sets.
\<close>

section \<open>Operations\<close>

datatype ('pk, 'dk) warning = DisallowedKeyExpression 'dk | NumsKey 'dk | ExposedRoot 'pk

definition xonly_of :: "('pk, 'dk, 'd) backend \<Rightarrow> 'dk \<Rightarrow> bytes" where
  "xonly_of B key =
     (case classify B key of Literal xo origin_path \<Rightarrow> xo | XPub root origin_path derived multipath \<Rightarrow> xonly B root)"

definition dpk_to_root_pk :: "('pk, 'dk, 'd) backend \<Rightarrow> 'dk \<Rightarrow> 'pk bip" where
  "dpk_to_root_pk B key =
     (case classify B key of XPub root origin_path derived multipath \<Rightarrow> Ok root
      | Literal xo origin_path \<Rightarrow> Err B_InvalidKeyExpression)"

definition dpk_to_pk :: "('pk, 'dk, 'd) backend \<Rightarrow> 'dk \<Rightarrow> 'pk bip" where
  "dpk_to_pk B key =
     (case classify B key of
        XPub root origin_path derived multipath \<Rightarrow> if derived then Ok root else Err B_InvalidKeyExpression
      | Literal xo origin_path \<Rightarrow> Err B_InvalidKeyExpression)"

definition dpk_to_deriv_path :: "('pk, 'dk, 'd) backend \<Rightarrow> 'dk \<Rightarrow> deriv_path option" where
  "dpk_to_deriv_path B key =
     (case classify B key of Literal xo origin_path \<Rightarrow> origin_path
      | XPub root origin_path derived multipath \<Rightarrow> origin_path)"

definition BIP341_NUMS :: bytes where
  "BIP341_NUMS =
    [0x50, 0x92, 0x9b, 0x74, 0xc1, 0xa0, 0x49, 0x54, 0xb7, 0x8b, 0x4b, 0x60, 0x35, 0xe9, 0x7a, 0x5e,
     0x07, 0x8a, 0x5a, 0x0f, 0x28, 0xec, 0x96, 0xd5, 0x47, 0xbf, 0xee, 0x9a, 0xce, 0x80, 0x3a, 0xc0]"

definition descr_to_dpks :: "('pk, 'dk::linorder, 'd) backend \<Rightarrow> 'd \<Rightarrow> 'dk list" where
  "descr_to_dpks B descriptor =
     fold (\<lambda>k keys. case dpk_to_pk B k of
         Ok pk \<Rightarrow> if xonly B pk \<noteq> BIP341_NUMS then btree_insert k keys else keys
       | _ \<Rightarrow> keys) (descriptor_keys B descriptor) []"

definition descr_exposed_keys :: "('pk, 'dk, 'd) backend \<Rightarrow> 'd \<Rightarrow> bytes list" where
  "descr_exposed_keys B descriptor =
     fold (\<lambda>k keys.
         let exposed = (case classify B k of
             Literal xo origin_path \<Rightarrow> Some xo
           | XPub root origin_path derived multipath \<Rightarrow>
               if \<not> derived \<and> \<not> multipath then Some (xonly B root) else None) in
         case exposed of None \<Rightarrow> keys | Some xo \<Rightarrow> btree_insert xo keys) (descriptor_keys B descriptor) []"

definition descr_warnings :: "('pk, 'dk, 'd) backend \<Rightarrow> 'd \<Rightarrow> ('pk, 'dk) warning list bip" where
  "descr_warnings B descriptor =
     Ok (fold (\<lambda>k warnings.
         if xonly_of B k = BIP341_NUMS then warnings @ [NumsKey k]
         else (case dpk_to_pk B k of Ok pk \<Rightarrow> warnings | _ \<Rightarrow> warnings @ [DisallowedKeyExpression k]))
       (descriptor_keys B descriptor) [])"

definition dpks_to_key_paths ::
  "('pk::linorder, 'dk, 'd) backend \<Rightarrow> 'dk list \<Rightarrow> ('pk \<times> deriv_path) list" where
  "dpks_to_key_paths B dpks =
     fold (\<lambda>k key_paths. case (dpk_to_pk B k, dpk_to_deriv_path B k) of
         (Ok key, Some path) \<Rightarrow> btree_insert (key, path) key_paths
       | _ \<Rightarrow> key_paths) dpks []"

definition dpks_to_derivation_keys_paths ::
  "('pk::linorder, 'dk, 'd) backend \<Rightarrow> 'dk list \<Rightarrow> 'pk list \<times> deriv_path list" where
  "dpks_to_derivation_keys_paths B dpks =
     fold (\<lambda>k (keys, derivation_paths). case dpk_to_pk B k of
         Ok key \<Rightarrow> (btree_insert key keys,
           case dpk_to_deriv_path B k of None \<Rightarrow> derivation_paths
           | Some path \<Rightarrow> btree_insert path derivation_paths)
       | _ \<Rightarrow> (keys, derivation_paths)) dpks ([], [])"

section \<open>As sets\<close>

lemma BIP341_NUMS_eq: "BIP341_NUMS = NUMS_XONLY"
  by (simp add: BIP341_NUMS_def NUMS_XONLY_def)

lemma dpk_to_pk_Ok:
  "dpk_to_pk B k = Ok pk \<longleftrightarrow> (\<exists>path multi. classify B k = XPub pk path True multi)"
  by (auto simp: dpk_to_pk_def split: key_expr.splits)

lemma dpk_to_pk_returns [simp]: "dpk_to_pk B k \<noteq> Panic" "dpk_to_pk B k \<noteq> Diverges"
  by (auto simp: dpk_to_pk_def split: key_expr.splits)

lemma dpk_to_root_pk_Ok:
  "dpk_to_root_pk B k = Ok pk \<longleftrightarrow> (\<exists>path d multi. classify B k = XPub pk path d multi)"
  by (auto simp: dpk_to_root_pk_def split: key_expr.splits)

text \<open>A key that may encrypt may decrypt, with the same root.\<close>

lemma dpk_to_pk_root: "dpk_to_pk B k = Ok pk \<Longrightarrow> dpk_to_root_pk B k = Ok pk"
  by (auto simp: dpk_to_pk_Ok dpk_to_root_pk_Ok)

text \<open>The expressions allowed to encrypt.\<close>

definition may_encrypt :: "('pk, 'dk, 'd) backend \<Rightarrow> 'dk \<Rightarrow> bool" where
  "may_encrypt B k \<longleftrightarrow> (\<exists>pk. dpk_to_pk B k = Ok pk \<and> xonly B pk \<noteq> BIP341_NUMS)"

lemma fold_insert_set:
  assumes "\<And>k s. set (f k s) = set s \<union> g k"
  shows "set (fold f xs acc) = set acc \<union> (\<Union>k \<in> set xs. g k)"
  by (induction xs arbitrary: acc) (auto simp: assms)

lemma set_descr_to_dpks: "set (descr_to_dpks B d) = {k \<in> set (descriptor_keys B d). may_encrypt B k}"
proof -
  have "set (descr_to_dpks B d) = set [] \<union> (\<Union>k \<in> set (descriptor_keys B d). if may_encrypt B k then {k} else {})"
    unfolding descr_to_dpks_def
    by (rule fold_insert_set) (auto simp: may_encrypt_def split: outcome.splits)
  then show ?thesis by (auto split: if_splits)
qed

definition exposes :: "('pk, 'dk, 'd) backend \<Rightarrow> 'dk \<Rightarrow> bytes set" where
  "exposes B k =
     (case classify B k of Literal xo path \<Rightarrow> {xo}
      | XPub root path derived multi \<Rightarrow> if derived \<or> multi then {} else {xonly B root})"

lemma set_descr_exposed_keys: "set (descr_exposed_keys B d) = (\<Union>k \<in> set (descriptor_keys B d). exposes B k)"
proof -
  have "set (descr_exposed_keys B d) = set [] \<union> (\<Union>k \<in> set (descriptor_keys B d). exposes B k)"
    unfolding descr_exposed_keys_def
    by (rule fold_insert_set) (auto simp: exposes_def Let_def split: key_expr.splits option.splits)
  then show ?thesis by simp
qed

lemma set_dpks_to_key_paths:
  "set (dpks_to_key_paths B ks) =
     {(pk, p). \<exists>k \<in> set ks. dpk_to_pk B k = Ok pk \<and> dpk_to_deriv_path B k = Some p}"
proof -
  have "set (dpks_to_key_paths B ks) = set [] \<union>
      (\<Union>k \<in> set ks. {(pk, p). dpk_to_pk B k = Ok pk \<and> dpk_to_deriv_path B k = Some p})"
    unfolding dpks_to_key_paths_def
    by (rule fold_insert_set) (auto split: outcome.splits option.splits)
  then show ?thesis by auto
qed

lemma set_derivation_keys:
  "set (fst (dpks_to_derivation_keys_paths B ks)) = {pk. \<exists>k \<in> set ks. dpk_to_pk B k = Ok pk}"
proof -
  have "set (fst (fold (\<lambda>k (keys, derivation_paths). case dpk_to_pk B k of
         Ok key \<Rightarrow> (btree_insert key keys,
           case dpk_to_deriv_path B k of None \<Rightarrow> derivation_paths
           | Some path \<Rightarrow> btree_insert path derivation_paths)
       | _ \<Rightarrow> (keys, derivation_paths)) ks acc)) = set (fst acc) \<union> {pk. \<exists>k \<in> set ks. dpk_to_pk B k = Ok pk}" for acc
  proof (induction ks arbitrary: acc)
    case (Cons k ks)
    show ?case using Cons.IH by (cases acc; cases "dpk_to_pk B k") auto
  qed simp
  then show ?thesis by (simp add: dpks_to_derivation_keys_paths_def)
qed

text \<open>The key set of a descriptor: the roots of the expressions allowed to encrypt.\<close>

lemma set_descriptor_key_set:
  "set (fst (dpks_to_derivation_keys_paths B (descr_to_dpks B d))) =
     {pk. \<exists>k \<in> set (descriptor_keys B d). dpk_to_pk B k = Ok pk \<and> xonly B pk \<noteq> BIP341_NUMS}"
  by (force simp: set_derivation_keys set_descr_to_dpks may_encrypt_def)

section \<open>Warnings\<close>

text \<open>One warning per expression that is left out, in descriptor order, NUMS first.\<close>

definition warning_of :: "('pk, 'dk, 'd) backend \<Rightarrow> 'dk \<Rightarrow> ('pk, 'dk) warning" where
  "warning_of B k = (if xonly_of B k = BIP341_NUMS then NumsKey k else DisallowedKeyExpression k)"

lemma xonly_of_pk: "dpk_to_pk B k = Ok pk \<Longrightarrow> xonly_of B k = xonly B pk"
  by (auto simp: dpk_to_pk_Ok xonly_of_def)

lemma may_encrypt_iff: "may_encrypt B k \<longleftrightarrow> xonly_of B k \<noteq> BIP341_NUMS \<and> (\<exists>pk. dpk_to_pk B k = Ok pk)"
  by (auto simp: may_encrypt_def xonly_of_pk)

lemma descr_warnings_eq:
  "descr_warnings B d = Ok (map (warning_of B) (filter (\<lambda>k. \<not> may_encrypt B k) (descriptor_keys B d)))"
proof -
  have "fold (\<lambda>k warnings.
         if xonly_of B k = BIP341_NUMS then warnings @ [NumsKey k]
         else (case dpk_to_pk B k of Ok pk \<Rightarrow> warnings | _ \<Rightarrow> warnings @ [DisallowedKeyExpression k])) ks acc =
      acc @ map (warning_of B) (filter (\<lambda>k. \<not> may_encrypt B k) ks)" for ks acc
  proof (induction ks arbitrary: acc)
    case (Cons k ks)
    show ?case using Cons.IH
      by (cases "dpk_to_pk B k") (auto simp: may_encrypt_iff warning_of_def)
  qed simp
  then show ?thesis by (simp add: descr_warnings_def)
qed

section \<open>Properties\<close>

text \<open>
  C36. The key expressions of a descriptor split in two: those allowed to encrypt make up the key set and
  their roots are the encryption keys; every other one, and no other, gets one warning, in the order of
  the descriptor.
\<close>

theorem descriptor_keys_split:
  "set (descr_to_dpks B d) = {k. k \<in> set (descriptor_keys B d) \<and> may_encrypt B k} \<and>
   set (fst (dpks_to_derivation_keys_paths B (descr_to_dpks B d))) =
     {pk. \<exists>k. k \<in> set (descriptor_keys B d) \<and> dpk_to_pk B k = Ok pk \<and> xonly B pk \<noteq> BIP341_NUMS} \<and>
   descr_warnings B d = Ok (map (warning_of B) (filter (\<lambda>k. \<not> may_encrypt B k) (descriptor_keys B d)))"
  using set_descr_to_dpks [of B d] set_descriptor_key_set [of B d] descr_warnings_eq [of B d] by auto

text \<open>
  Which miniscript key expressions may encrypt: extended keys with a wildcard, or with no empty
  derivation path, whose public key is not the NUMS point; never a literal key nor a bare xpub.
\<close>

lemma miniscript_may_encrypt:
  "may_encrypt (B\<lparr>classify := miniscript_classify (xonly B) public_key\<rparr>) k \<longleftrightarrow>
     (case k of
        DSingle origin key \<Rightarrow> False
      | DXPub origin xkey path w \<Rightarrow>
          \<not> (w = Wildcard_None \<and> to_u32_vec path = []) \<and> xonly B (public_key xkey) \<noteq> NUMS_XONLY
      | DMultiXPub origin xkey paths w \<Rightarrow>
          \<not> (w = Wildcard_None \<and> (paths = [] \<or> list_ex (\<lambda>p. to_u32_vec p = []) paths)) \<and>
          xonly B (public_key xkey) \<noteq> NUMS_XONLY)"
  by (cases k) (auto simp: may_encrypt_def dpk_to_pk_Ok is_derived_iff BIP341_NUMS_eq list_all_iff list_ex_iff)

end
