(* ===== verification/Payload_Items.thy ===== *)
theory Payload_Items
  imports Descriptor_Rules
begin

text \<open>
  The items a backup can hold: the trait \<open>ToPayload\<close> of \<open>src/lib.rs\<close> and its implementations for raw
  bytes, strings, nested backups and descriptors. The methods are pure and take no argument, so an
  item is the record of what its methods return. The locale \<open>payload_source\<close> is the contract the
  builder relies on: the methods return, and a key path belongs to a key of the item.
\<close>

section \<open>The trait\<close>

record ('pk, 'dk) to_payload =
  tp_payload :: "bytes bip"
  tp_content_type :: content
  tp_key_paths :: "('pk \<times> deriv_path) list bip"
  tp_keys :: "'pk list bip"
  tp_warnings :: "('pk, 'dk) warning list bip"
  tp_exposed_keys :: "bytes list"

section \<open>Implementations\<close>

text \<open>The default methods return no warnings and no exposed keys.\<close>

definition default_warnings :: "('pk, 'dk) warning list bip" where
  "default_warnings = Ok []"

definition default_exposed_keys :: "bytes list" where
  "default_exposed_keys = []"

definition vec_item :: "bytes \<Rightarrow> ('pk, 'dk) to_payload" where
  "vec_item v = \<lparr>tp_payload = Ok v, tp_content_type = Content_Unknown, tp_key_paths = Ok [],
     tp_keys = Ok [], tp_warnings = default_warnings, tp_exposed_keys = default_exposed_keys\<rparr>"

definition string_item :: "bytes \<Rightarrow> ('pk, 'dk) to_payload" where
  "string_item s = \<lparr>tp_payload = Ok s, tp_content_type = Content_String, tp_key_paths = Ok [],
     tp_keys = Ok [], tp_warnings = default_warnings, tp_exposed_keys = default_exposed_keys\<rparr>"

datatype bip138 = Bip138 bytes

fun bip138_item :: "bip138 \<Rightarrow> ('pk, 'dk) to_payload" where
  "bip138_item (Bip138 b) = \<lparr>tp_payload = Ok b, tp_content_type = Content_Bip138, tp_key_paths = Ok [],
     tp_keys = Ok [], tp_warnings = default_warnings, tp_exposed_keys = default_exposed_keys\<rparr>"

definition descriptor_item ::
  "('pk::linorder, 'dk::linorder, 'd) backend \<Rightarrow> 'd \<Rightarrow> ('pk, 'dk) to_payload" where
  "descriptor_item B d = \<lparr>
     tp_payload = Ok (show_descriptor B d),
     tp_content_type = Content_Bip380,
     tp_key_paths = Ok (dpks_to_key_paths B (descr_to_dpks B d)),
     tp_keys = Ok (let dpks = descr_to_dpks B d; (k, _) = dpks_to_derivation_keys_paths B dpks in k),
     tp_warnings = descr_warnings B d,
     tp_exposed_keys = descr_exposed_keys B d\<rparr>"

section \<open>The contract\<close>

locale payload_source =
  fixes is_item :: "('pk, 'dk) to_payload \<Rightarrow> bool"
  assumes path_key: "is_item x \<Longrightarrow> tp_key_paths x = Ok kps \<Longrightarrow> tp_keys x = Ok ks \<Longrightarrow>
      (pk, p) \<in> set kps \<Longrightarrow> pk \<in> set ks"
    and payload_returns: "is_item x \<Longrightarrow> tp_payload x \<noteq> Panic \<and> tp_payload x \<noteq> Diverges"
    and paths_return: "is_item x \<Longrightarrow> tp_key_paths x \<noteq> Panic \<and> tp_key_paths x \<noteq> Diverges"
    and keys_return: "is_item x \<Longrightarrow> tp_keys x \<noteq> Panic \<and> tp_keys x \<noteq> Diverges"
    and warnings_return: "is_item x \<Longrightarrow> tp_warnings x \<noteq> Panic \<and> tp_warnings x \<noteq> Diverges"

lemma payload_source_union:
  "payload_source P \<Longrightarrow> payload_source Q \<Longrightarrow> payload_source (\<lambda>x. P x \<or> Q x)"
  unfolding payload_source_def by blast

lemma payload_source_plain:
  assumes "\<And>x. P x \<Longrightarrow> \<exists>b. tp_payload x = Ok b \<and> tp_key_paths x = Ok [] \<and> tp_keys x = Ok [] \<and> tp_warnings x = Ok []"
  shows "payload_source P"
  unfolding payload_source_def using assms by fastforce

interpretation plain_items: payload_source
  "\<lambda>x :: ('pk, 'dk) to_payload. \<exists>b. x = vec_item b \<or> x = string_item b \<or> x = bip138_item (Bip138 b)"
  by (rule payload_source_plain) (auto simp: vec_item_def string_item_def default_warnings_def)

lemma descriptor_item_path_key:
  "tp_key_paths (descriptor_item B d) = Ok kps \<Longrightarrow> tp_keys (descriptor_item B d) = Ok ks \<Longrightarrow>
   (pk, p) \<in> set kps \<Longrightarrow> pk \<in> set ks"
  using set_derivation_keys [of B "descr_to_dpks B d"]
  by (auto simp: descriptor_item_def Let_def set_dpks_to_key_paths split: prod.splits)

interpretation descriptor_items: payload_source
  "\<lambda>x :: ('pk::linorder, 'dk::linorder) to_payload. \<exists>(B :: ('pk, 'dk, 'd) backend) d. x = descriptor_item B d"
proof unfold_locales
  fix x :: "('pk, 'dk) to_payload" and kps ks pk p
  assume x: "\<exists>(B :: ('pk, 'dk, 'd) backend) d. x = descriptor_item B d"
    and r: "tp_key_paths x = Ok kps" "tp_keys x = Ok ks" "(pk, p) \<in> set kps"
  from x obtain B :: "('pk, 'dk, 'd) backend" and d where "x = descriptor_item B d" by blast
  with r show "pk \<in> set ks" by (simp add: descriptor_item_path_key [of B d kps ks pk p])
qed (auto simp: descriptor_item_def descr_warnings_eq)

end
