(* ===== verification/Descriptor_Backup.thy ===== *)
theory Descriptor_Backup
  imports Payload_Items Text
begin

text \<open>
  Descriptor backup documents (\<open>src/descriptor_backup.rs\<close>). The JSON reader and writer are serde's:
  parameters. Shown: which documents are accepted, the round trip, and that the keys, the key paths,
  the exposed keys and the warnings of a document are those of its descriptors.
\<close>

section \<open>Documents\<close>

definition VERSION :: u32 where
  "VERSION = 1"

record 'd descriptor_set =
  ds_descriptor :: 'd
  ds_change_descriptor :: "'d option"
  ds_archived :: bool
  ds_range :: "(u32 \<times> u32) option"
  ds_birth_time :: "u64 option"

record 'd descriptor_backup =
  db_version :: u32
  db_descriptor_sets :: "'d descriptor_set list"

text \<open>\<open>serde_json::from_str\<close> and \<open>serde_json::to_vec\<close> at this type.\<close>

record 'd backup_json =
  json_to_backup :: "bytes \<Rightarrow> 'd descriptor_backup option"
  backup_to_json :: "'d descriptor_backup \<Rightarrow> bytes option"

fun validate_sets :: "('pk, 'dk, 'd) backend \<Rightarrow> 'd descriptor_set list \<Rightarrow> unit bip" where
  "validate_sets B [] = Ok ()"
| "validate_sets B (descr_set # sets) =
     (if is_multipath B (ds_descriptor descr_set) \<and> ds_change_descriptor descr_set \<noteq> None then Err B_DescriptorBackup
      else validate_sets B sets)"

definition validate :: "('pk, 'dk, 'd) backend \<Rightarrow> 'd descriptor_backup \<Rightarrow> unit bip" where
  "validate B backup =
     (if db_version backup \<noteq> VERSION \<or> db_descriptor_sets backup = [] then Err B_DescriptorBackup
      else validate_sets B (db_descriptor_sets backup))"

definition parse_descriptor_backup ::
  "('pk, 'dk, 'd) backend \<Rightarrow> 'd backup_json \<Rightarrow> bytes \<Rightarrow> 'd descriptor_backup bip" where
  "parse_descriptor_backup B J bs =
     (if \<not> utf8_valid bs then Err B_Utf8
      else if \<not> starts_with bs [0x7B] then Err B_DescriptorBackup
      else
        andThen (ok_or B_DescriptorBackup (json_to_backup J bs)) (\<lambda>backup.
        andThen (validate B backup) (\<lambda>_.
        Ok backup)))"

definition to_json :: "'d backup_json \<Rightarrow> 'd descriptor_backup \<Rightarrow> bytes bip" where
  "to_json J backup = ok_or B_DescriptorBackup (backup_to_json J backup)"

definition descriptors :: "'d descriptor_backup \<Rightarrow> 'd list" where
  "descriptors backup = concat (map (\<lambda>s. ds_descriptor s #
     (case ds_change_descriptor s of None \<Rightarrow> [] | Some d \<Rightarrow> [d])) (db_descriptor_sets backup))"

text \<open>Warnings of all the descriptors, each one once.\<close>

definition merge_warnings :: "('pk, 'dk) warning list \<Rightarrow> ('pk, 'dk) warning list \<Rightarrow> ('pk, 'dk) warning list" where
  "merge_warnings ws warnings =
     fold (\<lambda>w warnings. if List.member warnings w then warnings else warnings @ [w]) ws warnings"

fun warnings_of_all :: "('pk, 'dk, 'd) backend \<Rightarrow> 'd list \<Rightarrow> ('pk, 'dk) warning list \<Rightarrow> ('pk, 'dk) warning list bip" where
  "warnings_of_all B [] warnings = Ok warnings"
| "warnings_of_all B (descriptor # ds) warnings =
     andThen (descr_warnings B descriptor) (\<lambda>ws. warnings_of_all B ds (merge_warnings ws warnings))"

definition descriptor_backup_item ::
  "('pk::linorder, 'dk::linorder, 'd) backend \<Rightarrow> 'd backup_json \<Rightarrow> 'd descriptor_backup \<Rightarrow> ('pk, 'dk) to_payload" where
  "descriptor_backup_item B J backup = \<lparr>
     tp_payload = to_json J backup,
     tp_content_type = Content_Bip380,
     tp_key_paths = Ok (fold (\<lambda>descriptor key_paths.
       btree_extend key_paths (dpks_to_key_paths B (descr_to_dpks B descriptor))) (descriptors backup) []),
     tp_keys = Ok (fold (\<lambda>descriptor keys.
       let dpks = descr_to_dpks B descriptor; (k, _) = dpks_to_derivation_keys_paths B dpks in
       btree_extend keys k) (descriptors backup) []),
     tp_warnings = warnings_of_all B (descriptors backup) [],
     tp_exposed_keys = fold (\<lambda>descriptor keys.
       btree_extend keys (descr_exposed_keys B descriptor)) (descriptors backup) []\<rparr>"

section \<open>Validation and round trip\<close>

definition backup_valid :: "('pk, 'dk, 'd) backend \<Rightarrow> 'd descriptor_backup \<Rightarrow> bool" where
  "backup_valid B backup \<longleftrightarrow> db_version backup = 1 \<and> db_descriptor_sets backup \<noteq> [] \<and>
     (\<forall>s \<in> set (db_descriptor_sets backup).
        \<not> (is_multipath B (ds_descriptor s) \<and> ds_change_descriptor s \<noteq> None))"

lemma validate_sets_Ok:
  "validate_sets B sets = Ok u \<longleftrightarrow>
     (\<forall>s \<in> set sets. \<not> (is_multipath B (ds_descriptor s) \<and> ds_change_descriptor s \<noteq> None))"
  by (induction sets) auto

lemma validate_Ok: "validate B backup = Ok u \<longleftrightarrow> backup_valid B backup"
  by (auto simp: validate_def backup_valid_def VERSION_def validate_sets_Ok)

lemma parse_descriptor_backup_Ok:
  "parse_descriptor_backup B J bs = Ok backup \<longleftrightarrow>
     utf8_valid bs \<and> bs \<noteq> [] \<and> hd bs = 0x7B \<and> json_to_backup J bs = Some backup \<and> backup_valid B backup"
  by (cases bs) (auto simp: parse_descriptor_backup_def outcome_simps validate_Ok starts_with_def)

text \<open>What serde promises of a type that derives both traits: a JSON object in UTF-8, read back as written.\<close>

definition backup_json_laws :: "'d backup_json \<Rightarrow> bool" where
  "backup_json_laws J \<longleftrightarrow>
     (\<forall>b bs. backup_to_json J b = Some bs \<longrightarrow>
        utf8_valid bs \<and> bs \<noteq> [] \<and> hd bs = 0x7B \<and> json_to_backup J bs = Some b)"

lemma descriptor_backup_roundtrip:
  assumes "backup_json_laws J" and "backup_valid B backup" and "to_json J backup = Ok bs"
  shows "parse_descriptor_backup B J bs = Ok backup"
  using assms by (auto simp: to_json_def outcome_simps parse_descriptor_backup_Ok backup_json_laws_def)

section \<open>What a document contributes\<close>

lemma set_fold_extend:
  "set (fold (\<lambda>x s. btree_extend s (f x)) xs acc) = set acc \<union> (\<Union>x \<in> set xs. set (f x))"
proof (induction xs arbitrary: acc)
  case (Cons x xs)
  have "set (btree_extend acc (f x)) = set acc \<union> set (f x)" by (auto simp: btree_extend_def bts.set_extend)
  with Cons show ?case by auto
qed simp

lemma descriptor_backup_keys:
  "\<exists>ks. tp_keys (descriptor_backup_item B J backup) = Ok ks \<and>
     set ks = (\<Union>d \<in> set (descriptors backup). {pk. \<exists>k \<in> set (descriptor_keys B d).
       dpk_to_pk B k = Ok pk \<and> xonly B pk \<noteq> BIP341_NUMS})"
proof -
  have "set (fold (\<lambda>descriptor keys. btree_extend keys
        (fst (dpks_to_derivation_keys_paths B (descr_to_dpks B descriptor)))) (descriptors backup) []) =
      (\<Union>d \<in> set (descriptors backup). {pk. \<exists>k \<in> set (descriptor_keys B d).
       dpk_to_pk B k = Ok pk \<and> xonly B pk \<noteq> BIP341_NUMS})"
    by (simp add: set_fold_extend set_descriptor_key_set)
  then show ?thesis by (simp add: descriptor_backup_item_def Let_def case_prod_unfold)
qed

lemma descriptor_backup_exposed:
  "set (tp_exposed_keys (descriptor_backup_item B J backup)) =
     (\<Union>d \<in> set (descriptors backup). \<Union>k \<in> set (descriptor_keys B d). exposes B k)"
  by (simp add: descriptor_backup_item_def set_fold_extend set_descr_exposed_keys)

lemma descriptor_backup_key_paths:
  "\<exists>kps. tp_key_paths (descriptor_backup_item B J backup) = Ok kps \<and>
     set kps = (\<Union>d \<in> set (descriptors backup). {(pk, p). \<exists>k \<in> set (descriptor_keys B d).
       may_encrypt B k \<and> dpk_to_pk B k = Ok pk \<and> dpk_to_deriv_path B k = Some p})"
  by (auto simp: descriptor_backup_item_def set_fold_extend set_dpks_to_key_paths set_descr_to_dpks)

lemma set_merge_warnings: "set (merge_warnings ws acc) = set ws \<union> set acc"
  by (induction ws arbitrary: acc) (auto simp: merge_warnings_def)

lemma distinct_merge_warnings: "distinct acc \<Longrightarrow> distinct (merge_warnings ws acc)"
  by (induction ws arbitrary: acc) (auto simp: merge_warnings_def)

lemma warnings_of_all_Ok:
  "distinct acc \<Longrightarrow> \<exists>ws. warnings_of_all B ds acc = Ok ws \<and> distinct ws \<and>
     set ws = set acc \<union> (\<Union>d \<in> set ds. warning_of B ` {k \<in> set (descriptor_keys B d). \<not> may_encrypt B k})"
proof (induction ds arbitrary: acc)
  case (Cons d ds)
  let ?ws = "map (warning_of B) (filter (\<lambda>k. \<not> may_encrypt B k) (descriptor_keys B d))"
  from Cons.IH [OF distinct_merge_warnings [OF Cons.prems, of ?ws]] show ?case
    by (simp add: descr_warnings_eq set_merge_warnings Un_ac)
qed simp

interpretation descriptor_backup_items: payload_source
  "\<lambda>x :: ('pk::linorder, 'dk::linorder) to_payload.
     \<exists>(B :: ('pk, 'dk, 'd) backend) J b. x = descriptor_backup_item B J b"
proof unfold_locales
  fix x :: "('pk, 'dk) to_payload" and kps ks pk p
  assume x: "\<exists>(B :: ('pk, 'dk, 'd) backend) J b. x = descriptor_backup_item B J b"
    and r: "tp_key_paths x = Ok kps" "tp_keys x = Ok ks" "(pk, p) \<in> set kps"
  from x obtain B :: "('pk, 'dk, 'd) backend" and J b where "x = descriptor_backup_item B J b" by blast
  with r descriptor_backup_keys [of B J b] descriptor_backup_key_paths [of B J b] show "pk \<in> set ks"
    by (force simp: may_encrypt_def)
next
  fix x :: "('pk, 'dk) to_payload"
  assume "\<exists>(B :: ('pk, 'dk, 'd) backend) J b. x = descriptor_backup_item B J b"
  then obtain B :: "('pk, 'dk, 'd) backend" and J b where x: "x = descriptor_backup_item B J b" by blast
  then show "tp_payload x \<noteq> Panic \<and> tp_payload x \<noteq> Diverges"
    by (simp add: descriptor_backup_item_def to_json_def)
  from x show "tp_key_paths x \<noteq> Panic \<and> tp_key_paths x \<noteq> Diverges"
    "tp_keys x \<noteq> Panic \<and> tp_keys x \<noteq> Diverges"
    by (simp_all add: descriptor_backup_item_def)
  from x warnings_of_all_Ok [of "[]" B "descriptors b"]
  show "tp_warnings x \<noteq> Panic \<and> tp_warnings x \<noteq> Diverges"
    by (auto simp: descriptor_backup_item_def)
qed

section \<open>Properties\<close>

text \<open>
  What a descriptor backup contributes to an encrypted backup: as keys the roots its descriptors
  allow to encrypt, as exposed keys those any of its descriptors exposes, as key paths the origin paths
  of the former, and one warning for each different expression left out.
\<close>

theorem descriptor_backup_contributes:
  "\<exists>ks kps ws.
     tp_keys (descriptor_backup_item B J backup) = Ok ks \<and>
     tp_key_paths (descriptor_backup_item B J backup) = Ok kps \<and>
     tp_warnings (descriptor_backup_item B J backup) = Ok ws \<and> distinct ws \<and>
     set ks = (\<Union>d \<in> set (descriptors backup). set (fst (dpks_to_derivation_keys_paths B (descr_to_dpks B d)))) \<and>
     set kps = (\<Union>d \<in> set (descriptors backup). set (dpks_to_key_paths B (descr_to_dpks B d))) \<and>
     set ws = (\<Union>d \<in> set (descriptors backup). warning_of B ` {k. k \<in> set (descriptor_keys B d) \<and> \<not> may_encrypt B k}) \<and>
     set (tp_exposed_keys (descriptor_backup_item B J backup)) =
       (\<Union>d \<in> set (descriptors backup). \<Union>k \<in> set (descriptor_keys B d). exposes B k)"
proof -
  obtain ks where "tp_keys (descriptor_backup_item B J backup) = Ok ks"
    "set ks = (\<Union>d \<in> set (descriptors backup). set (fst (dpks_to_derivation_keys_paths B (descr_to_dpks B d))))"
    using descriptor_backup_keys [of B J backup] by (auto simp: set_descriptor_key_set)
  moreover obtain kps where "tp_key_paths (descriptor_backup_item B J backup) = Ok kps"
    "set kps = (\<Union>d \<in> set (descriptors backup). set (dpks_to_key_paths B (descr_to_dpks B d)))"
    by (simp add: descriptor_backup_item_def set_fold_extend)
  moreover obtain ws where "warnings_of_all B (descriptors backup) [] = Ok ws" "distinct ws"
    "set ws = (\<Union>d \<in> set (descriptors backup). warning_of B ` {k \<in> set (descriptor_keys B d). \<not> may_encrypt B k})"
    using warnings_of_all_Ok [of "[]" B "descriptors backup"] by auto
  ultimately show ?thesis
    using descriptor_backup_exposed [of B J backup]
    by (intro exI [of _ ks] exI [of _ kps] exI [of _ ws]) (simp add: descriptor_backup_item_def)
qed

end
