(* ===== verification/Wallet_Policy.thy ===== *)
theory Wallet_Policy
  imports Backend
begin

text \<open>
  The conversion between a descriptor and a BIP388 wallet policy
  (\<open>src/backend/rust_miniscript/wallet_policy.rs\<close>). Miniscript's descriptors, over concrete keys and
  over placeholders, are parameters: the keys in descriptor order, the keys in the order a translation
  visits them, and how it assembles the result. Shown: the placeholder of a key resolves to the key;
  numbering and key vector do not depend on the order of the translation; the order check accepts
  exactly the numberings by first appearance; a descriptor comes back from its own policy.
\<close>

section \<open>Placeholders\<close>

record bip388_key =
  bk_index :: u32
  bk_derivation_paths :: "deriv_path list"
  bk_wildcard :: wildcard

text \<open>\<open>DerivPaths::new\<close> refuses an empty list.\<close>

definition deriv_paths_new :: "deriv_path list \<Rightarrow> deriv_path list option" where
  "deriv_paths_new paths = (if paths = [] then None else Some paths)"

definition num_der_paths :: "bip388_key \<Rightarrow> nat" where
  "num_der_paths k = length (bk_derivation_paths k)"

definition RECEIVE_INDEX :: nat where "RECEIVE_INDEX = 0"
definition CHANGE_INDEX :: nat where "CHANGE_INDEX = 1"

text \<open>Decimal digits, most significant first.\<close>

fun digits :: "nat \<Rightarrow> string" where
  "digits n = (if n < 10 then [char_of (48 + n)] else digits (n div 10) @ [char_of (48 + n mod 10)])"

declare digits.simps [simp del]

text \<open>\<open>path_str\<close> is the \<open>Display\<close> of a derivation path.\<close>

definition is_default_multipath :: "(deriv_path \<Rightarrow> string) \<Rightarrow> deriv_path list \<Rightarrow> wildcard \<Rightarrow> bool" where
  "is_default_multipath path_str paths wildcard \<longleftrightarrow>
     wildcard = Wildcard_Unhardened \<and> length paths = 2 \<and>
     path_str (paths ! 0) = digits RECEIVE_INDEX \<and> path_str (paths ! 1) = digits CHANGE_INDEX"

fun join_paths :: "(deriv_path \<Rightarrow> string) \<Rightarrow> deriv_path list \<Rightarrow> string" where
  "join_paths path_str [] = ''''"
| "join_paths path_str [p] = path_str p"
| "join_paths path_str (p # ps) = path_str p @ '';'' @ join_paths path_str ps"

definition bip388_key_fmt :: "(deriv_path \<Rightarrow> string) \<Rightarrow> bip388_key \<Rightarrow> (unit, string) outcome" where
  "bip388_key_fmt path_str k =
     (let paths = bk_derivation_paths k; head = ''@'' @ digits (unat (bk_index k)) in
      andThen (case bk_wildcard k of Wildcard_None \<Rightarrow> Err ()
        | Wildcard_Unhardened \<Rightarrow> Ok ''*'' | Wildcard_Hardened \<Rightarrow> Ok ''*h'') (\<lambda>star.
      if is_default_multipath path_str paths (bk_wildcard k) then Ok (head @ ''/**'')
      else if length paths = 1 then Ok (head @ ''/'' @ path_str (paths ! 0) @ ''/'' @ star)
      else Ok (head @ ''/<'' @ join_paths path_str paths @ ''>/'' @ star)))"

text \<open>\<open>u32::from_str\<close>: an optional plus sign, digits, no overflow.\<close>

definition digit_of :: "char \<Rightarrow> nat option" where
  "digit_of c = (let n = of_char c in if 48 \<le> n \<and> n \<le> (57 :: nat) then Some (n - 48) else None)"

fun parse_digits :: "string \<Rightarrow> nat \<Rightarrow> nat option" where
  "parse_digits [] acc = Some acc"
| "parse_digits (c # cs) acc =
     (case digit_of c of None \<Rightarrow> None
      | Some d \<Rightarrow> if 10 * acc + d < 2 ^ 32 then parse_digits cs (10 * acc + d) else None)"

definition parse_u32 :: "string \<Rightarrow> u32 option" where
  "parse_u32 s =
     (if s = '''' \<or> s = ''+'' then None
      else map_option word_of_nat (parse_digits (if hd s = CHR ''+'' then tl s else s) 0))"

definition DEFAULT_MULTIPATH :: string where
  "DEFAULT_MULTIPATH = ''/<0;1>/*''"

text \<open>\<open>parse_key\<close> is miniscript's parser of key expressions, \<open>xpub\<close> the constant it is given.\<close>

definition parse_suffix ::
  "(string \<Rightarrow> ('pk, 'x) dpk option) \<Rightarrow> string \<Rightarrow> string \<Rightarrow> (unit, deriv_path list \<times> wildcard) outcome" where
  "parse_suffix parse_key xpub suffix =
     (let suffix = (if suffix = ''/**'' then DEFAULT_MULTIPATH else suffix) in
      andThen (ok_or () (parse_key (xpub @ suffix))) (\<lambda>dpk.
      andThen (case dpk of
          DXPub origin xkey derivation_path w \<Rightarrow> Ok ([derivation_path], w)
        | DMultiXPub origin xkey derivation_paths w \<Rightarrow> Ok (derivation_paths, w)
        | DSingle origin key \<Rightarrow> Err ()) (\<lambda>(paths, w).
      if w = Wildcard_None then Err ()
      else
        andThen (ok_or () (deriv_paths_new paths)) (\<lambda>derivation_paths.
        Ok (derivation_paths, w)))))"

definition bip388_key_from_str ::
  "(string \<Rightarrow> ('pk, 'x) dpk option) \<Rightarrow> string \<Rightarrow> string \<Rightarrow> (unit, bip388_key) outcome" where
  "bip388_key_from_str parse_key xpub s =
     (if s = '''' \<or> hd s \<noteq> CHR ''@'' then Err ()
      else
        (let rest = tl s; ds = takeWhile (\<lambda>c. c \<noteq> CHR ''/'') rest; suffix = dropWhile (\<lambda>c. c \<noteq> CHR ''/'') rest in
         if suffix = '''' then Err ()
         else
           andThen (ok_or () (parse_u32 ds)) (\<lambda>index.
           andThen (parse_suffix parse_key xpub suffix) (\<lambda>(derivation_paths, w).
           Ok \<lparr>bk_index = index, bk_derivation_paths = derivation_paths, bk_wildcard = w\<rparr>))))"

section \<open>The key vector\<close>

fun policy_key_root :: "('pk, 'x) dpk \<Rightarrow> ('pk, 'x) dpk bip" where
  "policy_key_root (DXPub origin xkey path w) = Ok (DXPub origin xkey (DerivationPath []) Wildcard_None)"
| "policy_key_root (DMultiXPub origin xkey paths w) = Ok (DXPub origin xkey (DerivationPath []) Wildcard_None)"
| "policy_key_root (DSingle origin key) = Err B_WalletPolicy"

definition key_suffix :: "('pk, 'x) dpk \<Rightarrow> (deriv_path list \<times> wildcard) bip" where
  "key_suffix dpk =
     andThen (case dpk of
         DXPub origin xkey derivation_path w \<Rightarrow> Ok ([derivation_path], w)
       | DMultiXPub origin xkey derivation_paths w \<Rightarrow> Ok (derivation_paths, w)
       | DSingle origin key \<Rightarrow> Err B_WalletPolicy) (\<lambda>(paths, w).
     if w = Wildcard_None then Err B_WalletPolicy
     else
       andThen (ok_or B_WalletPolicy (deriv_paths_new paths)) (\<lambda>derivation_paths.
       Ok (derivation_paths, w)))"

type_synonym ('pk, 'x) key_set = "('pk, 'x) dpk list"

fun position :: "'a \<Rightarrow> 'a list \<Rightarrow> nat option" where
  "position x [] = None"
| "position x (y # ys) = (if x = y then Some 0 else map_option Suc (position x ys))"

definition placeholder ::
  "('pk, 'x) key_set \<Rightarrow> ('pk, 'x) dpk \<Rightarrow> (bip388_key \<times> ('pk, 'x) key_set) bip" where
  "placeholder ks dpk =
     andThen (policy_key_root dpk) (\<lambda>root.
     let (i, ks) = (case position root ks of Some i \<Rightarrow> (i, ks) | None \<Rightarrow> (length ks, ks @ [root])) in
     andThen (key_suffix dpk) (\<lambda>(derivation_paths, w).
     Ok (\<lparr>bk_index = word_of_nat i, bk_derivation_paths = derivation_paths, bk_wildcard = w\<rparr>, ks)))"

definition resolve :: "('pk, 'x) key_set \<Rightarrow> bip388_key \<Rightarrow> ('pk, 'x) dpk bip" where
  "resolve ks key =
     andThen (if unat (bk_index key) < length ks then Ok (ks ! unat (bk_index key)) else Err B_WalletPolicy) (\<lambda>root.
     andThen (case root of
         DXPub origin xkey path w \<Rightarrow> Ok (origin, xkey)
       | DMultiXPub origin xkey paths w \<Rightarrow> Ok (origin, xkey)
       | DSingle origin key \<Rightarrow> Err B_WalletPolicy) (\<lambda>(origin, xkey).
     let paths = bk_derivation_paths key in
     if length paths = 1 then Ok (DXPub origin xkey (paths ! 0) (bk_wildcard key))
     else Ok (DMultiXPub origin xkey paths (bk_wildcard key))))"

section \<open>Policies\<close>

text \<open>
  Descriptors over keys (\<open>'d\<close>) and over placeholders (\<open>'t\<close>). \<open>visit_keys\<close> lists the keys in the order
  \<open>translate_pk\<close> calls the translator, \<open>assemble\<close> builds the translated descriptor from the results, or
  fails (the \<open>OuterError\<close> of miniscript).
\<close>

record ('pk, 'x, 'd, 't) miniscript =
  descr_keys :: "'d \<Rightarrow> ('pk, 'x) dpk list"
  visit_keys :: "'d \<Rightarrow> ('pk, 'x) dpk list"
  assemble :: "'d \<Rightarrow> bip388_key list \<Rightarrow> 't option"
  template_keys :: "'t \<Rightarrow> bip388_key list"
  visit_template :: "'t \<Rightarrow> bip388_key list"
  assemble_back :: "'t \<Rightarrow> ('pk, 'x) dpk list \<Rightarrow> 'd option"

record ('pk, 'x, 't) wallet_policy =
  wp_template :: 't
  wp_key_info :: "('pk, 'x) dpk list"

fun check_order :: "bip388_key list \<Rightarrow> u32 \<Rightarrow> bool bip" where
  "check_order [] nxt = Ok True"
| "check_order (k # ks) nxt =
     (if bk_index k = nxt then (if unat nxt + 1 < 2 ^ 32 then check_order ks (nxt + 1) else Panic)
      else if bk_index k < nxt then check_order ks nxt
      else Ok False)"

definition check_key_order :: "('pk, 'x, 'd, 't) miniscript \<Rightarrow> 't \<Rightarrow> unit bip" where
  "check_key_order M template =
     andThen (check_order (template_keys M template) 0) (\<lambda>ordered.
     if ordered then Ok () else Err B_WalletPolicy)"

text \<open>\<open>translate_pk\<close> with the key set as the translator's state.\<close>

fun placeholders ::
  "('pk, 'x) key_set \<Rightarrow> ('pk, 'x) dpk list \<Rightarrow> (bip388_key list \<times> ('pk, 'x) key_set) bip" where
  "placeholders ks [] = Ok ([], ks)"
| "placeholders ks (dpk # dpks) =
     andThen (placeholder ks dpk) (\<lambda>(k, ks).
     andThen (placeholders ks dpks) (\<lambda>(rest, ks).
     Ok (k # rest, ks)))"

definition index_roots :: "('pk, 'x) dpk list \<Rightarrow> ('pk, 'x) key_set" where
  "index_roots dpks =
     fold (\<lambda>dpk ks. case policy_key_root dpk of
         Ok root \<Rightarrow> if \<not> List.member ks root then ks @ [root] else ks
       | _ \<Rightarrow> ks) dpks []"

definition from_descriptor ::
  "('pk, 'x, 'd, 't) miniscript \<Rightarrow> 'd \<Rightarrow> ('pk, 'x, 't) wallet_policy bip" where
  "from_descriptor M d =
     andThen (placeholders (index_roots (descr_keys M d)) (visit_keys M d)) (\<lambda>(ps, ks).
     andThen (ok_or B_WalletPolicy (assemble M d ps)) (\<lambda>template.
     andThen (check_key_order M template) (\<lambda>_.
     Ok \<lparr>wp_template = template, wp_key_info = ks\<rparr>)))"

definition into_descriptor ::
  "('pk, 'x, 'd, 't) miniscript \<Rightarrow> ('pk, 'x, 't) wallet_policy \<Rightarrow> 'd bip" where
  "into_descriptor M wp =
     andThen (check_key_order M (wp_template wp)) (\<lambda>_.
     andThen (collect_results (resolve (wp_key_info wp)) (visit_template M (wp_template wp))) (\<lambda>dpks.
     ok_or B_WalletPolicy (assemble_back M (wp_template wp) dpks)))"

text \<open>\<open>Display\<close> and \<open>FromStr\<close> of a policy go through those of the template, which are miniscript's.\<close>

definition wallet_policy_fmt :: "('t \<Rightarrow> string) \<Rightarrow> ('pk, 'x, 't) wallet_policy \<Rightarrow> string" where
  "wallet_policy_fmt show_template wp = show_template (wp_template wp)"

definition wallet_policy_from_str ::
  "('pk, 'x, 'd, 't) miniscript \<Rightarrow> (string \<Rightarrow> 't option) \<Rightarrow> string \<Rightarrow> ('pk, 'x, 't) wallet_policy bip" where
  "wallet_policy_from_str M parse_template s =
     andThen (ok_or B_WalletPolicy (parse_template s)) (\<lambda>template.
     andThen (check_key_order M template) (\<lambda>_.
     Ok \<lparr>wp_template = template, wp_key_info = []\<rparr>))"

text \<open>The two methods of the backend (\<open>src/backend/rust_miniscript.rs\<close>).\<close>

definition miniscript_to_wallet_policy ::
  "('pk, 'x, 'd, 't) miniscript \<Rightarrow> ('t \<Rightarrow> bytes) \<Rightarrow> 'd \<Rightarrow> (bytes \<times> ('pk, 'x) dpk list) bip" where
  "miniscript_to_wallet_policy M show_template descriptor =
     andThen (from_descriptor M descriptor) (\<lambda>wp.
     Ok (show_template (wp_template wp), wp_key_info wp))"

definition miniscript_from_wallet_policy ::
  "('pk, 'x, 'd, 't) miniscript \<Rightarrow> (bytes \<Rightarrow> 't option) \<Rightarrow> bytes \<Rightarrow> ('pk, 'x) dpk list \<Rightarrow> 'd bip" where
  "miniscript_from_wallet_policy M parse_template template ks =
     andThen (ok_or B_WalletPolicy (parse_template template)) (\<lambda>template.
     into_descriptor M \<lparr>wp_template = template, wp_key_info = ks\<rparr>)"

section \<open>One key\<close>

lemma position_Some: "position x xs = Some i \<Longrightarrow> i < length xs \<and> xs ! i = x"
  by (induction xs arbitrary: i) (auto split: if_splits)

lemma position_None: "position x xs = None \<longleftrightarrow> x \<notin> set xs"
  by (induction xs) auto

lemma position_append: "x \<in> set xs \<Longrightarrow> position x (xs @ ys) = position x xs"
  by (induction xs) auto

lemma position_last: "x \<notin> set xs \<Longrightarrow> position x (xs @ x # ys) = Some (length xs)"
  by (induction xs) auto

text \<open>The keys a policy can hold: with a wildcard, and with several paths if it is multipath.\<close>

fun policy_key :: "('pk, 'x) dpk \<Rightarrow> bool" where
  "policy_key (DSingle origin key) = False"
| "policy_key (DXPub origin xkey path w) = (w \<noteq> Wildcard_None)"
| "policy_key (DMultiXPub origin xkey paths w) = (w \<noteq> Wildcard_None \<and> paths \<noteq> [])"

text \<open>Miniscript builds a multipath key from two paths or more only.\<close>

fun well_built :: "('pk, 'x) dpk \<Rightarrow> bool" where
  "well_built (DMultiXPub origin xkey paths w) = (2 \<le> length paths)"
| "well_built (DXPub origin xkey path w) = True"
| "well_built (DSingle origin key) = True"

lemma key_suffix_Ok_iff: "(\<exists>r. key_suffix k = Ok r) \<longleftrightarrow> policy_key k"
  by (cases k) (auto simp: key_suffix_def deriv_paths_new_def outcome_simps)

lemma policy_key_root_Ok: "policy_key k \<Longrightarrow> \<exists>root. policy_key_root k = Ok root"
  by (cases k) auto

text \<open>A key whose root is in the vector gets the position of the root, and the vector stays.\<close>

definition place :: "('pk, 'x) key_set \<Rightarrow> ('pk, 'x) dpk \<Rightarrow> bip388_key" where
  "place ks k =
     (case (policy_key_root k, key_suffix k) of
        (Ok root, Ok (paths, w)) \<Rightarrow>
          \<lparr>bk_index = word_of_nat (the (position root ks)), bk_derivation_paths = paths, bk_wildcard = w\<rparr>
      | _ \<Rightarrow> \<lparr>bk_index = 0, bk_derivation_paths = [], bk_wildcard = Wildcard_None\<rparr>)"

lemma placeholder_known:
  assumes "\<And>root. policy_key_root k = Ok root \<Longrightarrow> root \<in> set ks"
  shows "placeholder ks k = Ok r \<longleftrightarrow> policy_key k \<and> r = (place ks k, ks)"
proof (cases "policy_key k")
  case True
  then obtain root paths w where root: "policy_key_root k = Ok root" and s: "key_suffix k = Ok (paths, w)"
    using policy_key_root_Ok key_suffix_Ok_iff by (metis surj_pair)
  then obtain i where "position root ks = Some i" using assms position_None by fastforce
  then show ?thesis using root s True by (auto simp: placeholder_def place_def)
next
  case False
  then have "key_suffix k \<noteq> Ok x" for x using key_suffix_Ok_iff by blast
  with False show ?thesis by (auto simp: placeholder_def outcome_simps split: prod.splits)
qed

lemma unat_u32_of_nat: "i < 2 ^ 32 \<Longrightarrow> unat (word_of_nat i :: u32) = i"
  by (simp add: unat_of_nat)

lemma resolve_place:
  assumes k: "policy_key k" "well_built k" and root: "policy_key_root k = Ok root" "root \<in> set ks"
    and small: "length ks < 2 ^ 32"
  shows "resolve ks (place ks k) = Ok k"
proof -
  obtain i where i: "position root ks = Some i" using root position_None by fastforce
  from position_Some [OF i] have "i < length ks" "ks ! i = root" by auto
  moreover have "unat (word_of_nat i :: u32) = i"
    using \<open>i < length ks\<close> small by (intro unat_u32_of_nat) simp
  moreover from k(1) root(1) obtain origin xkey where "root = DXPub origin xkey (DerivationPath []) Wildcard_None"
    and "\<exists>paths w. k = DXPub origin xkey paths w \<or> (\<exists>ps. k = DMultiXPub origin xkey ps w)"
    by (cases k) auto
  ultimately show ?thesis
    using k root(1) i
    by (auto simp: resolve_def place_def key_suffix_def deriv_paths_new_def)
qed

section \<open>The key vector in order of appearance\<close>

lemma index_roots_snoc:
  "index_roots (ks @ [k]) =
     (case policy_key_root k of Ok root \<Rightarrow>
        if root \<in> set (index_roots ks) then index_roots ks else index_roots ks @ [root]
      | _ \<Rightarrow> index_roots ks)"
  by (simp add: index_roots_def split: outcome.split)

lemma set_index_roots: "root \<in> set (index_roots ks) \<longleftrightarrow> (\<exists>k \<in> set ks. policy_key_root k = Ok root)"
proof (induction ks rule: rev_induct)
  case Nil
  then show ?case by (simp add: index_roots_def)
next
  case (snoc k ks)
  then show ?case by (cases "policy_key_root k") (auto simp: index_roots_snoc)
qed

lemma distinct_index_roots: "distinct (index_roots ks)"
proof (induction ks rule: rev_induct)
  case Nil
  then show ?case by (simp add: index_roots_def)
next
  case (snoc k ks)
  then show ?case by (cases "policy_key_root k") (auto simp: index_roots_snoc)
qed

lemma length_index_roots: "length (index_roots ks) \<le> length ks"
proof (induction ks rule: rev_induct)
  case (snoc k ks)
  then show ?case by (cases "policy_key_root k") (auto simp: index_roots_snoc)
qed (simp add: index_roots_def)

lemma index_roots_prefix: "\<exists>more. index_roots (ks @ ls) = index_roots ks @ more"
proof (induction ls rule: rev_induct)
  case (snoc l ls)
  then obtain more where m: "index_roots (ks @ ls) = index_roots ks @ more" by blast
  show ?case
    using m index_roots_snoc [of "ks @ ls" l] by (cases "policy_key_root l") auto
qed simp

text \<open>The numbers of a descriptor's own placeholders pass the order check.\<close>

lemma check_order_appearance:
  assumes "list_all policy_key (seen @ rest)" "length (seen @ rest) < 2 ^ 32 - 1"
  shows "check_order (map (place (index_roots (seen @ rest))) rest)
    (word_of_nat (length (index_roots seen))) = Ok True"
  using assms
proof (induction rest arbitrary: seen)
  case (Cons k rest)
  let ?all = "index_roots (seen @ k # rest)" and ?n = "length (index_roots seen)"
  from Cons.prems obtain root paths w where root: "policy_key_root k = Ok root" and s: "key_suffix k = Ok (paths, w)"
    using policy_key_root_Ok [of k] key_suffix_Ok_iff [of k] by fastforce
  have n: "?n < 2 ^ 32 - 1" using length_index_roots [of seen] Cons.prems(2) by simp
  then have un: "unat (word_of_nat ?n :: u32) = ?n" by (intro unat_u32_of_nat) simp
  obtain more where more: "?all = index_roots (seen @ [k]) @ more"
    using index_roots_prefix [of "seen @ [k]" rest] by auto
  have IH: "check_order (map (place ?all) rest) (word_of_nat (length (index_roots (seen @ [k])))) = Ok True"
    using Cons.IH [of "seen @ [k]"] Cons.prems by simp
  have idx: "bk_index (place ?all k) = word_of_nat (the (position root ?all))"
    using root s by (simp add: place_def)
  show ?case
  proof (cases "root \<in> set (index_roots seen)")
    case True
    then have d: "index_roots (seen @ [k]) = index_roots seen" using root by (simp add: index_roots_snoc)
    with more True have "position root ?all = position root (index_roots seen)" by (simp add: position_append)
    moreover from True obtain i where i: "position root (index_roots seen) = Some i"
      using position_None by fastforce
    ultimately have bi: "bk_index (place ?all k) = word_of_nat i" and lt: "i < ?n"
      using idx position_Some [OF i] by auto
    have "unat (word_of_nat i :: u32) = i" using lt n by (intro unat_u32_of_nat) simp
    then have "bk_index (place ?all k) < word_of_nat ?n" using bi lt by (simp add: word_less_nat_alt un)
    with IH d show ?thesis by auto
  next
    case False
    then have d: "index_roots (seen @ [k]) = index_roots seen @ [root]" using root by (simp add: index_roots_snoc)
    with more False have "position root ?all = Some ?n" by (simp add: position_last)
    then have "bk_index (place ?all k) = word_of_nat ?n" using idx by simp
    moreover have "unat (word_of_nat ?n :: u32) + 1 < 2 ^ 32" using n un by simp
    ultimately show ?thesis using IH d by (simp add: add.commute)
  qed
qed simp

section \<open>Descriptors and policies\<close>

lemma placeholders_known:
  assumes "\<And>k root. k \<in> set vs \<Longrightarrow> policy_key_root k = Ok root \<Longrightarrow> root \<in> set ks"
  shows "placeholders ks vs = Ok r \<longleftrightarrow> list_all policy_key vs \<and> r = (map (place ks) vs, ks)"
  using assms
proof (induction vs arbitrary: r)
  case (Cons v vs)
  have v: "placeholder ks v = Ok x \<longleftrightarrow> policy_key v \<and> x = (place ks v, ks)" for x
    by (rule placeholder_known) (use Cons.prems in auto)
  have vs: "placeholders ks vs = Ok x \<longleftrightarrow> list_all policy_key vs \<and> x = (map (place ks) vs, ks)" for x
    by (rule Cons.IH) (use Cons.prems in auto)
  show ?case by (auto simp: outcome_simps v vs)
qed auto

text \<open>
  What a translation promises: it visits every key once, in some order, the template has the translated
  keys at the same places, and translating back with the original keys gives the original.
\<close>

definition translates :: "('pk, 'x, 'd, 't) miniscript \<Rightarrow> 'd \<Rightarrow> bool" where
  "translates M d \<longleftrightarrow>
     set (visit_keys M d) = set (descr_keys M d) \<and>
     (\<forall>f t. assemble M d (map f (visit_keys M d)) = Some t \<longrightarrow>
        template_keys M t = map f (descr_keys M d) \<and>
        visit_template M t = map f (visit_keys M d) \<and>
        assemble_back M t (visit_keys M d) = Some d)"

lemma from_descriptor_Ok:
  assumes tr: "translates M d" and small: "length (descr_keys M d) < 2 ^ 32 - 1"
  shows "from_descriptor M d = Ok wp \<longleftrightarrow>
    list_all policy_key (descr_keys M d) \<and>
    assemble M d (map (place (index_roots (descr_keys M d))) (visit_keys M d)) = Some (wp_template wp) \<and>
    wp_key_info wp = index_roots (descr_keys M d)"
proof -
  let ?ks = "descr_keys M d" and ?vs = "visit_keys M d"
  have sets: "set ?vs = set ?ks" using tr by (simp add: translates_def)
  have "placeholders (index_roots ?ks) ?vs = Ok r \<longleftrightarrow>
      list_all policy_key ?ks \<and> r = (map (place (index_roots ?ks)) ?vs, index_roots ?ks)" for r
    using placeholders_known [of ?vs "index_roots ?ks" r] sets by (auto simp: set_index_roots list_all_iff)
  moreover have "check_key_order M t = Ok ()"
    if "list_all policy_key ?ks" "assemble M d (map (place (index_roots ?ks)) ?vs) = Some t" for t
  proof -
    have "template_keys M t = map (place (index_roots ?ks)) ?ks" using tr that(2) unfolding translates_def by blast
    with check_order_appearance [of "[]" ?ks] that(1) small show ?thesis
      by (simp add: check_key_order_def index_roots_def)
  qed
  ultimately show ?thesis
    by (cases wp) (auto simp: from_descriptor_def outcome_simps)
qed

text \<open>A descriptor comes back from its own policy, whatever the order of the translations.\<close>

lemma policy_of_descriptor_returns:
  assumes tr: "translates M d" and small: "length (descr_keys M d) < 2 ^ 32 - 1"
    and wb: "list_all well_built (descr_keys M d)" and wp: "from_descriptor M d = Ok wp"
  shows "into_descriptor M wp = Ok d"
proof -
  let ?ks = "descr_keys M d" and ?vs = "visit_keys M d"
  let ?p = "place (index_roots ?ks)"
  from wp from_descriptor_Ok [OF tr small] have pk: "list_all policy_key ?ks"
    and t: "assemble M d (map ?p ?vs) = Some (wp_template wp)" and info: "wp_key_info wp = index_roots ?ks" by auto
  from tr t have tk: "template_keys M (wp_template wp) = map ?p ?ks"
    and vt: "visit_template M (wp_template wp) = map ?p ?vs"
    and ab: "assemble_back M (wp_template wp) ?vs = Some d" and sets: "set ?vs = set ?ks"
    unfolding translates_def by blast+
  have "check_key_order M (wp_template wp) = Ok ()"
    using check_order_appearance [of "[]" ?ks] pk small tk by (simp add: check_key_order_def index_roots_def)
  moreover have "collect_results (resolve (index_roots ?ks)) (map ?p ?vs) = Ok ?vs"
  proof -
    have "resolve (index_roots ?ks) (?p k) = Ok k" if "k \<in> set ?vs" for k
    proof -
      from that sets pk wb have k: "k \<in> set ?ks" "policy_key k" "well_built k" by (auto simp: list_all_iff)
      from policy_key_root_Ok [OF k(2)] obtain root where r: "policy_key_root k = Ok root" by blast
      with k(1) have "root \<in> set (index_roots ?ks)" by (auto simp: set_index_roots)
      moreover have "length (index_roots ?ks) < 2 ^ 32" using length_index_roots [of ?ks] small by simp
      ultimately show ?thesis using resolve_place k r by blast
    qed
    then have "list_all2 (\<lambda>x y. resolve (index_roots ?ks) x = Ok y) (map ?p ?vs) ?vs"
      by (simp add: list_all2_conv_all_nth)
    then show ?thesis by (simp add: collect_results_Ok_iff)
  qed
  ultimately show ?thesis using ab by (simp add: into_descriptor_def vt info)
qed

text \<open>A literal key, or a key without a wildcard, has no policy.\<close>

lemma from_descriptor_refuses:
  assumes "translates M d" "length (descr_keys M d) < 2 ^ 32 - 1"
    and "k \<in> set (descr_keys M d)" "\<not> policy_key k"
  shows "from_descriptor M d \<noteq> Ok wp"
  using assms by (auto simp: from_descriptor_Ok list_all_iff)

section \<open>Rebuilding returns\<close>

text \<open>
  The order check counts the placeholders it has seen in a \<open>u32\<close>, and panics when the count overflows; that
  takes a template of \<open>2 ^ 32\<close> keys, which would be a text of many gigabytes.
\<close>

definition bounded_templates :: "('pk, 'x, 'd, 't) miniscript \<Rightarrow> (bytes \<Rightarrow> 't option) \<Rightarrow> bool" where
  "bounded_templates M parse_template \<longleftrightarrow>
     (\<forall>text template. parse_template text = Some template \<longrightarrow> length (template_keys M template) < 2 ^ 32)"

lemma check_order_returns:
  "length ks + unat nxt < 2 ^ 32 \<Longrightarrow> check_order ks nxt \<noteq> Panic \<and> check_order ks nxt \<noteq> Diverges"
proof (induction ks arbitrary: nxt)
  case (Cons k ks)
  have "unat (nxt + 1) = unat nxt + 1" if "unat nxt + 1 < 2 ^ 32"
    using that by (simp add: unat_word_ariths)
  with Cons show ?case by auto
qed simp

lemma resolve_returns: "resolve ks k \<noteq> Panic \<and> resolve ks k \<noteq> Diverges"
  by (auto simp: resolve_def outcome_simps Let_def split: dpk.splits if_splits)

lemma into_descriptor_returns:
  assumes "length (template_keys M (wp_template wp)) < 2 ^ 32"
  shows "into_descriptor M wp \<noteq> Panic \<and> into_descriptor M wp \<noteq> Diverges"
proof -
  have "collect_results (resolve ks) bks \<noteq> Panic \<and> collect_results (resolve ks) bks \<noteq> Diverges" for ks bks
    by (induction bks) (auto simp: outcome_simps resolve_returns)
  then show ?thesis
    using check_order_returns [of "template_keys M (wp_template wp)" 0] assms
    by (auto simp: into_descriptor_def check_key_order_def outcome_simps split: if_splits)
qed

lemma from_wallet_policy_returns:
  assumes "bounded_templates M parse_template"
  shows "miniscript_from_wallet_policy M parse_template t ks \<noteq> Panic \<and>
    miniscript_from_wallet_policy M parse_template t ks \<noteq> Diverges"
  using assms into_descriptor_returns [of M "\<lparr>wp_template = template, wp_key_info = ks\<rparr>" for template]
  by (auto simp: miniscript_from_wallet_policy_def bounded_templates_def outcome_simps)

lemma bip388_key_from_str_returns:
  "bip388_key_from_str parse_key xpub s \<noteq> Panic \<and> bip388_key_from_str parse_key xpub s \<noteq> Diverges"
  by (auto simp: bip388_key_from_str_def parse_suffix_def outcome_simps Let_def split: if_splits dpk.splits)

section \<open>Text of a placeholder\<close>

text \<open>A wildcard right after the key (\<open>xpub/*\<close>) has an empty path: the template repeats the slash.\<close>

lemma fmt_empty_path:
  "path_str (DerivationPath []) = '''' \<Longrightarrow>
   bip388_key_fmt path_str \<lparr>bk_index = 0, bk_derivation_paths = [DerivationPath []], bk_wildcard = Wildcard_Unhardened\<rparr> =
     Ok ''@0//*''"
  by (simp add: bip388_key_fmt_def is_default_multipath_def digits.simps char_of_def bit_0)

lemma parse_u32_sign: "parse_u32 ''+0'' = parse_u32 ''0''"
  by (simp add: parse_u32_def)

section \<open>Properties\<close>

text \<open>
  C29. A descriptor comes back from its own wallet policy, whatever the order in which the library visits
  the keys: the placeholders resolve to the keys they stand for. Asked of miniscript: a translation
  visits every key, and translating back with the original keys gives the original.
\<close>

theorem wallet_policy_roundtrip:
  assumes "translates M d" "length (descr_keys M d) < 2 ^ 32 - 1" "list_all well_built (descr_keys M d)"
    and "from_descriptor M d = Ok wp"
  shows "into_descriptor M wp = Ok d"
  using assms by (rule policy_of_descriptor_returns)

text \<open>A descriptor that is its list of keys, visited from the last to the first.\<close>

definition reversing :: "(nat, nat, (nat, nat) dpk list, bip388_key list) miniscript" where
  "reversing = \<lparr>descr_keys = (\<lambda>d. d), visit_keys = rev, assemble = (\<lambda>d ks. Some (rev ks)),
     template_keys = (\<lambda>t. t), visit_template = rev, assemble_back = (\<lambda>t ks. Some (rev ks))\<rparr>"

definition two_keys :: "(nat, nat) dpk list" where
  "two_keys = [DXPub None 5 (DerivationPath [0]) Wildcard_Unhardened,
               DMultiXPub None 6 [DerivationPath [0], DerivationPath [1]] Wildcard_Unhardened]"

lemma reversing_translates: "translates reversing d"
  by (simp add: translates_def reversing_def rev_map)

theorem wallet_policy_roundtrip_witness:
  "\<exists>wp. from_descriptor reversing two_keys = Ok wp \<and> into_descriptor reversing wp = Ok two_keys \<and>
     map bk_index (wp_template wp) = [0, 1]"
proof -
  have l: "length (descr_keys reversing two_keys) < 2 ^ 32 - 1" "list_all well_built (descr_keys reversing two_keys)"
    by (simp_all add: reversing_def two_keys_def)
  let ?ks = "index_roots two_keys"
  have ks: "?ks = [DXPub None 5 (DerivationPath []) Wildcard_None, DXPub None 6 (DerivationPath []) Wildcard_None]"
    by (simp add: index_roots_def two_keys_def)
  let ?wp = "\<lparr>wp_template = map (place ?ks) two_keys, wp_key_info = ?ks\<rparr>"
  have "from_descriptor reversing two_keys = Ok ?wp"
    using from_descriptor_Ok [OF reversing_translates l(1), of ?wp]
    by (simp add: reversing_def rev_map two_keys_def)
  moreover from wallet_policy_roundtrip [OF reversing_translates l this] have "into_descriptor reversing ?wp = Ok two_keys" .
  moreover have "map bk_index (wp_template ?wp) = [0, 1]"
    unfolding ks by (simp add: two_keys_def place_def key_suffix_def deriv_paths_new_def)
  ultimately show ?thesis by (intro exI [of _ ?wp] conjI)
qed

text \<open>
  Which descriptors have a wallet policy: those all of whose keys are extended keys with a wildcard,
  when miniscript can assemble the template. The key vector then holds the roots of the keys, each once,
  in the order of the descriptor.
\<close>

theorem wallet_policy_exists:
  assumes "translates M d" "length (descr_keys M d) < 2 ^ 32 - 1"
  shows "from_descriptor M d = Ok wp \<longleftrightarrow>
    list_all policy_key (descr_keys M d) \<and>
    assemble M d (map (place (index_roots (descr_keys M d))) (visit_keys M d)) = Some (wp_template wp) \<and>
    wp_key_info wp = index_roots (descr_keys M d)"
  using assms by (rule from_descriptor_Ok)

theorem wallet_policy_exists_witness:
  "\<forall>wp. from_descriptor reversing [DXPub None 5 (DerivationPath [0]) Wildcard_None] \<noteq> Ok wp"
  using wallet_policy_exists [OF reversing_translates, of "[DXPub None 5 (DerivationPath [0]) Wildcard_None]"]
  by (simp add: reversing_def)

end
