(* ===== verification/Policy_Backup.thy ===== *)
theory Policy_Backup
  imports Descriptor_Backup Wallet_Policy
begin

text \<open>
  Wallet policy documents (\<open>src/policy_backup.rs\<close>): the two JSON forms, their validation and what they
  contribute to a backup. The JSON reader and writer are serde's, rebuilding a descriptor from a
  template is the backend's; the layout of the JSON is in theory \<open>Policy_Json\<close>. Shown: which documents
  are accepted, and that only a validated policy seeds the encryption keys.
\<close>

section \<open>Documents\<close>

record 'dk policy_set =
  ps_keys :: "'dk list"
  ps_policy :: bytes
  ps_archived :: bool
  ps_range :: "(u32 \<times> u32) option"
  ps_birth_time :: "u64 option"

record 'dk policy_backup =
  pb_version :: u32
  pb_policy_sets :: "'dk policy_set list"

text \<open>\<open>serde_json\<close> at these types; \<open>'v\<close> is a JSON value, \<open>value_object\<close> the keys of an object.\<close>

record ('v, 'dk) policy_json =
  json_to_value :: "bytes \<Rightarrow> 'v option"
  value_object :: "'v \<Rightarrow> string set option"
  value_to_policy_backup :: "'v \<Rightarrow> 'dk policy_backup option"
  value_to_policy_set :: "'v \<Rightarrow> 'dk policy_set option"
  policy_backup_to_json :: "'dk policy_backup \<Rightarrow> bytes option"
  policy_set_to_json :: "'dk policy_set \<Rightarrow> bytes option"

definition is_bare :: "'dk policy_set \<Rightarrow> bool" where
  "is_bare s \<longleftrightarrow> \<not> ps_archived s \<and> ps_range s = None \<and> ps_birth_time s = None"

text \<open>\<open>rfind\<close>: the position of the last occurrence.\<close>

fun rfind :: "u8 \<Rightarrow> bytes \<Rightarrow> nat option" where
  "rfind c [] = None"
| "rfind c (b # bs) =
     (case rfind c bs of Some i \<Rightarrow> Some (Suc i) | None \<Rightarrow> if b = c then Some 0 else None)"

definition policy_set_from_descriptor :: "('pk, 'dk, 'd) backend \<Rightarrow> 'd \<Rightarrow> 'dk policy_set bip" where
  "policy_set_from_descriptor B d =
     andThen (to_wallet_policy B d) (\<lambda>(policy, keys).
     let policy = (case rfind 0x23 policy of None \<Rightarrow> policy | Some pos \<Rightarrow> take pos policy) in
     Ok \<lparr>ps_keys = keys, ps_policy = policy, ps_archived = False, ps_range = None, ps_birth_time = None\<rparr>)"

definition policy_set_to_descriptor :: "('pk, 'dk, 'd) backend \<Rightarrow> 'dk policy_set \<Rightarrow> 'd bip" where
  "policy_set_to_descriptor B s = from_wallet_policy B (ps_policy s) (ps_keys s)"

fun is_literal :: "'pk key_expr \<Rightarrow> bool" where
  "is_literal (Literal xo path) = True"
| "is_literal (XPub root path derived multipath) = False"

fun validate_policy_sets :: "('pk, 'dk, 'd) backend \<Rightarrow> 'dk policy_set list \<Rightarrow> unit bip" where
  "validate_policy_sets B [] = Ok ()"
| "validate_policy_sets B (s # sets) =
     (if ps_keys s = [] \<or> ps_policy s = [] then Err B_DescriptorBackup
      else if list_ex (\<lambda>k. is_literal (classify B k)) (ps_keys s) then Err B_DescriptorBackup
      else
        andThen (map_err (\<lambda>_. B_DescriptorBackup) (policy_set_to_descriptor B s)) (\<lambda>_.
        validate_policy_sets B sets))"

definition validate_policy :: "('pk, 'dk, 'd) backend \<Rightarrow> 'dk policy_backup \<Rightarrow> unit bip" where
  "validate_policy B backup =
     (if pb_version backup \<noteq> VERSION \<or> pb_policy_sets backup = [] then Err B_DescriptorBackup
      else validate_policy_sets B (pb_policy_sets backup))"

definition parse_policy_backup ::
  "('pk, 'dk, 'd) backend \<Rightarrow> ('v, 'dk) policy_json \<Rightarrow> bytes \<Rightarrow> 'dk policy_backup bip" where
  "parse_policy_backup B J bs =
     (if \<not> utf8_valid bs then Err B_Utf8
      else if \<not> starts_with bs [0x7B] then Err B_DescriptorBackup
      else
        andThen (ok_or B_DescriptorBackup (json_to_value J bs)) (\<lambda>value.
        andThen (ok_or B_DescriptorBackup (value_object J value)) (\<lambda>object.
        andThen
          (if ''policy_sets'' \<in> object then ok_or B_DescriptorBackup (value_to_policy_backup J value)
           else if ''policy'' \<in> object then
             andThen (ok_or B_DescriptorBackup (value_to_policy_set J value)) (\<lambda>s.
             Ok \<lparr>pb_version = VERSION, pb_policy_sets = [s]\<rparr>)
           else Err B_DescriptorBackup) (\<lambda>backup.
        andThen (validate_policy B backup) (\<lambda>_.
        Ok backup)))))"

definition key_root :: "('pk, 'dk, 'd) backend \<Rightarrow> 'dk \<Rightarrow> 'pk bip" where
  "key_root B key = map_err (\<lambda>_. B_DescriptorBackup) (dpk_to_root_pk B key)"

definition policy_to_json :: "('v, 'dk) policy_json \<Rightarrow> 'dk policy_backup \<Rightarrow> bytes bip" where
  "policy_to_json J backup = ok_or B_DescriptorBackup (policy_backup_to_json J backup)"

definition is_single :: "'dk policy_backup \<Rightarrow> bool" where
  "is_single backup \<longleftrightarrow> pb_version backup = VERSION \<and> length (pb_policy_sets backup) = 1 \<and>
     is_bare (pb_policy_sets backup ! 0)"

definition to_single_json :: "('v, 'dk) policy_json \<Rightarrow> 'dk policy_backup \<Rightarrow> bytes bip" where
  "to_single_json J backup =
     andThen (index_at (pb_policy_sets backup) 0) (\<lambda>s.
     ok_or B_DescriptorBackup (policy_set_to_json J s))"

definition all_keys :: "'dk policy_backup \<Rightarrow> 'dk list" where
  "all_keys backup = concat (map ps_keys (pb_policy_sets backup))"

definition policy_payload :: "('v, 'dk) policy_json \<Rightarrow> 'dk policy_backup \<Rightarrow> bytes bip" where
  "policy_payload J backup = (if is_single backup then to_single_json J backup else policy_to_json J backup)"

fun policy_key_paths ::
  "('pk::linorder, 'dk, 'd) backend \<Rightarrow> 'dk list \<Rightarrow> ('pk \<times> deriv_path) list \<Rightarrow> ('pk \<times> deriv_path) list bip" where
  "policy_key_paths B [] key_paths = Ok key_paths"
| "policy_key_paths B (key # ks) key_paths =
     (case dpk_to_deriv_path B key of
        Some path \<Rightarrow> andThen (key_root B key) (\<lambda>root. policy_key_paths B ks (btree_insert (root, path) key_paths))
      | None \<Rightarrow> policy_key_paths B ks key_paths)"

fun policy_keys :: "('pk::linorder, 'dk, 'd) backend \<Rightarrow> 'dk list \<Rightarrow> 'pk list \<Rightarrow> 'pk list bip" where
  "policy_keys B [] roots = Ok roots"
| "policy_keys B (key # ks) roots =
     andThen (key_root B key) (\<lambda>root. policy_keys B ks (btree_insert root roots))"

fun policy_warnings ::
  "('pk, 'dk, 'd) backend \<Rightarrow> 'dk list \<Rightarrow> ('pk, 'dk) warning list \<Rightarrow> ('pk, 'dk) warning list bip" where
  "policy_warnings B [] warnings = Ok warnings"
| "policy_warnings B (key # ks) warnings =
     andThen (key_root B key) (\<lambda>root.
     policy_warnings B ks
       (if xonly B root = BIP341_NUMS \<and> \<not> List.member warnings (NumsKey key)
        then warnings @ [NumsKey key] else warnings))"

definition policy_backup_item ::
  "('pk::linorder, 'dk, 'd) backend \<Rightarrow> ('v, 'dk) policy_json \<Rightarrow> 'dk policy_backup \<Rightarrow> ('pk, 'dk) to_payload" where
  "policy_backup_item B J backup = \<lparr>
     tp_payload = policy_payload J backup,
     tp_content_type = Content_Bip388,
     tp_key_paths = policy_key_paths B (all_keys backup) [],
     tp_keys = andThen (validate_policy B backup) (\<lambda>_. policy_keys B (all_keys backup) []),
     tp_warnings = policy_warnings B (all_keys backup) [],
     tp_exposed_keys = default_exposed_keys\<rparr>"

section \<open>Validation\<close>

definition policy_set_valid :: "('pk, 'dk, 'd) backend \<Rightarrow> 'dk policy_set \<Rightarrow> bool" where
  "policy_set_valid B s \<longleftrightarrow> ps_keys s \<noteq> [] \<and> ps_policy s \<noteq> [] \<and>
     (\<forall>k \<in> set (ps_keys s). \<not> is_literal (classify B k)) \<and>
     (\<exists>d. from_wallet_policy B (ps_policy s) (ps_keys s) = Ok d)"

definition policy_valid :: "('pk, 'dk, 'd) backend \<Rightarrow> 'dk policy_backup \<Rightarrow> bool" where
  "policy_valid B backup \<longleftrightarrow> pb_version backup = 1 \<and> pb_policy_sets backup \<noteq> [] \<and>
     (\<forall>s \<in> set (pb_policy_sets backup). policy_set_valid B s)"

lemma validate_policy_sets_Ok:
  "validate_policy_sets B sets = Ok u \<longleftrightarrow> (\<forall>s \<in> set sets. policy_set_valid B s)"
  by (induction sets)
    (auto simp: policy_set_valid_def policy_set_to_descriptor_def outcome_simps list_ex_iff)

lemma validate_policy_Ok: "validate_policy B backup = Ok u \<longleftrightarrow> policy_valid B backup"
  by (auto simp: validate_policy_def policy_valid_def VERSION_def validate_policy_sets_Ok)

lemma parse_policy_backup_Ok:
  "parse_policy_backup B J bs = Ok backup \<longleftrightarrow>
     utf8_valid bs \<and> bs \<noteq> [] \<and> hd bs = 0x7B \<and> policy_valid B backup \<and>
     (\<exists>v object. json_to_value J bs = Some v \<and> value_object J v = Some object \<and>
        (if ''policy_sets'' \<in> object then value_to_policy_backup J v = Some backup
         else ''policy'' \<in> object \<and>
           (\<exists>s. value_to_policy_set J v = Some s \<and> backup = \<lparr>pb_version = 1, pb_policy_sets = [s]\<rparr>)))"
  by (cases bs)
    (auto simp: parse_policy_backup_def outcome_simps validate_policy_Ok starts_with_def VERSION_def
      split: if_splits)

section \<open>What a policy contributes\<close>

lemma key_root_Ok: "key_root B k = Ok pk \<longleftrightarrow> (\<exists>path d multi. classify B k = XPub pk path d multi)"
  by (simp add: key_root_def outcome_simps dpk_to_root_pk_Ok)

lemma key_root_returns [simp]: "key_root B k \<noteq> Panic" "key_root B k \<noteq> Diverges"
  by (auto simp: key_root_def outcome_simps dpk_to_root_pk_def split: key_expr.splits)

lemma policy_keys_Ok:
  "policy_keys B ks acc = Ok r \<Longrightarrow>
   set r = set acc \<union> {pk. \<exists>k \<in> set ks. key_root B k = Ok pk} \<and> (\<forall>k \<in> set ks. \<exists>pk. key_root B k = Ok pk)"
proof (induction ks arbitrary: acc)
  case (Cons k ks)
  then obtain pk where pk: "key_root B k = Ok pk" and r: "policy_keys B ks (btree_insert pk acc) = Ok r"
    by (auto simp: outcome_simps)
  from Cons.IH [OF r] pk show ?case by auto
qed simp

lemma policy_key_paths_Ok:
  "policy_key_paths B ks acc = Ok r \<Longrightarrow>
   set r = set acc \<union> {(pk, p). \<exists>k \<in> set ks. key_root B k = Ok pk \<and> dpk_to_deriv_path B k = Some p}"
proof (induction ks arbitrary: acc)
  case (Cons k ks)
  show ?case
  proof (cases "dpk_to_deriv_path B k")
    case None
    with Cons show ?thesis by auto
  next
    case (Some path)
    with Cons.prems obtain pk where pk: "key_root B k = Ok pk"
      and r: "policy_key_paths B ks (btree_insert (pk, path) acc) = Ok r"
      by (auto simp: outcome_simps)
    from Cons.IH [OF r] pk Some show ?thesis by auto
  qed
qed simp

lemma policy_folds_return [simp]:
  "policy_keys B ks acc \<noteq> Panic" "policy_keys B ks acc \<noteq> Diverges"
  "policy_key_paths B ks kps \<noteq> Panic" "policy_key_paths B ks kps \<noteq> Diverges"
  "policy_warnings B ks ws \<noteq> Panic" "policy_warnings B ks ws \<noteq> Diverges"
proof -
  show "policy_keys B ks acc \<noteq> Panic" "policy_keys B ks acc \<noteq> Diverges"
    by (induction ks arbitrary: acc) (auto simp: outcome_simps)
  show "policy_key_paths B ks kps \<noteq> Panic" "policy_key_paths B ks kps \<noteq> Diverges"
    by (induction ks arbitrary: kps) (auto simp: outcome_simps split: option.splits)
  show "policy_warnings B ks ws \<noteq> Panic" "policy_warnings B ks ws \<noteq> Diverges"
    by (induction ks arbitrary: ws) (auto simp: outcome_simps)
qed

definition rebuilds :: "('pk, 'dk, 'd) backend \<Rightarrow> bool" where
  "rebuilds B \<longleftrightarrow> (\<forall>t ks. from_wallet_policy B t ks \<noteq> Panic \<and> from_wallet_policy B t ks \<noteq> Diverges)"

text \<open>The backend of the crate does not panic, as long as miniscript accepts no template of \<open>2 ^ 32\<close> keys.\<close>

lemma miniscript_rebuilds:
  "from_wallet_policy B = miniscript_from_wallet_policy M parse_template \<Longrightarrow> bounded_templates M parse_template \<Longrightarrow>
   rebuilds B"
  by (simp add: rebuilds_def from_wallet_policy_returns)

lemma validate_policy_returns: "rebuilds B \<Longrightarrow> validate_policy B b \<noteq> Panic \<and> validate_policy B b \<noteq> Diverges"
proof -
  assume B: "rebuilds B"
  have "validate_policy_sets B sets \<noteq> Panic \<and> validate_policy_sets B sets \<noteq> Diverges" for sets
    using B by (induction sets) (auto simp: outcome_simps policy_set_to_descriptor_def rebuilds_def)
  then show ?thesis by (simp add: validate_policy_def)
qed

text \<open>Only a validated policy gives keys, and they are the roots of its key vector.\<close>

lemma policy_item_keys:
  assumes "tp_keys (policy_backup_item B J backup) = Ok ks"
  shows "policy_valid B backup \<and>
    set ks = {pk. \<exists>k \<in> set (all_keys backup). \<exists>path d multi. classify B k = XPub pk path d multi}"
  using assms policy_keys_Ok [of B "all_keys backup" "[]" ks]
  by (auto simp: policy_backup_item_def outcome_simps validate_policy_Ok key_root_Ok)

interpretation policy_backup_items: payload_source
  "\<lambda>x :: ('pk::linorder, 'dk) to_payload.
     \<exists>(B :: ('pk, 'dk, 'd) backend) (J :: ('v, 'dk) policy_json) b. rebuilds B \<and> x = policy_backup_item B J b"
proof unfold_locales
  fix x :: "('pk, 'dk) to_payload" and kps ks pk p
  assume x: "\<exists>(B :: ('pk, 'dk, 'd) backend) (J :: ('v, 'dk) policy_json) b. rebuilds B \<and> x = policy_backup_item B J b"
    and r: "tp_key_paths x = Ok kps" "tp_keys x = Ok ks" "(pk, p) \<in> set kps"
  from x obtain B :: "('pk, 'dk, 'd) backend" and J :: "('v, 'dk) policy_json" and b
    where x': "x = policy_backup_item B J b" by blast
  then have "policy_key_paths B (all_keys b) [] = Ok kps" using r by (simp add: policy_backup_item_def)
  from policy_key_paths_Ok [OF this] r(3) obtain k where "k \<in> set (all_keys b)" "key_root B k = Ok pk" by auto
  with policy_item_keys [of B J b ks] r(2) x' show "pk \<in> set ks" by (auto simp: key_root_Ok)
next
  fix x :: "('pk, 'dk) to_payload"
  assume "\<exists>(B :: ('pk, 'dk, 'd) backend) (J :: ('v, 'dk) policy_json) b. rebuilds B \<and> x = policy_backup_item B J b"
  then obtain B :: "('pk, 'dk, 'd) backend" and J :: "('v, 'dk) policy_json" and b
    where B: "rebuilds B" and x: "x = policy_backup_item B J b" by blast
  then show "tp_payload x \<noteq> Panic \<and> tp_payload x \<noteq> Diverges"
    by (auto simp: policy_backup_item_def policy_payload_def to_single_json_def policy_to_json_def
        is_single_def outcome_simps)
  from x show "tp_key_paths x \<noteq> Panic \<and> tp_key_paths x \<noteq> Diverges"
    "tp_warnings x \<noteq> Panic \<and> tp_warnings x \<noteq> Diverges"
    by (simp_all add: policy_backup_item_def)
  from x validate_policy_returns [OF B] show "tp_keys x \<noteq> Panic \<and> tp_keys x \<noteq> Diverges"
    by (auto simp: policy_backup_item_def outcome_simps)
qed

section \<open>Properties\<close>

text \<open>One policy of one key, and a JSON library that knows that document only.\<close>

definition one_policy :: "nat policy_backup" where
  "one_policy = \<lparr>pb_version = 1, pb_policy_sets =
     [\<lparr>ps_keys = [0], ps_policy = [64], ps_archived = False, ps_range = None, ps_birth_time = None\<rparr>]\<rparr>"

definition one_policy_json :: "(unit, nat) policy_json" where
  "one_policy_json = \<lparr>
     json_to_value = (\<lambda>bs. if bs = [0x7B, 0x7D] then Some () else None),
     value_object = (\<lambda>v. Some {''policy''}),
     value_to_policy_backup = (\<lambda>v. None),
     value_to_policy_set = (\<lambda>v. Some (hd (pb_policy_sets one_policy))),
     policy_backup_to_json = (\<lambda>b. None),
     policy_set_to_json = (\<lambda>s. if s = hd (pb_policy_sets one_policy) then Some [0x7B, 0x7D] else None)\<rparr>"

definition one_key_backend :: "(nat, nat, unit) backend" where
  "one_key_backend = \<lparr>xonly = (\<lambda>pk. replicate 32 7), descriptor_keys = (\<lambda>d. [0]),
     classify = (\<lambda>k. XPub k None True False), is_multipath = (\<lambda>d. False),
     to_wallet_policy = (\<lambda>d. Err B_WalletPolicy), from_wallet_policy = (\<lambda>t ks. Ok ()),
     parse_descriptor = (\<lambda>bs. None), show_descriptor = (\<lambda>d. [])\<rparr>"

lemma one_policy_valid: "policy_valid one_key_backend one_policy"
  by (simp add: policy_valid_def policy_set_valid_def one_policy_def one_key_backend_def)

text \<open>
  A policy gives encryption keys only after it has been validated, literal keys refused, and then
  the keys are exactly the roots of its key vectors.
\<close>

theorem policy_keys_validated:
  assumes "tp_keys (policy_backup_item B J backup) = Ok ks"
  shows "policy_valid B backup \<and>
    set ks = {pk. \<exists>k path d multi. k \<in> set (all_keys backup) \<and> classify B k = XPub pk path d multi}"
  using policy_item_keys [OF assms] by auto

theorem policy_keys_validated_witness:
  "tp_keys (policy_backup_item one_key_backend one_policy_json one_policy) = Ok [0] \<and>
   policy_valid one_key_backend one_policy"
proof -
  have "validate_policy one_key_backend one_policy = Ok ()"
    using one_policy_valid by (simp add: validate_policy_Ok)
  then have k: "tp_keys (policy_backup_item one_key_backend one_policy_json one_policy) = Ok [0]"
    by (simp add: policy_backup_item_def all_keys_def one_policy_def key_root_def dpk_to_root_pk_def
        one_key_backend_def)
  with policy_keys_validated [OF k] show ?thesis by simp
qed

end
