(* ===== verification/Backup.thy ===== *)
theory Backup
  imports Policy_Backup
begin

text \<open>
  The backup builder and reader (\<open>EncryptedBackup\<close>, \<open>EncryptedMetadata\<close>, \<open>Payload\<close>, \<open>Decrypted\<close>,
  \<open>Proprietary\<close> of \<open>src/lib.rs\<close>), in the default configuration: \<open>rand\<close>, \<open>base64\<close>, \<open>v0\<close> and
  \<open>descriptor_backup\<close>. The base64 decoder, the crate of the old format, serde and the crypto provider
  are parameters, gathered in \<open>externals\<close>. Shown: no key the payload exposes on chain stays among the
  keys; the stored derivation paths are those of the kept keys; what an encrypted backup reads back as;
  the input formats; the errors of a decryption.
\<close>

section \<open>Third-party code\<close>

datatype v0_error = V0_NoKey | V0_WrongKey | V0_OtherError

datatype 'd v0_decrypted = V0_Descriptor 'd | V0_Policy | V0_Labels | V0_WalletBackup bytes | V0_Raw bytes

text \<open>\<open>ext_v0\<close> is \<open>None\<close> when the old crate refuses the bytes, else what decrypting with the keys gives.\<close>

record ('pk, 'dk, 'd, 'v) externals =
  ext_backend :: "('pk, 'dk, 'd) backend"
  ext_backup_json :: "'d backup_json"
  ext_policy_json :: "('v, 'dk) policy_json"
  ext_base64_decode :: "bytes \<Rightarrow> bytes option"
  ext_v0 :: "bytes \<Rightarrow> 'pk list \<Rightarrow> (v0_error, 'd v0_decrypted) outcome option"
  ext_crypto :: crypto

section \<open>The types\<close>

datatype payload =
    Payload_None
  | Payload_Encrypt bytes
  | Payload_EncryptMany "item list"
  | Payload_DecryptV1 bytes "bytes list" bytes
  | Payload_DecryptV0 bytes

fun payload_is_none :: "payload \<Rightarrow> bool" where
  "payload_is_none Payload_None = True"
| "payload_is_none _ = False"

datatype ('d, 'dk, 'p) decrypted =
    Dec_Descriptor 'd
  | Dec_DescriptorBackup "'d descriptor_backup"
  | Dec_PolicyBackup "'dk policy_backup"
  | Dec_Policy
  | Dec_Labels
  | Dec_WalletBackup bytes
  | Dec_String bytes
  | Dec_Bip138 bytes
  | Dec_Raw bytes
  | Dec_Proprietary 'p

record ('pk, 'dk) encrypted_backup =
  eb_version :: version
  eb_content :: content
  eb_encryption :: encryption
  eb_derivation_paths :: "deriv_path list"
  eb_keys :: "'pk list"
  eb_exposed_keys :: "bytes list"
  eb_key_paths :: "('pk \<times> deriv_path) list"
  eb_payload :: payload
  eb_warnings :: "('pk, 'dk) warning list"
  eb_padding :: padding
  eb_store_common_paths :: bool

record ('pk, 'dk) encrypted =
  enc_bytes :: bytes
  enc_warnings :: "('pk, 'dk) warning list"

record metadata =
  md_version :: version
  md_derivation_paths :: "deriv_path list"
  md_individual_secrets :: "bytes list"
  md_encryption :: encryption
  md_nonce :: bytes
  md_ciphertext_lens :: "nat list"

definition V0_MAGIC :: bytes where
  "V0_MAGIC = ascii ''BEB''"

definition V0_AES_GCM_256 :: u8 where
  "V0_AES_GCM_256 = 1"

section \<open>Building\<close>

definition eb_new :: "('pk, 'dk) encrypted_backup" where
  "eb_new = \<lparr>eb_version = V1, eb_content = Content_Unknown, eb_encryption = ChaCha20Poly1305,
     eb_derivation_paths = [], eb_keys = [], eb_exposed_keys = [], eb_key_paths = [],
     eb_payload = Payload_None, eb_warnings = [], eb_padding = Padding_None, eb_store_common_paths = False\<rparr>"

text \<open>\<open>retain\<close> on the keys, with the warnings it pushes.\<close>

fun retain_keys ::
  "('pk, 'dk, 'd) backend \<Rightarrow> bytes list \<Rightarrow> 'pk list \<Rightarrow> ('pk, 'dk) warning list \<Rightarrow>
   'pk list \<times> ('pk, 'dk) warning list" where
  "retain_keys B exposed [] warnings = ([], warnings)"
| "retain_keys B exposed (key # ks) warnings =
     (if \<not> List.member exposed (xonly B key) then
        (let (kept, warnings) = retain_keys B exposed ks warnings in (key # kept, warnings))
      else
        (let w = ExposedRoot key in
         retain_keys B exposed ks (if List.member warnings w then warnings else warnings @ [w])))"

definition drop_exposed_keys ::
  "('pk, 'dk, 'd) backend \<Rightarrow> ('pk, 'dk) encrypted_backup \<Rightarrow> ('pk, 'dk) encrypted_backup" where
  "drop_exposed_keys B b =
     (let exposed = eb_exposed_keys b;
          (ks, warnings) = retain_keys B exposed (eb_keys b) (eb_warnings b);
          kept = filter (\<lambda>(key, _). \<not> List.member exposed (xonly B key)) (eb_key_paths b);
          dropped = filter (\<lambda>(key, _). List.member exposed (xonly B key)) (eb_key_paths b) in
      b\<lparr>eb_keys := ks, eb_warnings := warnings,
        eb_derivation_paths := filter (\<lambda>path.
          list_ex (\<lambda>(_, p). p = path) kept \<or> \<not> list_ex (\<lambda>(_, p). p = path) dropped)
          (eb_derivation_paths b)\<rparr>)"

definition set_keys ::
  "('pk, 'dk, 'd) backend \<Rightarrow> 'pk list \<Rightarrow> ('pk, 'dk) encrypted_backup \<Rightarrow> ('pk, 'dk) encrypted_backup" where
  "set_keys B ks b = drop_exposed_keys B (b\<lparr>eb_keys := ks\<rparr>)"

definition set_version :: "version \<Rightarrow> ('pk, 'dk) encrypted_backup \<Rightarrow> ('pk, 'dk) encrypted_backup" where
  "set_version v b = b\<lparr>eb_version := v\<rparr>"

definition set_content_type :: "content \<Rightarrow> ('pk, 'dk) encrypted_backup \<Rightarrow> ('pk, 'dk) encrypted_backup" where
  "set_content_type c b = b\<lparr>eb_content := c\<rparr>"

definition set_encryption :: "encryption \<Rightarrow> ('pk, 'dk) encrypted_backup \<Rightarrow> ('pk, 'dk) encrypted_backup" where
  "set_encryption e b = b\<lparr>eb_encryption := e\<rparr>"

definition set_padding :: "padding \<Rightarrow> ('pk, 'dk) encrypted_backup \<Rightarrow> ('pk, 'dk) encrypted_backup" where
  "set_padding p b = b\<lparr>eb_padding := p\<rparr>"

definition set_store_common_paths :: "bool \<Rightarrow> ('pk, 'dk) encrypted_backup \<Rightarrow> ('pk, 'dk) encrypted_backup" where
  "set_store_common_paths s b = b\<lparr>eb_store_common_paths := s\<rparr>"

definition set_derivation_paths ::
  "deriv_path list \<Rightarrow> ('pk, 'dk) encrypted_backup \<Rightarrow> ('pk, 'dk) encrypted_backup" where
  "set_derivation_paths ps b = b\<lparr>eb_derivation_paths := ps\<rparr>"

definition add_key_paths ::
  "('pk \<times> deriv_path) list \<Rightarrow> ('pk, 'dk) encrypted_backup \<Rightarrow> ('pk, 'dk) encrypted_backup" where
  "add_key_paths key_paths b =
     b\<lparr>eb_derivation_paths := eb_derivation_paths b @ map snd key_paths,
       eb_key_paths := eb_key_paths b @ key_paths\<rparr>"

text \<open>The calls both setters make on an item after its payload, in their order.\<close>

definition add_item ::
  "('pk, 'dk) to_payload \<Rightarrow> ('pk, 'dk) encrypted_backup \<Rightarrow> ('pk, 'dk) encrypted_backup bip" where
  "add_item x b =
     andThen (tp_key_paths x) (\<lambda>key_paths. let b = add_key_paths key_paths b in
     andThen (tp_keys x) (\<lambda>ks. let b = b\<lparr>eb_keys := eb_keys b @ ks\<rparr> in
     andThen (tp_warnings x) (\<lambda>ws. let b = b\<lparr>eb_warnings := eb_warnings b @ ws\<rparr> in
     Ok (b\<lparr>eb_exposed_keys := eb_exposed_keys b @ tp_exposed_keys x\<rparr>))))"

definition set_payload ::
  "('pk, 'dk, 'd) backend \<Rightarrow> ('pk, 'dk) to_payload \<Rightarrow> ('pk, 'dk) encrypted_backup \<Rightarrow>
   ('pk, 'dk) encrypted_backup bip" where
  "set_payload B x b =
     andThen (tp_payload x) (\<lambda>payload.
     let b = b\<lparr>eb_payload := Payload_Encrypt payload\<rparr>;
         b = (if content_is_known (tp_content_type x) then b\<lparr>eb_content := tp_content_type x\<rparr> else b) in
     andThen (add_item x b) (\<lambda>b.
     Ok (drop_exposed_keys B b)))"

fun add_payloads ::
  "('pk, 'dk) to_payload list \<Rightarrow> item list \<Rightarrow> ('pk, 'dk) encrypted_backup \<Rightarrow>
   (item list \<times> ('pk, 'dk) encrypted_backup) bip" where
  "add_payloads [] encrypted_payloads b = Ok (encrypted_payloads, b)"
| "add_payloads (x # xs) encrypted_payloads b =
     (let content = tp_content_type x in
      if \<not> content_is_known content then Err B_UnknownContent
      else
        andThen (tp_payload x) (\<lambda>payload.
        andThen (add_item x b) (\<lambda>b.
        add_payloads xs (encrypted_payloads @ [(content, payload)]) b)))"

definition set_payloads ::
  "('pk, 'dk, 'd) backend \<Rightarrow> ('pk, 'dk) to_payload list \<Rightarrow> ('pk, 'dk) encrypted_backup \<Rightarrow>
   ('pk, 'dk) encrypted_backup bip" where
  "set_payloads B xs b =
     andThen (add_payloads xs [] b) (\<lambda>(encrypted_payloads, b).
     let b = drop_exposed_keys B b in
     Ok (b\<lparr>eb_payload := Payload_EncryptMany encrypted_payloads\<rparr>))"

section \<open>Encrypting\<close>

fun is_encrypt_many :: "payload \<Rightarrow> bool" where
  "is_encrypt_many (Payload_EncryptMany ps) = True"
| "is_encrypt_many _ = False"

definition encrypt ::
  "('pk, 'dk, 'd, 'v) externals \<Rightarrow> 's rng \<Rightarrow> 's \<Rightarrow> ('pk, 'dk) encrypted_backup \<Rightarrow>
   (('pk, 'dk) encrypted \<times> 's) bip" where
  "encrypt X fill s b =
     (if eb_content b = Content_Unknown \<and> \<not> is_encrypt_many (eb_payload b) then Err B_UnknownContent
      else if \<not> encryption_is_defined (eb_encryption b) then Err B_EncryptionUndefined
      else if \<not> version_is_valid (eb_version b) then Err B_InvalidVersion
      else
        (let warnings = eb_warnings b;
             keys = map (xonly (ext_backend X)) (eb_keys b);
             derivation_paths = map to_ll_path (eb_derivation_paths b) in
         if (eb_encryption b, eb_version b) = (ChaCha20Poly1305, V1) then
           andThen
             (case eb_payload b of
                Payload_Encrypt payload \<Rightarrow>
                  if keys = [] then Err B_DescriptorHasNoKeys
                  else from_ll (encrypt_chacha20_poly1305_v1 (ext_crypto X) fill s derivation_paths
                    (eb_store_common_paths b) (eb_content b) keys payload (eb_padding b))
              | Payload_EncryptMany payloads \<Rightarrow>
                  if keys = [] then Err B_DescriptorHasNoKeys
                  else from_ll (encrypt_chacha20_poly1305_v1_items (ext_crypto X) fill s derivation_paths
                    (eb_store_common_paths b) payloads keys (eb_padding b))
              | _ \<Rightarrow> Err B_WrongPayload) (\<lambda>(bs, s).
           Ok (\<lparr>enc_bytes = bs, enc_warnings = warnings\<rparr>, s))
         else Err B_NotImplemented))"

section \<open>Reading\<close>

definition set_encrypted_payload_binary ::
  "bytes \<Rightarrow> ('pk, 'dk) encrypted_backup \<Rightarrow> ('pk, 'dk) encrypted_backup bip" where
  "set_encrypted_payload_binary bs b =
     (if starts_with bs V0_MAGIC then Ok (b\<lparr>eb_payload := Payload_DecryptV0 bs\<rparr>)
      else
        andThen (from_ll (decode_version bs)) (\<lambda>v.
        if version_of_u8 v = V1 then
          andThen (from_ll (decode_v1 bs)) (\<lambda>(derivation_paths, individual_secrets, encryption_type, nonce, cyphertext).
          Ok (b\<lparr>eb_derivation_paths := map from_ll_path derivation_paths,
                eb_encryption := encryption_of_u8 encryption_type,
                eb_payload := Payload_DecryptV1 cyphertext individual_secrets nonce\<rparr>))
        else Err B_NotImplemented))"

text \<open>Standard base64 of the trimmed text.\<close>

definition base64_text :: "('pk, 'dk, 'd, 'v) externals \<Rightarrow> bytes \<Rightarrow> bytes bip" where
  "base64_text X bs =
     (if utf8_valid bs then ok_or B_Base64 (ext_base64_decode X (trim bs)) else Err B_Base64)"

definition set_encrypted_payload ::
  "('pk, 'dk, 'd, 'v) externals \<Rightarrow> bytes \<Rightarrow> ('pk, 'dk) encrypted_backup \<Rightarrow> ('pk, 'dk) encrypted_backup bip" where
  "set_encrypted_payload X bs b =
     (if starts_with bs MAGIC then set_encrypted_payload_binary bs b
      else if starts_with bs V0_MAGIC then Ok (b\<lparr>eb_payload := Payload_DecryptV0 bs\<rparr>)
      else
        andThen (base64_text X bs) (\<lambda>decoded.
        set_encrypted_payload_binary decoded b))"

definition metadata_v0 :: "bytes \<Rightarrow> metadata bip" where
  "metadata_v0 bs =
     (let offset = length V0_MAGIC in
      andThen (slice_from bs offset) (\<lambda>tail.
      andThen (from_ll (parse_version tail)) (\<lambda>(incr, version).
      andThen (from_ll (increment_offset bs offset incr)) (\<lambda>offset.
      andThen (slice_from bs offset) (\<lambda>tail.
      andThen (from_ll (parse_derivation_paths tail)) (\<lambda>(incr, derivation_paths).
      andThen (from_ll (increment_offset bs offset incr)) (\<lambda>offset.
      andThen (slice_from bs offset) (\<lambda>tail.
      andThen (from_ll (parse_individual_secrets tail)) (\<lambda>(incr, individual_secrets).
      andThen (from_ll (increment_offset bs offset incr)) (\<lambda>offset.
      andThen (slice_from bs offset) (\<lambda>tail.
      andThen (from_ll (parse_encryption tail)) (\<lambda>(incr, encryption).
      andThen (from_ll (increment_offset bs offset incr)) (\<lambda>offset.
      andThen (slice_from bs offset) (\<lambda>tail.
      andThen (from_ll (parse_encrypted_payload tail)) (\<lambda>(nonce, ciphertext).
      if version_of_u8 version \<notin> {V0, V1} \<or> encryption \<noteq> V0_AES_GCM_256 then Err B_NotImplemented
      else Ok \<lparr>md_version = V0, md_derivation_paths = map from_ll_path derivation_paths,
        md_individual_secrets = individual_secrets, md_encryption = AesGcm256, md_nonce = nonce,
        md_ciphertext_lens = [length ciphertext]\<rparr>)))))))))))))))"

definition metadata_binary :: "bytes \<Rightarrow> metadata bip" where
  "metadata_binary bs =
     (if starts_with bs V0_MAGIC then metadata_v0 bs
      else
        andThen (from_ll (decode_version bs)) (\<lambda>v.
        if version_of_u8 v = V1 then
          andThen (from_ll (decode_v1 bs)) (\<lambda>(derivation_paths, individual_secrets, encryption, nonce, _).
          andThen (from_ll (decode_v1_encrypted_payload_lengths bs)) (\<lambda>ciphertext_lens.
          Ok \<lparr>md_version = version_of_u8 v, md_derivation_paths = map from_ll_path derivation_paths,
            md_individual_secrets = individual_secrets, md_encryption = encryption_of_u8 encryption,
            md_nonce = nonce, md_ciphertext_lens = ciphertext_lens\<rparr>))
        else Err B_NotImplemented))"

definition metadata_of :: "('pk, 'dk, 'd, 'v) externals \<Rightarrow> bytes \<Rightarrow> metadata bip" where
  "metadata_of X bs =
     (if starts_with bs MAGIC then metadata_binary bs
      else if starts_with bs V0_MAGIC then metadata_binary bs
      else
        andThen (base64_text X bs) (\<lambda>decoded.
        metadata_binary decoded))"

section \<open>Decrypting\<close>

definition extract_bip380 :: "('pk, 'dk, 'd, 'v) externals \<Rightarrow> bytes \<Rightarrow> ('d, 'dk, 'p) decrypted bip" where
  "extract_bip380 X bs =
     (if \<not> utf8_valid bs then Err B_Utf8
      else
        (case parse_descriptor (ext_backend X) bs of
           Some descriptor \<Rightarrow> Ok (Dec_Descriptor descriptor)
         | None \<Rightarrow>
             andThen (parse_descriptor_backup (ext_backend X) (ext_backup_json X) bs) (\<lambda>backup.
             Ok (Dec_DescriptorBackup backup))))"

definition extract_bip388 :: "('pk, 'dk, 'd, 'v) externals \<Rightarrow> bytes \<Rightarrow> ('d, 'dk, 'p) decrypted bip option" where
  "extract_bip388 X bs =
     Some (andThen (parse_policy_backup (ext_backend X) (ext_policy_json X) bs) (\<lambda>backup.
       Ok (Dec_PolicyBackup backup)))"

text \<open>A vendor parser: \<open>None\<close> for a tag that is not its own. \<open>no_proprietary\<close> skips every tag.\<close>

type_synonym 'p proprietary = "bytes \<Rightarrow> bytes \<Rightarrow> 'p bip option"

definition no_proprietary :: "unit proprietary" where
  "no_proprietary tag bs = None"

fun extract_item :: "('pk, 'dk, 'd, 'v) externals \<Rightarrow> 'p proprietary \<Rightarrow> content \<Rightarrow> bytes \<Rightarrow> ('d, 'dk, 'p) decrypted bip option" where
  "extract_item X P Content_None bs = Some (Ok (Dec_Raw bs))"
| "extract_item X P Content_Unknown bs = Some (Ok (Dec_Raw bs))"
| "extract_item X P Content_String bs = Some (if utf8_valid bs then Ok (Dec_String bs) else Err B_Utf8)"
| "extract_item X P Content_Bip138 bs = Some (Ok (Dec_Bip138 bs))"
| "extract_item X P Content_Bip380 bs = Some (extract_bip380 X bs)"
| "extract_item X P Content_Bip388 bs = extract_bip388 X bs"
| "extract_item X P Content_Bip139 bs = None"
| "extract_item X P Content_Bip329 bs = None"
| "extract_item X P (Content_BIP bip) bs = None"
| "extract_item X P (Content_Proprietary tag) bs =
     map_option (\<lambda>parsed. andThen parsed (\<lambda>p. Ok (Dec_Proprietary p))) (P tag bs)"

text \<open>\<open>filter_map\<close> into a \<open>Result\<close>: skipped items leave no trace, the first error is the result.\<close>

fun extract_all :: "('pk, 'dk, 'd, 'v) externals \<Rightarrow> 'p proprietary \<Rightarrow> item list \<Rightarrow> ('d, 'dk, 'p) decrypted list bip" where
  "extract_all X P [] = Ok []"
| "extract_all X P ((content, bs) # items) =
     (case extract_item X P content bs of None \<Rightarrow> extract_all X P items
      | Some r \<Rightarrow> andThen r (\<lambda>d. andThen (extract_all X P items) (\<lambda>ds. Ok (d # ds))))"

definition try_v0_decrypt ::
  "('pk, 'dk, 'd, 'v) externals \<Rightarrow> 'pk list \<Rightarrow> bytes \<Rightarrow> ('d, 'dk, 'p) decrypted bip" where
  "try_v0_decrypt X ks raw =
     andThen (ok_or B_WrongPayload (ext_v0 X raw ks)) (\<lambda>res.
     andThen (map_err (\<lambda>e. case e of V0_NoKey \<Rightarrow> B_NoKey | V0_WrongKey \<Rightarrow> B_WrongKey | V0_OtherError \<Rightarrow> B_WrongPayload) res)
       (\<lambda>res. Ok (case res of V0_Descriptor d \<Rightarrow> Dec_Descriptor d | V0_Policy \<Rightarrow> Dec_Policy
         | V0_Labels \<Rightarrow> Dec_Labels | V0_WalletBackup b \<Rightarrow> Dec_WalletBackup b | V0_Raw b \<Rightarrow> Dec_Raw b)))"

fun try_keys ::
  "('pk, 'dk, 'd, 'v) externals \<Rightarrow> 'p proprietary \<Rightarrow> 'pk list \<Rightarrow> bytes \<Rightarrow> bytes list \<Rightarrow> bytes \<Rightarrow>
   ('d, 'dk, 'p) decrypted list bip" where
  "try_keys X P [] cyphertext secrets nonce = Err B_WrongKey"
| "try_keys X P (key # ks) cyphertext secrets nonce =
     (case decrypt_chacha20_poly1305_v1 (ext_crypto X) (xonly (ext_backend X) key) secrets cyphertext nonce of
        Ok items \<Rightarrow> extract_all X P items
      | Err e \<Rightarrow> try_keys X P ks cyphertext secrets nonce
      | Panic \<Rightarrow> Panic
      | Diverges \<Rightarrow> Diverges)"

definition decrypt_with ::
  "('pk, 'dk, 'd, 'v) externals \<Rightarrow> 'p proprietary \<Rightarrow> ('pk, 'dk) encrypted_backup \<Rightarrow>
   ('d, 'dk, 'p) decrypted list bip" where
  "decrypt_with X P b =
     (if eb_keys b = [] then Err B_NoKey
      else
        (case eb_payload b of
           Payload_DecryptV0 raw \<Rightarrow> andThen (try_v0_decrypt X (eb_keys b) raw) (\<lambda>d. Ok [d])
         | payload \<Rightarrow>
             (case eb_version b of
                V1 \<Rightarrow>
                  (case payload of
                     Payload_DecryptV1 cyphertext secrets nonce \<Rightarrow>
                       if eb_encryption b \<noteq> ChaCha20Poly1305 then Err B_UnsupportedEncryption
                       else try_keys X P (eb_keys b) cyphertext secrets nonce
                   | _ \<Rightarrow> Err B_WrongPayload)
              | V0 \<Rightarrow> Err B_NotImplemented
              | VersionUnknown \<Rightarrow> Err B_UnknownVersion)))"

definition decrypt ::
  "('pk, 'dk, 'd, 'v) externals \<Rightarrow> ('pk, 'dk) encrypted_backup \<Rightarrow> ('d, 'dk, unit) decrypted list bip" where
  "decrypt X b = decrypt_with X no_proprietary b"

section \<open>Exposed keys\<close>

definition exposed :: "('pk, 'dk, 'd) backend \<Rightarrow> ('pk, 'dk) encrypted_backup \<Rightarrow> 'pk \<Rightarrow> bool" where
  "exposed B b k \<longleftrightarrow> xonly B k \<in> set (eb_exposed_keys b)"

lemma retain_keys_fst: "fst (retain_keys B ex ks ws) = filter (\<lambda>k. xonly B k \<notin> set ex) ks"
  by (induction ks arbitrary: ws) (auto simp: Let_def case_prod_unfold)

lemma retain_keys_warnings:
  "set (snd (retain_keys B ex ks ws)) = set ws \<union> ExposedRoot ` {k \<in> set ks. xonly B k \<in> set ex}"
  by (induction ks arbitrary: ws) (auto simp: Let_def case_prod_unfold)

lemma drop_exposed_keys_fields [simp]:
  "eb_keys (drop_exposed_keys B b) = filter (\<lambda>k. \<not> exposed B b k) (eb_keys b)"
  "eb_exposed_keys (drop_exposed_keys B b) = eb_exposed_keys b"
  "eb_key_paths (drop_exposed_keys B b) = eb_key_paths b"
  "eb_payload (drop_exposed_keys B b) = eb_payload b"
  "eb_content (drop_exposed_keys B b) = eb_content b"
  "eb_version (drop_exposed_keys B b) = eb_version b"
  "eb_encryption (drop_exposed_keys B b) = eb_encryption b"
  "eb_padding (drop_exposed_keys B b) = eb_padding b"
  "eb_store_common_paths (drop_exposed_keys B b) = eb_store_common_paths b"
  using retain_keys_fst [of B "eb_exposed_keys b" "eb_keys b" "eb_warnings b"]
  by (simp_all add: drop_exposed_keys_def exposed_def Let_def case_prod_unfold)

lemma drop_exposed_keys_paths:
  "set (eb_derivation_paths (drop_exposed_keys B b)) =
     {p \<in> set (eb_derivation_paths b).
        (\<exists>k. (k, p) \<in> set (eb_key_paths b) \<and> \<not> exposed B b k) \<or> \<not> (\<exists>k. (k, p) \<in> set (eb_key_paths b) \<and> exposed B b k)}"
  by (auto simp: drop_exposed_keys_def exposed_def list_ex_iff Let_def case_prod_unfold)

lemma drop_exposed_keys_warnings:
  "set (eb_warnings (drop_exposed_keys B b)) =
     set (eb_warnings b) \<union> ExposedRoot ` {k \<in> set (eb_keys b). exposed B b k}"
  using retain_keys_warnings [of B "eb_exposed_keys b" "eb_keys b" "eb_warnings b"]
  by (simp add: drop_exposed_keys_def exposed_def Let_def case_prod_unfold)

section \<open>What a builder call does\<close>

lemma add_item_Ok:
  "add_item x b = Ok b' \<longleftrightarrow>
     (\<exists>kps ks ws. tp_key_paths x = Ok kps \<and> tp_keys x = Ok ks \<and> tp_warnings x = Ok ws \<and>
        b' = b\<lparr>eb_derivation_paths := eb_derivation_paths b @ map snd kps, eb_key_paths := eb_key_paths b @ kps,
          eb_keys := eb_keys b @ ks, eb_warnings := eb_warnings b @ ws,
          eb_exposed_keys := eb_exposed_keys b @ tp_exposed_keys x\<rparr>)"
  by (auto simp: add_item_def add_key_paths_def outcome_simps Let_def)

text \<open>Reachable builders: every public call that takes a builder and gives one back, in any order.\<close>

inductive built :: "('pk, 'dk, 'd, 'v) externals \<Rightarrow> ('pk, 'dk) encrypted_backup \<Rightarrow> bool" for X where
  built_new: "built X eb_new"
| built_payload: "built X b \<Longrightarrow> set_payload (ext_backend X) x b = Ok b' \<Longrightarrow> built X b'"
| built_payloads: "built X b \<Longrightarrow> set_payloads (ext_backend X) xs b = Ok b' \<Longrightarrow> built X b'"
| built_encrypted: "built X b \<Longrightarrow> set_encrypted_payload X bs b = Ok b' \<Longrightarrow> built X b'"
| built_keys: "built X b \<Longrightarrow> built X (set_keys (ext_backend X) ks b)"
| built_version: "built X b \<Longrightarrow> built X (set_version v b)"
| built_content: "built X b \<Longrightarrow> built X (set_content_type c b)"
| built_encryption: "built X b \<Longrightarrow> built X (set_encryption e b)"
| built_padding: "built X b \<Longrightarrow> built X (set_padding p b)"
| built_store: "built X b \<Longrightarrow> built X (set_store_common_paths s b)"
| built_paths: "built X b \<Longrightarrow> built X (set_derivation_paths ps b)"

text \<open>Loading a backup leaves the keys of the builder, and what it knows to be exposed, alone.\<close>

lemma set_encrypted_payload_keys:
  assumes "set_encrypted_payload X bs b = Ok b'"
  shows "eb_keys b' = eb_keys b" "eb_exposed_keys b' = eb_exposed_keys b"
proof -
  have "eb_keys b' = eb_keys b \<and> eb_exposed_keys b' = eb_exposed_keys b"
    if "set_encrypted_payload_binary bs b = Ok b'" for bs
    using that by (auto simp: set_encrypted_payload_binary_def outcome_simps split: if_splits)
  with assms show "eb_keys b' = eb_keys b" "eb_exposed_keys b' = eb_exposed_keys b"
    by (auto simp: set_encrypted_payload_def outcome_simps split: if_splits)
qed

definition unexposed :: "('pk, 'dk, 'd) backend \<Rightarrow> ('pk, 'dk) encrypted_backup \<Rightarrow> bool" where
  "unexposed B b \<longleftrightarrow> (\<forall>k \<in> set (eb_keys b). \<not> exposed B b k)"

lemma unexposed_drop: "unexposed B (drop_exposed_keys B b)"
  by (simp add: unexposed_def exposed_def)

lemma unexposed_cong:
  "eb_keys b' = eb_keys b \<Longrightarrow> eb_exposed_keys b' = eb_exposed_keys b \<Longrightarrow> unexposed B b' = unexposed B b"
  by (simp add: unexposed_def exposed_def)

lemmas setter_defs = set_version_def set_content_type_def set_encryption_def set_padding_def
  set_store_common_paths_def set_derivation_paths_def

text \<open>Whatever the calls, no key of a builder has the x coordinate of a key its payload exposes.\<close>

lemma built_unexposed: "built X b \<Longrightarrow> unexposed (ext_backend X) b"
proof (induction rule: built.induct)
  case built_new
  show ?case by (simp add: unexposed_def eb_new_def)
next
  case (built_payload b x b')
  then show ?case by (auto simp: set_payload_def outcome_simps Let_def unexposed_drop)
next
  case (built_payloads b xs b')
  then obtain ps b1 where "b' = drop_exposed_keys (ext_backend X) b1\<lparr>eb_payload := Payload_EncryptMany ps\<rparr>"
    by (auto simp: set_payloads_def outcome_simps Let_def)
  then have "unexposed (ext_backend X) b' = unexposed (ext_backend X) (drop_exposed_keys (ext_backend X) b1)"
    by (intro unexposed_cong) simp_all
  then show ?case by (simp add: unexposed_drop)
next
  case (built_encrypted b bs b')
  with unexposed_cong [OF set_encrypted_payload_keys [OF built_encrypted(2)]] show ?case by blast
next
  case (built_keys b ks)
  then show ?case by (simp add: set_keys_def unexposed_drop)
qed (auto simp: setter_defs unexposed_def exposed_def)

text \<open>So nothing an observer of the chain can derive is a recipient of the backup.\<close>

lemma encrypt_Ok:
  "encrypt X fill s b = Ok (e, s') \<longleftrightarrow>
     eb_encryption b = ChaCha20Poly1305 \<and> eb_version b = V1 \<and> eb_keys b \<noteq> [] \<and>
     enc_warnings e = eb_warnings b \<and>
     (\<exists>items. ((\<exists>p. eb_payload b = Payload_Encrypt p \<and> eb_content b \<noteq> Content_Unknown \<and> items = [(eb_content b, p)]) \<or>
               eb_payload b = Payload_EncryptMany items) \<and>
        encrypt_chacha20_poly1305_v1_items (ext_crypto X) fill s (eb_derivation_paths b)
          (eb_store_common_paths b) items (map (xonly (ext_backend X)) (eb_keys b)) (eb_padding b) =
        Ok (enc_bytes e, s'))"
  by (cases "eb_payload b"; cases e)
    (auto simp: encrypt_def outcome_simps encrypt_chacha20_poly1305_v1_def Let_def)

section \<open>The derivation paths of a payload\<close>

text \<open>
  Builders fed with items of a source only: each stored path is the path of a key that is kept, and the
  path of every kept key is stored.
\<close>

inductive fed :: "(('pk, 'dk) to_payload \<Rightarrow> bool) \<Rightarrow> ('pk, 'dk, 'd) backend \<Rightarrow> ('pk, 'dk) encrypted_backup \<Rightarrow> bool"
  for item B where
  fed_new: "fed item B eb_new"
| fed_payload: "fed item B b \<Longrightarrow> item x \<Longrightarrow> set_payload B x b = Ok b' \<Longrightarrow> fed item B b'"
| fed_payloads: "fed item B b \<Longrightarrow> list_all item xs \<Longrightarrow> set_payloads B xs b = Ok b' \<Longrightarrow> fed item B b'"
| fed_padding: "fed item B b \<Longrightarrow> fed item B (set_padding p b)"
| fed_store: "fed item B b \<Longrightarrow> fed item B (set_store_common_paths s b)"
| fed_content: "fed item B b \<Longrightarrow> fed item B (set_content_type c b)"

definition paths_of_keys :: "('pk, 'dk) encrypted_backup \<Rightarrow> bool" where
  "paths_of_keys b \<longleftrightarrow>
     (\<forall>p. p \<in> set (eb_derivation_paths b) \<longleftrightarrow> (\<exists>k \<in> set (eb_keys b). (k, p) \<in> set (eb_key_paths b)))"

text \<open>Between the calls of one setter keys may still be exposed: every path belongs to a key path.\<close>

definition pooled :: "('pk, 'dk, 'd) backend \<Rightarrow> ('pk, 'dk) encrypted_backup \<Rightarrow> bool" where
  "pooled B b \<longleftrightarrow>
     (\<forall>k p. (k, p) \<in> set (eb_key_paths b) \<longrightarrow> k \<in> set (eb_keys b) \<or> exposed B b k) \<and>
     (\<forall>k p. (k, p) \<in> set (eb_key_paths b) \<longrightarrow> \<not> exposed B b k \<longrightarrow> p \<in> set (eb_derivation_paths b)) \<and>
     (\<forall>p \<in> set (eb_derivation_paths b). \<exists>k. (k, p) \<in> set (eb_key_paths b))"

lemma pooled_drop:
  assumes "pooled B b"
  shows "pooled B (drop_exposed_keys B b) \<and> paths_of_keys (drop_exposed_keys B b)"
proof
  have ex: "exposed B (drop_exposed_keys B b) = exposed B b" by (rule ext) (simp add: exposed_def)
  have kp: "k \<in> set (eb_keys b) \<or> exposed B b k" if "(k, p) \<in> set (eb_key_paths b)" for k p
    using assms that unfolding pooled_def by blast
  have st: "p \<in> set (eb_derivation_paths b)" if "(k, p) \<in> set (eb_key_paths b)" "\<not> exposed B b k" for k p
    using assms that unfolding pooled_def by blast
  have fr: "\<exists>k. (k, p) \<in> set (eb_key_paths b)" if "p \<in> set (eb_derivation_paths b)" for p
    using assms that unfolding pooled_def by blast
  show "pooled B (drop_exposed_keys B b)"
    unfolding pooled_def ex drop_exposed_keys_paths drop_exposed_keys_fields using kp st fr by auto
  show "paths_of_keys (drop_exposed_keys B b)"
    unfolding paths_of_keys_def drop_exposed_keys_paths drop_exposed_keys_fields
  proof (intro allI iffI)
    fix p
    assume "p \<in> {p \<in> set (eb_derivation_paths b). (\<exists>k. (k, p) \<in> set (eb_key_paths b) \<and> \<not> exposed B b k) \<or>
        \<not> (\<exists>k. (k, p) \<in> set (eb_key_paths b) \<and> exposed B b k)}"
    then obtain k where "(k, p) \<in> set (eb_key_paths b)" "\<not> exposed B b k" using fr by blast
    with kp show "\<exists>k \<in> set (filter (\<lambda>k. \<not> exposed B b k) (eb_keys b)). (k, p) \<in> set (eb_key_paths b)" by auto
  next
    fix p
    assume "\<exists>k \<in> set (filter (\<lambda>k. \<not> exposed B b k) (eb_keys b)). (k, p) \<in> set (eb_key_paths b)"
    with st show "p \<in> {p \<in> set (eb_derivation_paths b). (\<exists>k. (k, p) \<in> set (eb_key_paths b) \<and> \<not> exposed B b k) \<or>
        \<not> (\<exists>k. (k, p) \<in> set (eb_key_paths b) \<and> exposed B b k)}" by auto
  qed
qed

lemma pooled_cong:
  assumes "eb_keys b' = eb_keys b" "eb_exposed_keys b' = eb_exposed_keys b" "eb_key_paths b' = eb_key_paths b"
    "eb_derivation_paths b' = eb_derivation_paths b"
  shows "pooled B b' = pooled B b" "paths_of_keys b' = paths_of_keys b"
  using assms by (simp_all add: pooled_def paths_of_keys_def exposed_def)

context payload_source
begin

lemma pooled_add_item:
  assumes "is_item x" "pooled B b" "add_item x b = Ok b'"
  shows "pooled B b'"
proof -
  from assms(3) obtain kps ks ws where r: "tp_key_paths x = Ok kps" "tp_keys x = Ok ks"
    and b': "b' = b\<lparr>eb_derivation_paths := eb_derivation_paths b @ map snd kps, eb_key_paths := eb_key_paths b @ kps,
          eb_keys := eb_keys b @ ks, eb_warnings := eb_warnings b @ ws,
          eb_exposed_keys := eb_exposed_keys b @ tp_exposed_keys x\<rparr>"
    by (auto simp: add_item_Ok)
  have new: "k \<in> set ks" if "(k, p) \<in> set kps" for k p using path_key [OF assms(1) r that] .
  have ex: "exposed B b k \<Longrightarrow> exposed B b' k" for k by (auto simp: b' exposed_def)
  have f: "set (eb_key_paths b') = set (eb_key_paths b) \<union> set kps" "set (eb_keys b') = set (eb_keys b) \<union> set ks"
    "set (eb_derivation_paths b') = set (eb_derivation_paths b) \<union> snd ` set kps" by (simp_all add: b')
  from assms(2) have old: "\<And>k p. (k, p) \<in> set (eb_key_paths b) \<Longrightarrow> k \<in> set (eb_keys b) \<or> exposed B b k"
    "\<And>k p. (k, p) \<in> set (eb_key_paths b) \<Longrightarrow> \<not> exposed B b k \<Longrightarrow> p \<in> set (eb_derivation_paths b)"
    "\<And>p. p \<in> set (eb_derivation_paths b) \<Longrightarrow> \<exists>k. (k, p) \<in> set (eb_key_paths b)"
    unfolding pooled_def by blast+
  show ?thesis unfolding pooled_def f
  proof (intro conjI allI impI ballI)
    show "k \<in> set (eb_keys b) \<union> set ks \<or> exposed B b' k" if "(k, p) \<in> set (eb_key_paths b) \<union> set kps" for k p
      using that new old(1) ex by blast
    show "p \<in> set (eb_derivation_paths b) \<union> snd ` set kps"
      if "(k, p) \<in> set (eb_key_paths b) \<union> set kps" "\<not> exposed B b' k" for k p
      using that old(2) [of k p] ex [of k] by force
    show "\<exists>k. (k, p) \<in> set (eb_key_paths b) \<union> set kps" if "p \<in> set (eb_derivation_paths b) \<union> snd ` set kps" for p
      using that old(3) [of p] by force
  qed
qed

lemma pooled_add_payloads:
  "list_all is_item xs \<Longrightarrow> pooled B b \<Longrightarrow> add_payloads xs acc b = Ok (ps, b') \<Longrightarrow> pooled B b'"
proof (induction xs arbitrary: acc b)
  case (Cons x xs)
  then obtain payload b1 where "add_item x b = Ok b1"
    and r: "add_payloads xs (acc @ [(tp_content_type x, payload)]) b1 = Ok (ps, b')"
    by (auto simp: Let_def outcome_simps split: if_splits)
  with Cons show ?case using pooled_add_item [of x B b b1] by auto
qed simp

lemma fed_paths: "fed is_item B b \<Longrightarrow> pooled B b \<and> paths_of_keys b"
proof (induction rule: fed.induct)
  case fed_new
  show ?case by (simp add: pooled_def paths_of_keys_def eb_new_def)
next
  case (fed_payload b x b')
  then obtain payload b1 where a: "add_item x
      (let b = b\<lparr>eb_payload := Payload_Encrypt payload\<rparr> in
       if content_is_known (tp_content_type x) then b\<lparr>eb_content := tp_content_type x\<rparr> else b) = Ok b1"
    and b': "b' = drop_exposed_keys B b1"
    by (auto simp: set_payload_def outcome_simps Let_def)
  have "pooled B (let b = b\<lparr>eb_payload := Payload_Encrypt payload\<rparr> in
       if content_is_known (tp_content_type x) then b\<lparr>eb_content := tp_content_type x\<rparr> else b)"
    using fed_payload by (simp add: Let_def pooled_def exposed_def)
  from pooled_add_item [OF fed_payload(2) this a] pooled_drop show ?case unfolding b' by blast
next
  case (fed_payloads b xs b')
  then obtain ps b1 where a: "add_payloads xs [] b = Ok (ps, b1)"
    and b': "b' = drop_exposed_keys B b1\<lparr>eb_payload := Payload_EncryptMany ps\<rparr>"
    by (auto simp: set_payloads_def outcome_simps Let_def)
  have "pooled B b1" using pooled_add_payloads fed_payloads a by blast
  with pooled_drop have "pooled B (drop_exposed_keys B b1) \<and> paths_of_keys (drop_exposed_keys B b1)" by blast
  moreover have "pooled B b' = pooled B (drop_exposed_keys B b1)"
    "paths_of_keys b' = paths_of_keys (drop_exposed_keys B b1)"
    by (rule pooled_cong; simp add: b')+
  ultimately show ?case by blast
next
  case (fed_padding b p)
  then show ?case using pooled_cong(1) [where b' = "set_padding p b" and b = b and B = B] pooled_cong(2) [of "set_padding p b" b] by (simp add: setter_defs)
next
  case (fed_store b s)
  then show ?case using pooled_cong(1) [where b' = "set_store_common_paths s b" and b = b and B = B] pooled_cong(2) [of "set_store_common_paths s b" b] by (simp add: setter_defs)
next
  case (fed_content b c)
  then show ?case using pooled_cong(1) [where b' = "set_content_type c b" and b = b and B = B] pooled_cong(2) [of "set_content_type c b" b] by (simp add: setter_defs)
qed

end

text \<open>The items the crate itself provides.\<close>

definition builtin_item ::
  "('pk::linorder, 'dk::linorder, 'd, 'v) externals \<Rightarrow> ('pk, 'dk) to_payload \<Rightarrow> bool" where
  "builtin_item X x \<longleftrightarrow>
     (\<exists>b. x = vec_item b \<or> x = string_item b \<or> x = bip138_item (Bip138 b)) \<or>
     (\<exists>d. x = descriptor_item (ext_backend X) d) \<or>
     (\<exists>b. x = descriptor_backup_item (ext_backend X) (ext_backup_json X) b) \<or>
     (rebuilds (ext_backend X) \<and> (\<exists>b. x = policy_backup_item (ext_backend X) (ext_policy_json X) b))"

lemma payload_source_mono: "payload_source Q \<Longrightarrow> (\<And>x. P x \<Longrightarrow> Q x) \<Longrightarrow> payload_source P"
  unfolding payload_source_def by blast

interpretation builtin: payload_source
  "builtin_item (X :: ('pk::linorder, 'dk::linorder, 'd, 'v) externals)"
proof (rule payload_source_mono)
  let ?D = "\<lambda>x :: ('pk, 'dk) to_payload. \<exists>(B :: ('pk, 'dk, 'd) backend) d. x = descriptor_item B d"
  let ?S = "\<lambda>x :: ('pk, 'dk) to_payload. \<exists>(B :: ('pk, 'dk, 'd) backend) J b. x = descriptor_backup_item B J b"
  let ?P = "\<lambda>x :: ('pk, 'dk) to_payload. \<exists>(B :: ('pk, 'dk, 'd) backend) (J :: ('v, 'dk) policy_json) b.
    rebuilds B \<and> x = policy_backup_item B J b"
  show "payload_source (\<lambda>x. (\<exists>b. x = vec_item b \<or> x = string_item b \<or> x = bip138_item (Bip138 b)) \<or> ?D x \<or> ?S x \<or> ?P x)"
    by (intro payload_source_union plain_items.payload_source_axioms descriptor_items.payload_source_axioms
        descriptor_backup_items.payload_source_axioms policy_backup_items.payload_source_axioms)
qed (unfold builtin_item_def, blast)

section \<open>Input formats\<close>

lemma starts_with_MAGIC: "starts_with bs MAGIC \<longleftrightarrow> (\<exists>t. bs = MAGIC @ t)"
  unfolding starts_with_def by (metis append_eq_conv_conj append_take_drop_id)

lemma decode_version_MAGIC: "rust_slice bs \<Longrightarrow> decode_v1 bs = Ok r \<Longrightarrow> starts_with bs MAGIC \<and> decode_version bs = Ok 1"
proof -
  assume len: "rust_slice bs" and d: "decode_v1 bs = Ok r"
  obtain ps ss e nonce c where r: "r = (ps, ss, e, nonce, c)" by (cases r)
  with d decode_v1_iff [OF len] obtain n where "v1_header bs (n, ps, ss, e)" by blast
  then obtain t where bs: "bs = MAGIC @ 1 # t" unfolding v1_header_def by blast
  have "length bs \<le> usize_MAX" using rust_slice_usize [OF len] .
  then have "decode_version bs = Ok 1"
    by (simp add: bs decode_version_def parse_magic_byte_def init_offset_def check_offset_def slice_from_def
        parse_version_def version_max_def index_at_def)
  then show ?thesis by (simp add: bs starts_with_def)
qed

lemma not_V0_MAGIC: "starts_with bs MAGIC \<Longrightarrow> \<not> starts_with bs V0_MAGIC"
proof
  assume "starts_with bs MAGIC" "starts_with bs V0_MAGIC"
  then obtain t where "bs = MAGIC @ t" by (auto simp: starts_with_MAGIC)
  with \<open>starts_with bs V0_MAGIC\<close> show False
    by (simp add: starts_with_def V0_MAGIC_def MAGIC_def ascii_def take_Cons')
qed

lemma set_encrypted_payload_v1:
  assumes "rust_slice bs" "decode_v1 bs = Ok (ps, ss, e, nonce, c)"
  shows "set_encrypted_payload X bs b =
    Ok (b\<lparr>eb_derivation_paths := ps, eb_encryption := encryption_of_u8 e, eb_payload := Payload_DecryptV1 c ss nonce\<rparr>)"
proof -
  from decode_version_MAGIC [OF assms] have m: "starts_with bs MAGIC" and v: "decode_version bs = Ok 1" by auto
  from not_V0_MAGIC [OF m] m v assms(2) show ?thesis
    by (simp add: set_encrypted_payload_def set_encrypted_payload_binary_def version_of_u8_def)
qed

text \<open>The base64 text of a backup, with whitespace around it, reads as the backup.\<close>

lemma set_encrypted_payload_base64:
  assumes "utf8_valid text" "\<not> starts_with text MAGIC" "\<not> starts_with text V0_MAGIC"
    and "ext_base64_decode X (trim text) = Some bs" and "starts_with bs MAGIC"
  shows "set_encrypted_payload X text b = set_encrypted_payload X bs b"
  using assms by (simp add: set_encrypted_payload_def base64_text_def)

section \<open>Decrypting with several keys\<close>

text \<open>The result is that of the first key that opens the backup to well-formed items.\<close>

lemma try_keys_append:
  assumes "\<And>k. k \<in> set ks \<Longrightarrow> \<exists>e. decrypt_chacha20_poly1305_v1 (ext_crypto X) (xonly (ext_backend X) k) ss c nonce = Err e"
  shows "try_keys X P (ks @ ls) c ss nonce = try_keys X P ls c ss nonce"
  using assms by (induction ks) fastforce+

lemma try_keys_first:
  assumes "\<And>k. k \<in> set ks \<Longrightarrow> \<exists>e. decrypt_chacha20_poly1305_v1 (ext_crypto X) (xonly (ext_backend X) k) ss c nonce = Err e"
    and "decrypt_chacha20_poly1305_v1 (ext_crypto X) (xonly (ext_backend X) k) ss c nonce = Ok items"
  shows "try_keys X P (ks @ k # ls) c ss nonce = extract_all X P items"
  using assms by (simp add: try_keys_append)

lemma try_keys_none:
  assumes "\<And>k. k \<in> set ks \<Longrightarrow> \<exists>e. decrypt_chacha20_poly1305_v1 (ext_crypto X) (xonly (ext_backend X) k) ss c nonce = Err e"
  shows "try_keys X P ks c ss nonce = Err B_WrongKey"
  using try_keys_append [where ls = "[]", OF assms] by simp

section \<open>Encrypting, then decrypting\<close>

text \<open>Bytes after the backup change nothing.\<close>

lemma backup_roundtrip:
  assumes laws: "sha256_sized (ext_crypto X)" "aead_correct (ext_crypto X)" "rng_sized fill"
    and enc: "encrypt X fill s b = Ok (e, s')" and len: "rust_slice (enc_bytes e @ rest)"
    and key: "k \<in> set (eb_keys b)" "xonly (ext_backend X) k \<noteq> NUMS_XONLY"
    and agree: "backup_agrees (ext_crypto X) (enc_bytes e) (xonly (ext_backend X) k)"
  shows "\<exists>items r. (eb_payload b = Payload_EncryptMany items \<or>
       (\<exists>p. eb_payload b = Payload_Encrypt p \<and> items = [(eb_content b, p)])) \<and>
    set_encrypted_payload X (enc_bytes e @ rest) eb_new = Ok r \<and>
    set (eb_derivation_paths r) = stored_paths (eb_store_common_paths b) (eb_derivation_paths b) \<and>
    decrypt_with X P (set_keys (ext_backend X) [k] r) = extract_all X P (map norm_item items)"
proof -
  let ?B = "ext_backend X"
  from enc obtain items where it: "eb_payload b = Payload_EncryptMany items \<or>
       (\<exists>p. eb_payload b = Payload_Encrypt p \<and> items = [(eb_content b, p)])"
    and en: "encrypt_chacha20_poly1305_v1_items (ext_crypto X) fill s (eb_derivation_paths b)
          (eb_store_common_paths b) items (map (xonly ?B) (eb_keys b)) (eb_padding b) = Ok (enc_bytes e, s')"
    by (auto simp: encrypt_Ok)
  from encrypt_items_roundtrip [OF laws en rust_slice_append1 [OF len]] obtain ss nonce c where
    d: "decode_v1 (enc_bytes e) = Ok (sorted_list_of_set (stored_paths (eb_store_common_paths b) (eb_derivation_paths b)), ss, 1, nonce, c)"
    and r: "\<And>key. key \<in> recipients (map (xonly ?B) (eb_keys b)) \<Longrightarrow> candidates_agree (ext_crypto X) key ss c nonce \<Longrightarrow>
       decrypt_chacha20_poly1305_v1 (ext_crypto X) key ss c nonce = Ok (map norm_item items)" by blast
  have "xonly ?B k \<in> recipients (map (xonly ?B) (eb_keys b))" using key by (auto simp: recipients_def)
  from r [OF this] agree d have dec:
    "decrypt_chacha20_poly1305_v1 (ext_crypto X) (xonly ?B k) ss c nonce = Ok (map norm_item items)"
    by (simp add: backup_agrees_def)
  define rd where "rd = (eb_new\<lparr>eb_derivation_paths :=
      sorted_list_of_set (stored_paths (eb_store_common_paths b) (eb_derivation_paths b)),
      eb_encryption := encryption_of_u8 1, eb_payload := Payload_DecryptV1 c ss nonce\<rparr> :: ('a, 'b) encrypted_backup)"
  have "set_encrypted_payload X (enc_bytes e @ rest) eb_new = Ok rd"
    using set_encrypted_payload_v1 [OF len decode_v1_append [OF len d]] by (simp add: rd_def)
  moreover have "decrypt_with X P (set_keys ?B [k] rd) = extract_all X P (map norm_item items)"
    using dec by (simp add: decrypt_with_def set_keys_def rd_def eb_new_def exposed_def encryption_of_u8_def)
  moreover have "set (eb_derivation_paths rd) = stored_paths (eb_store_common_paths b) (eb_derivation_paths b)"
    by (simp add: rd_def)
  ultimately show ?thesis using it by blast
qed

section \<open>Metadata\<close>

lemma metadata_v1:
  assumes len: "rust_slice bs" and d: "decode_v1 bs = Ok (ps, ss, e, nonce, c)"
    and l: "decode_v1_encrypted_payload_lengths bs = Ok ls"
  shows "metadata_of X bs = Ok \<lparr>md_version = V1, md_derivation_paths = ps, md_individual_secrets = ss,
    md_encryption = encryption_of_u8 e, md_nonce = nonce, md_ciphertext_lens = ls\<rparr>"
proof -
  from decode_version_MAGIC [OF len d] have m: "starts_with bs MAGIC" and v: "decode_version bs = Ok 1" by auto
  from not_V0_MAGIC [OF m] m v d l show ?thesis
    by (simp add: metadata_of_def metadata_binary_def version_of_u8_def)
qed

section \<open>Reading returns\<close>

text \<open>
  What is asked of the third parties for it: no panic of their own, and results that fit in memory. The
  backend, which is part of the repository, has to rebuild descriptors without a panic; the one over
  miniscript does (\<open>miniscript_rebuilds\<close>).
\<close>

definition third_parties_return :: "('pk, 'dk, 'd, 'v) externals \<Rightarrow> bool" where
  "third_parties_return X \<longleftrightarrow>
     (\<forall>t bs. ext_base64_decode X t = Some bs \<longrightarrow> rust_slice bs) \<and>
     (\<forall>bs ks r. ext_v0 X bs ks = Some r \<longrightarrow> r \<noteq> Panic \<and> r \<noteq> Diverges) \<and>
     (\<forall>k n c p. aead_decrypt (ext_crypto X) k n c = Some p \<longrightarrow> rust_slice p)"

definition externals_return :: "('pk, 'dk, 'd, 'v) externals \<Rightarrow> bool" where
  "externals_return X \<longleftrightarrow> rebuilds (ext_backend X) \<and> third_parties_return X"

lemma miniscript_externals_return:
  "from_wallet_policy (ext_backend X) = miniscript_from_wallet_policy M parse_template \<Longrightarrow>
   bounded_templates M parse_template \<Longrightarrow> third_parties_return X \<Longrightarrow> externals_return X"
  by (simp add: externals_return_def miniscript_rebuilds)

lemma set_encrypted_payload_binary_returns:
  "rust_slice bs \<Longrightarrow> set_encrypted_payload_binary bs b \<noteq> Panic \<and> set_encrypted_payload_binary bs b \<noteq> Diverges"
  using decode_version_safe [of bs] decode_v1_safe [of bs]
  by (auto simp: set_encrypted_payload_binary_def outcome_simps split: if_splits)

lemma base64_text_returns:
  "base64_text X bs \<noteq> Panic" "base64_text X bs \<noteq> Diverges"
  by (simp_all add: base64_text_def)

lemma base64_text_slice: "externals_return X \<Longrightarrow> base64_text X bs = Ok out \<Longrightarrow> rust_slice out"
  by (auto simp: base64_text_def externals_return_def third_parties_return_def outcome_simps split: if_splits)

lemma set_encrypted_payload_returns:
  "externals_return X \<Longrightarrow> rust_slice bs \<Longrightarrow>
   set_encrypted_payload X bs b \<noteq> Panic \<and> set_encrypted_payload X bs b \<noteq> Diverges"
  using set_encrypted_payload_binary_returns base64_text_slice [of X bs]
  by (auto simp: set_encrypted_payload_def outcome_simps base64_text_returns split: if_splits)

lemma starts_with_V0_length: "starts_with bs V0_MAGIC \<Longrightarrow> 3 \<le> length bs"
proof -
  assume "starts_with bs V0_MAGIC"
  then have "length (take (length V0_MAGIC) bs) = length V0_MAGIC"
    by (simp add: starts_with_def)
  then show ?thesis by (simp add: V0_MAGIC_def ascii_def)
qed

lemma metadata_v0_returns:
  assumes len: "rust_slice bs" and m: "starts_with bs V0_MAGIC"
  shows "metadata_v0 bs \<noteq> Panic \<and> metadata_v0 bs \<noteq> Diverges"
proof -
  have l: "3 \<le> length bs" by (rule starts_with_V0_length [OF m])
  have o: "length V0_MAGIC = 3" by (simp add: V0_MAGIC_def ascii_def)
  have room: "length bs + length bs \<le> usize_MAX"
    using len by (simp add: rust_slice_def usize_MAX_def isize_MAX_def)
  have d: "rust_slice (drop n bs)" for n by (rule rust_slice_drop [OF len])
  note bounds = parse_derivation_paths_drop_bound [OF len] parse_individual_secrets_drop_bound [OF len]
  show ?thesis
    using l room parse_derivation_paths_safe [OF d] parse_individual_secrets_safe [OF d] parse_encrypted_payload_safe [OF d]
    unfolding metadata_v0_def o Let_def
    by (auto simp: outcome_simps dest!: bounds split: if_splits)
qed

lemma metadata_binary_returns:
  "rust_slice bs \<Longrightarrow> metadata_binary bs \<noteq> Panic \<and> metadata_binary bs \<noteq> Diverges"
  using metadata_v0_returns [of bs] decode_version_safe [of bs] decode_v1_safe [of bs]
    decode_v1_encrypted_payload_lengths_safe [of bs]
  by (auto simp: metadata_binary_def outcome_simps split: if_splits)

lemma metadata_of_returns:
  "externals_return X \<Longrightarrow> rust_slice bs \<Longrightarrow> metadata_of X bs \<noteq> Panic \<and> metadata_of X bs \<noteq> Diverges"
  using metadata_binary_returns base64_text_slice [of X bs]
  by (auto simp: metadata_of_def outcome_simps base64_text_returns split: if_splits)

lemma validate_not:
  "validate B b \<noteq> Panic" "validate B b \<noteq> Diverges"
proof -
  have "validate_sets B sets \<noteq> Panic \<and> validate_sets B sets \<noteq> Diverges" for sets
    by (induction sets) auto
  then show "validate B b \<noteq> Panic" "validate B b \<noteq> Diverges" by (simp_all add: validate_def)
qed

lemma extract_item_returns:
  assumes "externals_return X" "extract_item X no_proprietary content bs = Some r"
  shows "r \<noteq> Panic \<and> r \<noteq> Diverges"
proof -
  have v: "validate_policy (ext_backend X) b \<noteq> Panic \<and> validate_policy (ext_backend X) b \<noteq> Diverges" for b
    using assms(1) validate_policy_returns by (auto simp: externals_return_def third_parties_return_def)
  then have p: "parse_policy_backup (ext_backend X) (ext_policy_json X) bs \<noteq> Panic \<and>
      parse_policy_backup (ext_backend X) (ext_policy_json X) bs \<noteq> Diverges"
    by (auto simp: parse_policy_backup_def outcome_simps split: if_splits)
  have "parse_descriptor_backup (ext_backend X) (ext_backup_json X) bs \<noteq> Panic \<and>
      parse_descriptor_backup (ext_backend X) (ext_backup_json X) bs \<noteq> Diverges"
    by (auto simp: parse_descriptor_backup_def outcome_simps validate_not split: if_splits)
  then have d: "extract_bip380 X bs \<noteq> Panic \<and> extract_bip380 X bs \<noteq> Diverges"
    by (auto simp: extract_bip380_def outcome_simps split: option.splits)
  show ?thesis
    using assms(2) p d
    by (cases content) (auto simp: extract_bip388_def outcome_simps no_proprietary_def split: if_splits)
qed

lemma extract_all_returns:
  "externals_return X \<Longrightarrow>
   extract_all X no_proprietary items \<noteq> Panic \<and> extract_all X no_proprietary items \<noteq> Diverges"
proof (induction items)
  case (Cons item items)
  then show ?case
    using extract_item_returns [of X "fst item" "snd item"]
    by (cases item) (auto simp: outcome_simps split: option.splits)
qed simp

lemma try_keys_returns:
  assumes "externals_return X"
  shows "try_keys X no_proprietary ks c ss nonce \<noteq> Panic \<and> try_keys X no_proprietary ks c ss nonce \<noteq> Diverges"
proof (induction ks)
  case (Cons k ks)
  have "decrypt_chacha20_poly1305_v1 (ext_crypto X) (xonly (ext_backend X) k) ss c nonce \<noteq> Panic \<and>
      decrypt_chacha20_poly1305_v1 (ext_crypto X) (xonly (ext_backend X) k) ss c nonce \<noteq> Diverges"
    using assms by (intro decrypt_safe) (auto simp: externals_return_def third_parties_return_def)
  with Cons extract_all_returns [OF assms] show ?case by (auto split: outcome.splits)
qed simp

lemma try_v0_decrypt_returns:
  assumes "externals_return X"
  shows "try_v0_decrypt X ks raw \<noteq> Panic \<and> try_v0_decrypt X ks raw \<noteq> Diverges"
proof -
  have "r \<noteq> Panic \<and> r \<noteq> Diverges" if "ext_v0 X raw ks = Some r" for r
    using assms that unfolding externals_return_def third_parties_return_def by blast
  then show ?thesis by (fastforce simp: try_v0_decrypt_def outcome_simps)
qed

lemma decrypt_returns:
  "externals_return X \<Longrightarrow> decrypt X b \<noteq> Panic \<and> decrypt X b \<noteq> Diverges"
  by (auto simp: decrypt_def decrypt_with_def outcome_simps try_keys_returns try_v0_decrypt_returns
      split: payload.splits version.splits)

end
