(* ===== verification/Devices.thy ===== *)
theory Devices
  imports Backend
begin

text \<open>
  Fetching extended keys from a signing device (\<open>src/signing_devices.rs\<close>, with
  \<open>device_network\<close> of \<open>src/bin/main.rs\<close>): the timeouts, the paths to ask for and their order, the
  collector, the one-path fetch and the unlocking of a BitBox02. A device is a record of its calls over
  a state \<open>'h\<close>, which also stands for what the callbacks of the caller do. Enumerating devices is in
  \<open>Device_List\<close>, logging is left out. Shown: which paths are asked for and in which order, when a collection fails,
  what it contains, and that the path used to unlock exists.
\<close>

section \<open>Types\<close>

datatype device_kind = BitBox02 | Coldcard | Jade | Ledger | LedgerSimulator | Specter | SpecterSimulator

datatype network = Bitcoin | Testnet | Signet | Regtest

datatype expect = PromptUser | MustFetch | CanFail

record fetch_failed =
  ff_device :: device_kind
  ff_path :: deriv_path
  ff_expect :: expect
  ff_error :: string

datatype xpub_warning = WarningFailed fetch_failed | WarningTimedOut device_kind deriv_path

record 'x xpub_collection =
  xc_xpubs :: "'x list"
  xc_warnings :: "xpub_warning list"

record 'x fetched_xpub =
  fx_fingerprint :: u32
  fx_xpub :: 'x

record xpub_collector =
  co_deriv_paths :: "deriv_path list"
  co_network :: network
  co_ordering :: "u32 list"
  co_prompt :: bool

definition collector_new :: "deriv_path list \<Rightarrow> network \<Rightarrow> xpub_collector" where
  "collector_new deriv_paths network =
     \<lparr>co_deriv_paths = deriv_paths, co_network = network, co_ordering = [], co_prompt = False\<rparr>"

definition collector_ordering :: "u32 list \<Rightarrow> xpub_collector \<Rightarrow> xpub_collector" where
  "collector_ordering purposes c = c\<lparr>co_ordering := purposes\<rparr>"

definition collector_prompt :: "bool \<Rightarrow> xpub_collector \<Rightarrow> xpub_collector" where
  "collector_prompt prompt c = c\<lparr>co_prompt := prompt\<rparr>"

lemma collector_built [simp]:
  "collector_ordering purposes (collector_new deriv_paths network) =
     \<lparr>co_deriv_paths = deriv_paths, co_network = network, co_ordering = purposes, co_prompt = False\<rparr>"
  "collector_prompt prompt \<lparr>co_deriv_paths = deriv_paths, co_network = network, co_ordering = purposes, co_prompt = p\<rparr> =
     \<lparr>co_deriv_paths = deriv_paths, co_network = network, co_ordering = purposes, co_prompt = prompt\<rparr>"
  by (simp_all add: collector_new_def collector_ordering_def collector_prompt_def)

text \<open>What a bounded wait on the thread of a device call gives.\<close>

datatype 'x received = Received "(string, 'x) outcome" | RecvTimeout | RecvDisconnected

record ('h, 'x) device =
  dev_kind :: device_kind
  dev_display :: "'h \<Rightarrow> bool \<Rightarrow> 'h"
  dev_call :: "'h \<Rightarrow> deriv_path \<Rightarrow> nat \<Rightarrow> 'x received \<times> 'h"
  dev_fingerprint :: "'h \<Rightarrow> (string, u32) outcome \<times> 'h"
  dev_unexpected :: "string \<Rightarrow> string"

record ('h, 'x) hooks =
  on_xpub :: "'h \<Rightarrow> deriv_path \<Rightarrow> 'x \<Rightarrow> 'h"
  should_stop :: "'h \<Rightarrow> bool \<times> 'h"

section \<open>Timeouts, in milliseconds\<close>

definition PROMPT_TIMEOUT :: nat where
  "PROMPT_TIMEOUT = 60000"

fun device_timeout :: "device_kind \<Rightarrow> nat" where
  "device_timeout Ledger = 500"
| "device_timeout SpecterSimulator = 500"
| "device_timeout LedgerSimulator = 500"
| "device_timeout BitBox02 = 1000"
| "device_timeout Coldcard = 3000"
| "device_timeout Specter = 3000"
| "device_timeout Jade = 3000"

fun xpub_timeout :: "device_kind \<Rightarrow> expect \<Rightarrow> bool \<Rightarrow> nat" where
  "xpub_timeout kind CanFail True = PROMPT_TIMEOUT"
| "xpub_timeout kind PromptUser prompt = PROMPT_TIMEOUT"
| "xpub_timeout kind MustFetch prompt = device_timeout kind"
| "xpub_timeout kind CanFail False = device_timeout kind"

definition display_xpub :: "device_kind \<Rightarrow> expect \<Rightarrow> bool" where
  "display_xpub kind e \<longleftrightarrow> kind \<in> {Ledger, LedgerSimulator} \<and> e \<in> {PromptUser, CanFail}"

section \<open>Paths\<close>

definition path_purpose :: "deriv_path \<Rightarrow> u32 option" where
  "path_purpose path = map_option (\<lambda>index. index AND NOT HARDENED_BIT) (first_index path)"

definition coin_type :: "network \<Rightarrow> u32" where
  "coin_type network = (if network = Bitcoin then 0 else 1)"

definition common_derivation_path_expect :: "device_kind \<Rightarrow> deriv_path \<Rightarrow> expect" where
  "common_derivation_path_expect kind path =
     (if kind = BitBox02 \<and> (path_purpose path = Some 44 \<or> path_purpose path = Some 87) then CanFail
      else if path_purpose path = Some 87 then CanFail
      else MustFetch)"

definition device_common_paths :: "device_kind \<Rightarrow> network \<Rightarrow> (deriv_path \<times> expect) list" where
  "device_common_paths kind network =
     map (\<lambda>path. let path = from_ll_path path in (path, common_derivation_path_expect kind path))
       (common_derivation_paths (coin_type network))"

definition fetch_path_expect :: "device_kind \<Rightarrow> network \<Rightarrow> deriv_path \<Rightarrow> expect" where
  "fetch_path_expect kind network path =
     (let common = list_ex (\<lambda>(common_path, _). common_path = path) (device_common_paths kind network) in
      if kind \<in> {Ledger, LedgerSimulator, BitBox02} \<and> \<not> common then PromptUser
      else common_derivation_path_expect kind path)"

definition bitbox_unlock_path :: "network \<Rightarrow> (unit, deriv_path) outcome" where
  "bitbox_unlock_path network =
     (case List.find (\<lambda>path. path_purpose path = Some 48) (map fst (device_common_paths BitBox02 network)) of
        Some path \<Rightarrow> Ok path | None \<Rightarrow> Panic)"

fun expect_priority :: "expect \<Rightarrow> nat" where
  "expect_priority MustFetch = 0"
| "expect_priority PromptUser = 1"
| "expect_priority CanFail = 2"

fun index_of :: "'a \<Rightarrow> 'a list \<Rightarrow> nat" where
  "index_of x [] = 0"
| "index_of x (y # ys) = (if y = x then 0 else Suc (index_of x ys))"

definition envelope_priority :: "xpub_collector \<Rightarrow> deriv_path \<Rightarrow> nat" where
  "envelope_priority c path = index_of path (co_deriv_paths c)"

definition purpose_priority :: "xpub_collector \<Rightarrow> deriv_path \<Rightarrow> nat" where
  "purpose_priority c path =
     (case path_purpose path of
        Some purpose \<Rightarrow> index_of purpose (co_ordering c)
      | None \<Rightarrow> length (co_ordering c))"

text \<open>A \<open>BTreeMap\<close> as an association list in key order: \<open>insert\<close> replaces, \<open>or_insert\<close> keeps.\<close>

fun map_insert :: "bool \<Rightarrow> 'k::linorder \<Rightarrow> 'v \<Rightarrow> ('k \<times> 'v) list \<Rightarrow> ('k \<times> 'v) list" where
  "map_insert keep k v [] = [(k, v)]"
| "map_insert keep k v ((j, w) # m) =
     (if k < j then (k, v) # (j, w) # m
      else if k = j then (j, if keep then w else v) # m
      else (j, w) # map_insert keep k v m)"

definition collector_paths :: "xpub_collector \<Rightarrow> device_kind \<Rightarrow> (deriv_path \<times> expect) list" where
  "collector_paths c kind =
     (let paths = fold (\<lambda>(path, e) m. map_insert False path e m) (device_common_paths kind (co_network c)) [];
          paths = fold (\<lambda>path m. map_insert True path PromptUser m) (co_deriv_paths c) paths in
      sort_key (\<lambda>(path, e). (envelope_priority c path, expect_priority e, purpose_priority c path)) paths)"

section \<open>Device calls\<close>

datatype 'x answer = Fetched 'x | CallFailed string | CallTimedOut

definition get_extended_pubkey :: "('h, 'x) device \<Rightarrow> 'h \<Rightarrow> deriv_path \<Rightarrow> nat \<Rightarrow> 'x answer \<times> 'h" where
  "get_extended_pubkey dev h path limit =
     (let (r, h) = dev_call dev h path limit in
      (case r of
         Received (Ok xpub) \<Rightarrow> Fetched xpub
       | Received (Err e) \<Rightarrow> CallFailed e
       | Received _ \<Rightarrow> CallFailed (dev_unexpected dev ''device call panicked'')
       | RecvTimeout \<Rightarrow> CallTimedOut
       | RecvDisconnected \<Rightarrow> CallFailed (dev_unexpected dev ''device call panicked''), h))"

definition unlock_bitbox :: "('h, 'x) device \<Rightarrow> network \<Rightarrow> 'h \<Rightarrow> (fetch_failed, unit) outcome \<times> 'h" where
  "unlock_bitbox dev network h =
     (if dev_kind dev \<noteq> BitBox02 then (Ok (), h)
      else
        (case bitbox_unlock_path network of
           Ok path \<Rightarrow>
             (let (r, h) = get_extended_pubkey dev h path PROMPT_TIMEOUT in
              (case r of
                 Fetched _ \<Rightarrow> Ok ()
               | CallFailed e \<Rightarrow> Err \<lparr>ff_device = BitBox02, ff_path = path, ff_expect = PromptUser, ff_error = e\<rparr>
               | CallTimedOut \<Rightarrow>
                   Err \<lparr>ff_device = BitBox02, ff_path = path, ff_expect = PromptUser, ff_error = ''Timed out''\<rparr>, h))
         | _ \<Rightarrow> (Panic, h)))"

section \<open>Collecting\<close>

text \<open>The loop over the paths, with the keys found and the warnings so far.\<close>

fun collect_loop ::
  "('h, 'x::linorder) device \<Rightarrow> ('h, 'x) hooks \<Rightarrow> bool \<Rightarrow> (deriv_path \<times> expect) list \<Rightarrow>
   'x list \<times> xpub_warning list \<Rightarrow> 'h \<Rightarrow> (fetch_failed, 'x list \<times> xpub_warning list) outcome \<times> 'h" where
  "collect_loop dev hk prompt [] (xpubs, warnings) h = (Ok (xpubs, warnings), h)"
| "collect_loop dev hk prompt ((path, e) # paths) (xpubs, warnings) h =
     (let (stop, h) = should_stop hk h in
      if stop then (Ok (xpubs, warnings), h)
      else
        (let h = dev_display dev h (display_xpub (dev_kind dev) e);
             (r, h) = get_extended_pubkey dev h path (xpub_timeout (dev_kind dev) e prompt) in
         case r of
           Fetched xpub \<Rightarrow>
             collect_loop dev hk prompt paths (btree_insert xpub xpubs, warnings) (on_xpub hk h path xpub)
         | CallFailed err \<Rightarrow>
             (let failed = \<lparr>ff_device = dev_kind dev, ff_path = path, ff_expect = e, ff_error = err\<rparr> in
              if e = MustFetch then (Err failed, h)
              else collect_loop dev hk prompt paths (xpubs, warnings @ [WarningFailed failed]) h)
         | CallTimedOut \<Rightarrow>
             (let failed = \<lparr>ff_device = dev_kind dev, ff_path = path, ff_expect = e, ff_error = ''Timed out''\<rparr> in
              if e = MustFetch then (Err failed, h)
              else collect_loop dev hk prompt paths (xpubs, warnings @ [WarningTimedOut (dev_kind dev) path]) h)))"

text \<open>\<open>devices\<close> is what enumeration gives: \<open>None\<close> when it fails.\<close>

definition collect_until ::
  "xpub_collector \<Rightarrow> ('h, 'x::linorder) device list option \<Rightarrow> ('h, 'x) hooks \<Rightarrow> 'h \<Rightarrow>
   (fetch_failed, 'x xpub_collection) outcome \<times> 'h" where
  "collect_until c devices hk h =
     (case devices of
        Some (dev # _) \<Rightarrow>
          (let paths = collector_paths c (dev_kind dev);
               (u, h) = unlock_bitbox dev (co_network c) h in
           case u of
             Ok _ \<Rightarrow>
               (let (r, h) = collect_loop dev hk (co_prompt c) paths ([], []) h in
                (andThen r (\<lambda>(xpubs, warnings). Ok \<lparr>xc_xpubs = xpubs, xc_warnings = warnings\<rparr>), h))
           | Err e \<Rightarrow> (Err e, h)
           | Panic \<Rightarrow> (Panic, h)
           | Diverges \<Rightarrow> (Diverges, h))
      | _ \<Rightarrow> (Ok \<lparr>xc_xpubs = [], xc_warnings = []\<rparr>, h))"

definition collect_all ::
  "xpub_collector \<Rightarrow> ('h, 'x::linorder) device list option \<Rightarrow> ('h \<Rightarrow> deriv_path \<Rightarrow> 'x \<Rightarrow> 'h) \<Rightarrow> 'h \<Rightarrow>
   (fetch_failed, 'x xpub_collection) outcome \<times> 'h" where
  "collect_all c devices notify h =
     collect_until c devices \<lparr>on_xpub = notify, should_stop = (\<lambda>h. (False, h))\<rparr> h"

definition collect_xpubs ::
  "deriv_path list \<Rightarrow> network \<Rightarrow> ('h, 'x::linorder) device list option \<Rightarrow> 'h \<Rightarrow>
   (fetch_failed, 'x xpub_collection) outcome \<times> 'h" where
  "collect_xpubs deriv_paths network devices h =
     collect_all (collector_new deriv_paths network)
       devices (\<lambda>h path xpub. h) h"

definition fetch_first_origin_xpub_at_path ::
  "deriv_path \<Rightarrow> network \<Rightarrow> ('h, 'x) device list option \<Rightarrow> 'h \<Rightarrow>
   (fetch_failed, 'x fetched_xpub option) outcome \<times> 'h" where
  "fetch_first_origin_xpub_at_path path network devices h =
     (case devices of
        Some (dev # _) \<Rightarrow>
          (let kind = dev_kind dev; e = fetch_path_expect kind network path;
               failed = (\<lambda>err. \<lparr>ff_device = kind, ff_path = path, ff_expect = e, ff_error = err\<rparr>);
               (u, h) = unlock_bitbox dev network h in
           case u of
             Ok _ \<Rightarrow>
               (let (fp, h) = dev_fingerprint dev h in
                case fp of
                  Ok fingerprint \<Rightarrow>
                    (let h = dev_display dev h (display_xpub kind e);
                         (r, h) = get_extended_pubkey dev h path PROMPT_TIMEOUT in
                     (case r of
                        Fetched xpub \<Rightarrow> Ok (Some \<lparr>fx_fingerprint = fingerprint, fx_xpub = xpub\<rparr>)
                      | CallFailed err \<Rightarrow> Err (failed err)
                      | CallTimedOut \<Rightarrow> Err (failed ''Timed out''), h))
                | Err err \<Rightarrow> (Err (failed err), h)
                | Panic \<Rightarrow> (Panic, h)
                | Diverges \<Rightarrow> (Diverges, h))
           | Err err \<Rightarrow> (Err err, h)
           | Panic \<Rightarrow> (Panic, h)
           | Diverges \<Rightarrow> (Diverges, h))
      | _ \<Rightarrow> (Ok None, h))"

definition fetch_first_xpub_at_path ::
  "deriv_path \<Rightarrow> network \<Rightarrow> ('h, 'x) device list option \<Rightarrow> 'h \<Rightarrow> (fetch_failed, 'x option) outcome \<times> 'h" where
  "fetch_first_xpub_at_path path network devices h =
     (let (r, h) = fetch_first_origin_xpub_at_path path network devices h in
      (andThen r (\<lambda>f. Ok (map_option fx_xpub f)), h))"

text \<open>\<open>device_network\<close> of the command line: a path under coin type 1 means a test network.\<close>

definition device_network :: "deriv_path list \<Rightarrow> network" where
  "device_network deriv_paths =
     (if list_ex (\<lambda>path. (case to_u32_vec path of _ # index # _ \<Rightarrow> index AND NOT HARDENED_BIT = 1 | _ \<Rightarrow> False)) deriv_paths
      then Testnet else Bitcoin)"

section \<open>The paths asked for\<close>

lemma set_map_insert: "fst ` set (map_insert keep k v m) = insert k (fst ` set m)"
proof (induction m)
  case (Cons a m)
  then show ?case by (cases a) (simp add: insert_commute)
qed simp

lemma sorted_map_insert:
  "sorted_wrt (<) (map fst m) \<Longrightarrow> sorted_wrt (<) (map fst (map_insert keep k v m))"
proof (induction m)
  case (Cons a m)
  have keys: "set (map fst (map_insert keep k v m)) = insert k (set (map fst m))"
    by (simp add: set_map_insert)
  from Cons show ?case
    using keys by (cases a) (auto simp del: set_map)
qed simp

lemma map_of_map_insert:
  "sorted_wrt (<) (map fst m) \<Longrightarrow>
   map_of (map_insert keep k v m) = (if keep \<and> k \<in> fst ` set m then map_of m else (map_of m)(k \<mapsto> v))"
proof (induction m)
  case (Cons a m)
  then show ?case by (cases a) (force simp: fun_eq_iff)
qed simp

lemma collected_keep:
  assumes "sorted_wrt (<) (map fst m)"
  shows "sorted_wrt (<) (map fst (fold (\<lambda>p m. map_insert True p v m) ps m)) \<and>
    map_of (fold (\<lambda>p m. map_insert True p v m) ps m) =
      (\<lambda>p. if map_of m p = None \<and> p \<in> set ps then Some v else map_of m p)"
  using assms
proof (induction ps arbitrary: m)
  case (Cons p ps)
  have m: "map_of (map_insert True p v m) =
      (if map_of m p = None then (map_of m)(p \<mapsto> v) else map_of m)"
    using Cons.prems by (simp add: map_of_map_insert map_of_eq_None_iff)
  show ?case
    using Cons.IH [OF sorted_map_insert [OF Cons.prems], of True p v]
    by (auto simp: m fun_eq_iff simp del: map_of_eq_None_iff)
qed (simp add: fun_eq_iff)

lemma collected_replace:
  assumes "sorted_wrt (<) (map fst m)"
  shows "sorted_wrt (<) (map fst (fold (\<lambda>(p, e) m. map_insert False p e m) kvs m)) \<and>
    map_of (fold (\<lambda>(p, e) m. map_insert False p e m) kvs m) = map_of m ++ map_of (rev kvs)"
  using assms
proof (induction kvs arbitrary: m)
  case (Cons kv kvs)
  then show ?case
    by (cases kv) (auto simp: sorted_map_insert map_of_map_insert fun_eq_iff map_add_def split: option.splits)
qed simp

lemma map_of_tagged: "map_of (map (\<lambda>p. (p, g p)) ps) = (\<lambda>p. if p \<in> set ps then Some (g p) else None)"
  by (induction ps) auto

lemma device_common_paths_eq:
  "device_common_paths kind network =
     map (\<lambda>p. (p, common_derivation_path_expect kind p)) (common_derivation_paths (coin_type network))"
  by (simp add: device_common_paths_def Let_def)

definition common_of :: "network \<Rightarrow> deriv_path set" where
  "common_of network = set (common_derivation_paths (coin_type network))"

definition path_key :: "xpub_collector \<Rightarrow> deriv_path \<times> expect \<Rightarrow> nat \<times> nat \<times> nat" where
  "path_key c = (\<lambda>(path, e). (envelope_priority c path, expect_priority e, purpose_priority c path))"

lemma map_of_distinct_eq:
  assumes "distinct (map fst xs)" "set xs = set ys" "distinct (map fst ys)"
  shows "map_of xs = map_of ys"
  using assms by (simp add: map_of_inject_set)

lemma collector_paths_facts:
  shows collector_paths_distinct: "distinct (map fst (collector_paths c kind))"
    and collector_paths_map:
      "map_of (collector_paths c kind) =
         (\<lambda>p. if p \<in> common_of (co_network c) then Some (common_derivation_path_expect kind p)
              else if p \<in> set (co_deriv_paths c) then Some PromptUser else None)"
    and collector_paths_sorted: "sorted (map (path_key c) (collector_paths c kind))"
proof -
  define com where "com = device_common_paths kind (co_network c)"
  define m where "m = fold (\<lambda>(p, e) m. map_insert False p e m) com []"
  define m' where "m' = fold (\<lambda>p m. map_insert True p PromptUser m) (co_deriv_paths c) m"
  have eq: "collector_paths c kind = sort_key (path_key c) m'"
    by (simp add: collector_paths_def path_key_def m'_def m_def com_def Let_def)
  have m: "sorted_wrt (<) (map fst m)" "map_of m = map_of (rev com)"
    using collected_replace [of "[]" com] by (simp_all add: m_def)
  have m': "sorted_wrt (<) (map fst m')"
    "map_of m' = (\<lambda>p. if map_of m p = None \<and> p \<in> set (co_deriv_paths c) then Some PromptUser else map_of m p)"
    using collected_keep [OF m(1), of PromptUser "co_deriv_paths c"] by (simp_all add: m'_def)
  have d: "distinct (map fst m')"
    using m'(1) by (simp add: strict_sorted_iff)
  show dist: "distinct (map fst (collector_paths c kind))"
    unfolding eq using d by (simp add: distinct_map)
  have "map_of (collector_paths c kind) = map_of m'"
    by (rule map_of_distinct_eq [OF dist _ d]) (simp add: eq)
  also have "\<dots> = (\<lambda>p. if p \<in> common_of (co_network c) then Some (common_derivation_path_expect kind p)
              else if p \<in> set (co_deriv_paths c) then Some PromptUser else None)"
    by (simp add: m' m com_def device_common_paths_eq rev_map map_of_tagged common_of_def fun_eq_iff)
  finally show "map_of (collector_paths c kind) = \<dots>" .
  show "sorted (map (path_key c) (collector_paths c kind))"
    by (simp add: eq)
qed

text \<open>The paths of the envelope come first, in the order of the envelope.\<close>

lemma index_of_less: "x \<in> set xs \<longleftrightarrow> index_of x xs < length xs"
  by (induction xs) auto

lemma index_of_inj: "inj_on (\<lambda>x. index_of x xs) (set xs)"
  by (induction xs) (auto simp: inj_on_def)

lemma sorted_index_of: "distinct xs \<Longrightarrow> sorted (map (\<lambda>x. index_of x xs) xs)"
proof (induction xs)
  case (Cons y xs)
  then have eq: "map (\<lambda>x. index_of x (y # xs)) xs = map (\<lambda>x. Suc (index_of x xs)) xs"
    by (auto intro!: map_cong)
  have "sorted (map (\<lambda>x. Suc (index_of x xs)) xs)"
    using Cons by (simp add: sorted_wrt_map)
  then have "sorted (0 # map (\<lambda>x. index_of x (y # xs)) xs)"
    unfolding eq by simp
  then show ?case by simp
qed simp

lemma filter_sorted_takeWhile:
  "sorted (map k ps) \<Longrightarrow> filter (\<lambda>p. k p < (n::nat)) ps = takeWhile (\<lambda>p. k p < n) ps"
proof (induction ps)
  case (Cons p ps)
  show ?case
  proof (cases "k p < n")
    case False
    have "\<forall>q \<in> set ps. \<not> k q < n"
      using Cons.prems False by fastforce
    then show ?thesis
      using False by (simp add: filter_empty_conv)
  qed (use Cons in simp)
qed simp

lemma sorted_prefix_index_of:
  assumes "distinct ds" "distinct ps" "set ds \<subseteq> set ps" "sorted (map (\<lambda>p. index_of p ds) ps)"
  shows "take (length ds) ps = ds"
proof -
  define k where "k = (\<lambda>p. index_of p ds)"
  define early where "early = takeWhile (\<lambda>p. k p < length ds) ps"
  have "filter (\<lambda>p. k p < length ds) ps = early"
    using assms(4) unfolding early_def k_def by (rule filter_sorted_takeWhile)
  then have f: "filter (\<lambda>p. p \<in> set ds) ps = early"
    by (simp add: k_def index_of_less)
  have "early = ds"
  proof (rule map_sorted_distinct_set_unique)
    have "set early = set ds"
      using assms(3) unfolding f [symmetric] by auto
    then show "set early = set ds" "inj_on k (set early \<union> set ds)"
      by (simp_all add: index_of_inj k_def)
    show "sorted (map k early)"
      using assms(4) unfolding f [symmetric] k_def by (rule sorted_filter)
    show "sorted (map k ds)"
      using assms(1) by (simp add: k_def sorted_index_of)
    show "distinct (map k early)" "distinct (map k ds)"
      using assms(1,2) \<open>inj_on k (set early \<union> set ds)\<close> unfolding f [symmetric]
      by (auto simp: distinct_map intro: inj_on_subset)
  qed
  then show ?thesis
    by (metis early_def takeWhile_eq_take length_takeWhile_le)
qed

lemma collector_paths_envelope_first:
  assumes "distinct (co_deriv_paths c)"
  shows "take (length (co_deriv_paths c)) (map fst (collector_paths c kind)) = co_deriv_paths c"
proof (rule sorted_prefix_index_of [OF assms collector_paths_distinct])
  have "fst ` set (collector_paths c kind) = dom (map_of (collector_paths c kind))"
    by (simp add: dom_map_of_conv_image_fst)
  then show "set (co_deriv_paths c) \<subseteq> set (map fst (collector_paths c kind))"
    by (auto simp: collector_paths_map dom_def)
  have "sorted (map (fst \<circ> path_key c) (collector_paths c kind))"
    using collector_paths_sorted [of c kind]
    by (auto simp: sorted_wrt_map less_eq_prod_def elim!: sorted_wrt_mono_rel [rotated])
  then show "sorted (map (\<lambda>p. index_of p (co_deriv_paths c)) (map fst (collector_paths c kind)))"
    by (simp add: path_key_def envelope_priority_def comp_def case_prod_beta)
qed

lemma bitbox_unlock_path_eq:
  "bitbox_unlock_path network =
     Ok (DerivationPath [hardened 48, hardened (coin_type network), hardened 0, hardened 1])"
proof -
  have "path_purpose (DerivationPath (hardened 48 # cs)) = Some 48" for cs
    by (simp add: path_purpose_def first_index_def) (code_simp)
  then show ?thesis
    by (simp add: bitbox_unlock_path_def device_common_paths_eq common_derivation_paths_def comp_def
        COMMON_ACCOUNT_MAX_def upt_rec)
qed

section \<open>What a collection gives\<close>

lemma collect_loop_Err:
  "fst (collect_loop dev hk prompt ps acc h) = Err f \<Longrightarrow>
   ff_expect f = MustFetch \<and> ff_device f = dev_kind dev \<and> (ff_path f, MustFetch) \<in> set ps"
  by (induction dev hk prompt ps acc h rule: collect_loop.induct)
    (auto simp: Let_def split: prod.splits if_splits answer.splits)

lemma collect_loop_safe:
  "fst (collect_loop dev hk prompt ps acc h) \<noteq> Panic \<and> fst (collect_loop dev hk prompt ps acc h) \<noteq> Diverges"
proof (induction ps arbitrary: acc h)
  case (Cons q ps)
  show ?case
    using Cons.IH by (cases q; cases acc) (simp add: Let_def split: prod.splits answer.splits)
next
  case Nil
  show ?case by (cases acc) simp
qed

lemma unlock_bitbox_safe:
  "fst (unlock_bitbox dev network h) = Ok () \<or>
   (\<exists>f. fst (unlock_bitbox dev network h) = Err f \<and> ff_device f = BitBox02 \<and> ff_expect f = PromptUser)"
  by (simp add: unlock_bitbox_def bitbox_unlock_path_eq Let_def split: prod.splits answer.splits)

text \<open>A device whose answers depend on the path only.\<close>

definition steady :: "('h, 'x) device \<Rightarrow> (deriv_path \<Rightarrow> 'x answer) \<Rightarrow> bool" where
  "steady dev ans \<longleftrightarrow> (\<forall>h p limit. fst (get_extended_pubkey dev h p limit) = ans p)"

fun failure_of :: "'x answer \<Rightarrow> string option" where
  "failure_of (Fetched x) = None"
| "failure_of (CallFailed e) = Some e"
| "failure_of CallTimedOut = Some ''Timed out''"

fun answer_key :: "'x answer \<Rightarrow> 'x list" where
  "answer_key (Fetched x) = [x]"
| "answer_key _ = []"

fun answer_warning :: "device_kind \<Rightarrow> deriv_path \<times> expect \<Rightarrow> 'x answer \<Rightarrow> xpub_warning list" where
  "answer_warning kind (p, e) (Fetched x) = []"
| "answer_warning kind (p, e) (CallFailed err) =
     [WarningFailed \<lparr>ff_device = kind, ff_path = p, ff_expect = e, ff_error = err\<rparr>]"
| "answer_warning kind (p, e) CallTimedOut = [WarningTimedOut kind p]"

text \<open>Unlocking a BitBox02 asks for one path before all others.\<close>

definition unlock_failure ::
  "device_kind \<Rightarrow> network \<Rightarrow> (deriv_path \<Rightarrow> 'x answer) \<Rightarrow> fetch_failed option" where
  "unlock_failure kind network ans =
     (if kind \<noteq> BitBox02 then None
      else
        (case bitbox_unlock_path network of
           Ok p \<Rightarrow> map_option (\<lambda>err. \<lparr>ff_device = BitBox02, ff_path = p, ff_expect = PromptUser, ff_error = err\<rparr>)
             (failure_of (ans p))
         | _ \<Rightarrow> None))"

lemma unlock_bitbox_steady:
  "steady dev ans \<Longrightarrow>
   fst (unlock_bitbox dev network h) =
     (case unlock_failure (dev_kind dev) network ans of Some f \<Rightarrow> Err f | None \<Rightarrow> Ok ())"
proof -
  assume "steady dev ans"
  then have "fst (get_extended_pubkey dev h p limit) = ans p" for p limit by (simp add: steady_def)
  then show ?thesis
    by (cases "ans (DerivationPath [hardened 48, hardened (coin_type network), hardened 0, hardened 1])")
      (auto simp: unlock_bitbox_def unlock_failure_def bitbox_unlock_path_eq Let_def case_prod_unfold)
qed

definition must_fail :: "(deriv_path \<Rightarrow> 'x answer) \<Rightarrow> (deriv_path \<times> expect) list \<Rightarrow> deriv_path option" where
  "must_fail ans ps = map_option fst (List.find (\<lambda>(p, e). e = MustFetch \<and> failure_of (ans p) \<noteq> None) ps)"

definition never_stop :: "('h, 'x) hooks \<Rightarrow> bool" where
  "never_stop hk \<longleftrightarrow> (\<forall>h. \<not> fst (should_stop hk h))"

lemma collect_loop_steady:
  assumes "steady dev ans" "never_stop hk"
  shows "fst (collect_loop dev hk prompt ps (xs, ws) h) =
    (case must_fail ans ps of
       Some p \<Rightarrow> Err \<lparr>ff_device = dev_kind dev, ff_path = p, ff_expect = MustFetch,
                    ff_error = the (failure_of (ans p))\<rparr>
     | None \<Rightarrow> Ok (btree_extend xs (concat (map (\<lambda>(p, e). answer_key (ans p)) ps)),
                   ws @ concat (map (\<lambda>(p, e). answer_warning (dev_kind dev) (p, e) (ans p)) ps)))"
proof (induction ps arbitrary: xs ws h)
  case (Cons q ps)
  obtain p e where q: "q = (p, e)"
    by (cases q)
  obtain h1 where h1: "should_stop hk h = (False, h1)"
    using assms(2) by (metis (full_types) never_stop_def prod.collapse)
  define h2 where "h2 = dev_display dev h1 (display_xpub (dev_kind dev) e)"
  obtain h3 where h3: "get_extended_pubkey dev h2 p (xpub_timeout (dev_kind dev) e prompt) = (ans p, h3)"
    using assms(1) by (metis steady_def prod.collapse)
  show ?case
    by (cases "ans p")
      (simp_all add: q h1 h3 h2_def [symmetric] Let_def must_fail_def btree_extend_def Cons.IH
        split: option.splits)
qed (simp add: must_fail_def btree_extend_def)

section \<open>Properties\<close>

text \<open>
  The paths a device is asked for: the common ones of its network with the expectation of the device
  and those of the envelope, each once; a path of the envelope that is not common prompts the user. They
  are sorted by place in the envelope, then by expectation, then by purpose.
\<close>

theorem collector_paths_spec:
  "distinct (map fst (collector_paths c kind)) \<and>
   map_of (collector_paths c kind) =
     (\<lambda>p. if p \<in> set (common_derivation_paths (coin_type (co_network c))) then Some (common_derivation_path_expect kind p)
          else if p \<in> set (co_deriv_paths c) then Some PromptUser else None) \<and>
   sorted (map (path_key c) (collector_paths c kind))"
  using collector_paths_distinct collector_paths_map [of c kind] collector_paths_sorted
  by (simp add: common_of_def)

text \<open>
  The paths of the envelope are asked for first, in the order of the envelope, common or not.
\<close>

lemma envelope_paths_first:
  assumes "distinct (co_deriv_paths c)"
  shows "take (length (co_deriv_paths c)) (map fst (collector_paths c kind)) = co_deriv_paths c"
  using assms by (rule collector_paths_envelope_first)

lemma envelope_paths_first_witness:
  "take 2 (map fst (collector_paths
      \<lparr>co_deriv_paths = [DerivationPath [9], DerivationPath [8]], co_network = Bitcoin, co_ordering = [], co_prompt = False\<rparr>
      Ledger)) = [DerivationPath [9], DerivationPath [8]]"
  using envelope_paths_first [of
      "\<lparr>co_deriv_paths = [DerivationPath [9], DerivationPath [8]], co_network = Bitcoin, co_ordering = [], co_prompt = False\<rparr>"
      Ledger]
  by (simp add: numeral_2_eq_2)


text \<open>A Ledger that answers every path with the number of its child numbers.\<close>

definition counting_device :: "(unit, nat) device" where
  "counting_device = \<lparr>dev_kind = Ledger, dev_display = (\<lambda>h b. h),
     dev_call = (\<lambda>h p limit. (Received (Ok (path_len p)), h)), dev_fingerprint = (\<lambda>h. (Ok 0, h)),
     dev_unexpected = (\<lambda>s. s)\<rparr>"

text \<open>A BitBox02 that stays locked.\<close>

definition locked_bitbox :: "(unit, nat) device" where
  "locked_bitbox = counting_device\<lparr>dev_kind := BitBox02, dev_call := (\<lambda>h p limit. (RecvTimeout, h))\<rparr>"


end
