(* ===== verification/Cli.thy ===== *)
theory Cli
  imports Backup Devices
begin

text \<open>
  The command line (\<open>src/bin/main.rs\<close>): the wrapping key file, nested encryption levels, the encrypt,
  decrypt and inspect commands on the contents of their files, the worker that tries the keys a device
  delivers, and the helpers. Here a command is a function of what it reads, and a file that cannot be
  read is \<open>None\<close>; what commands do to files and the terminal is in \<open>Main_Command\<close>. Shown: what a key
  file parses to, that each level opens with each of its keys and gives back the level below, and what
  the worker reports.
\<close>

section \<open>Errors and parameters\<close>

datatype cli_error =
    CantConvertToDescriptor
  | CantConvertToXpub
  | EmptyDescriptor
  | CwdError
  | CreateError
  | OpenError
  | WriteError
  | ReadError
  | StdinError
  | StdoutError
  | FailedToEncrypt bip_error
  | FailedToDecrypt bip_error
  | FailedToInspect bip_error
  | JsonError
  | WrapKeys
  | DeviceWithKeys
  | FailedToFetchXpub fetch_failed
  | InvalidDeviceDerivationPath
  | CliContent
  | NoKeys

type_synonym 'a cli = "(cli_error, 'a) outcome"

text \<open>Miniscript's parser of key expressions, on trimmed UTF-8 text, and the key of an extended key.\<close>

record ('pk, 'x) key_parser =
  key_from_str :: "bytes \<Rightarrow> ('pk, 'x) dpk option"
  xkey_public_key :: "'x \<Rightarrow> 'pk"

type_synonym ('pk, 'x, 'd, 'v) cli_externals = "('pk, ('pk, 'x) dpk, 'd, 'v) externals"

text \<open>\<open>fs::read_to_string\<close>: an absent file and one that is not UTF-8 both fail.\<close>

definition read_to_string :: "bytes option \<Rightarrow> bytes option" where
  "read_to_string file = (case file of Some bs \<Rightarrow> if utf8_valid bs then Some bs else None | None \<Rightarrow> None)"

section \<open>Standard input\<close>

fun read_lines :: "bytes list \<Rightarrow> bytes list \<Rightarrow> bytes list cli" where
  "read_lines [] args = Ok args"
| "read_lines (line # ls) args =
     (if utf8_valid line then read_lines ls (args @ split_whitespace line) else Err StdinError)"

definition read_stdin_args :: "bytes \<Rightarrow> bytes list cli" where
  "read_stdin_args input = read_lines (lines_of input) []"

text \<open>\<open>None\<close> when the reading thread does not deliver in time.\<close>

definition read_args_within :: "bytes list cli option \<Rightarrow> bytes list cli" where
  "read_args_within received = (case received of Some args \<Rightarrow> args | None \<Rightarrow> Ok [])"

section \<open>The wrapping key file\<close>

record ('pk, 'x) wrap_level =
  wl_msg :: "bytes option"
  wl_keys :: "('pk, 'x) dpk list"

fun key_has_origin :: "('pk, 'x) dpk \<Rightarrow> bool" where
  "key_has_origin (DXPub origin xkey path w) \<longleftrightarrow> origin \<noteq> None"
| "key_has_origin (DMultiXPub origin xkey paths w) \<longleftrightarrow> origin \<noteq> None"
| "key_has_origin (DSingle origin key) \<longleftrightarrow> False"

definition parse_level_key :: "('pk, 'x) key_parser \<Rightarrow> bytes \<Rightarrow> ('pk, 'x) dpk cli" where
  "parse_level_key K key =
     andThen (ok_or CantConvertToXpub (key_from_str K key)) (\<lambda>key.
     if key_has_origin key then Ok key else Err WrapKeys)"

definition parse_level :: "('pk, 'x) key_parser \<Rightarrow> bytes \<Rightarrow> ('pk, 'x) wrap_level cli" where
  "parse_level K line =
     (let (msg, ks) = (case split_once [0x7C, 0x7C] line of
          Some (msg, ks) \<Rightarrow> (let msg = trim msg in (if msg \<noteq> [] then Some msg else None, ks))
        | None \<Rightarrow> (None, line)) in
      andThen (collect_results (parse_level_key K) (filter (\<lambda>key. key \<noteq> []) (map trim (split_on 0x7C ks)))) (\<lambda>ks.
      if ks = [] then Err WrapKeys
      else Ok \<lparr>wl_msg = msg, wl_keys = ks\<rparr>))"

fun parse_levels :: "('pk, 'x) key_parser \<Rightarrow> bytes list \<Rightarrow> ('pk, 'x) wrap_level list \<Rightarrow> ('pk, 'x) wrap_level list cli" where
  "parse_levels K [] levels = Ok levels"
| "parse_levels K (line # ls) levels =
     (let line = trim line in
      if line = [] \<or> starts_with line [0x23] then parse_levels K ls levels
      else andThen (parse_level K line) (\<lambda>level. parse_levels K ls (levels @ [level])))"

definition parse_wrap_keys :: "('pk, 'x) key_parser \<Rightarrow> bytes \<Rightarrow> ('pk, 'x) wrap_level list cli" where
  "parse_wrap_keys K data = parse_levels K (lines_of data) []"

section \<open>Encrypting\<close>

definition wrap_level_public_keys ::
  "('pk::linorder, ('pk, 'x) dpk, 'd) backend \<Rightarrow> ('pk, 'x) key_parser \<Rightarrow> ('pk, 'x) wrap_level \<Rightarrow> 'pk list" where
  "wrap_level_public_keys B K level =
     fold (\<lambda>key ks. case dpk_to_pk B key of
         Ok pk \<Rightarrow> btree_insert pk ks
       | _ \<Rightarrow> (case key of
           DXPub origin xkey path w \<Rightarrow> btree_insert (xkey_public_key K xkey) ks
         | DMultiXPub origin xkey paths w \<Rightarrow> btree_insert (xkey_public_key K xkey) ks
         | DSingle origin k \<Rightarrow> ks)) (wl_keys level) []"

definition wrap_level_derivation_paths :: "('pk, 'x) wrap_level \<Rightarrow> deriv_path list" where
  "wrap_level_derivation_paths level =
     fold (\<lambda>key paths. case key of
         DXPub origin xkey path w \<Rightarrow> (case origin of Some (_, p) \<Rightarrow> btree_insert p paths | None \<Rightarrow> paths)
       | DMultiXPub origin xkey ps w \<Rightarrow> (case origin of Some (_, p) \<Rightarrow> btree_insert p paths | None \<Rightarrow> paths)
       | DSingle origin k \<Rightarrow> paths) (wl_keys level) []"

text \<open>
  The functions that encrypt to a level print the warnings of its backup on the way; as steps they are in
  theory \<open>Main_Command\<close>. Here is what they return when the printing succeeds, which is what decryption is
  about.
\<close>

definition level_value ::
  "('pk::linorder, 'x, 'd, 'v) cli_externals \<Rightarrow> ('pk, 'x) key_parser \<Rightarrow> 's rng \<Rightarrow> 's \<Rightarrow> ('pk, 'x) wrap_level \<Rightarrow>
   ('pk, ('pk, 'x) dpk) to_payload list \<Rightarrow> (('pk, ('pk, 'x) dpk) encrypted \<times> 's) cli" where
  "level_value X K fill s level payloads =
     (let ks = wrap_level_public_keys (ext_backend X) K level;
          paths = wrap_level_derivation_paths level in
      if ks = [] then Err NoKeys
      else
        andThen (map_err FailedToEncrypt (set_payloads (ext_backend X) payloads eb_new)) (\<lambda>b.
        let backup = set_keys (ext_backend X) ks (set_derivation_paths paths b) in
        map_err FailedToEncrypt (encrypt X fill s backup)))"

definition msg_item :: "bytes option \<Rightarrow> ('pk, 'dk) to_payload list" where
  "msg_item msg = (case msg of None \<Rightarrow> [] | Some m \<Rightarrow> [string_item m])"

definition descriptor_level_value ::
  "('pk::linorder, 'x::linorder, 'd, 'v) cli_externals \<Rightarrow> ('pk, 'x) key_parser \<Rightarrow> 's rng \<Rightarrow> 's \<Rightarrow> ('pk, 'x) wrap_level \<Rightarrow>
   bytes option \<Rightarrow> 'd \<Rightarrow> (('pk, ('pk, 'x) dpk) encrypted \<times> 's) cli" where
  "descriptor_level_value X K fill s level msg descriptor =
     level_value X K fill s level
       (msg_item (wl_msg level) @ msg_item msg @ [descriptor_item (ext_backend X) descriptor])"

definition wrap_level_value ::
  "('pk::linorder, 'x, 'd, 'v) cli_externals \<Rightarrow> ('pk, 'x) key_parser \<Rightarrow> 's rng \<Rightarrow> 's \<Rightarrow> ('pk, 'x) wrap_level \<Rightarrow>
   bytes \<Rightarrow> (('pk, ('pk, 'x) dpk) encrypted \<times> 's) cli" where
  "wrap_level_value X K fill s level bs =
     level_value X K fill s level (msg_item (wl_msg level) @ [bip138_item (Bip138 bs)])"

text \<open>The outer levels, innermost first.\<close>

fun wrap_value ::
  "('pk::linorder, 'x, 'd, 'v) cli_externals \<Rightarrow> ('pk, 'x) key_parser \<Rightarrow> 's rng \<Rightarrow> 's \<Rightarrow> ('pk, 'x) wrap_level list \<Rightarrow>
   ('pk, ('pk, 'x) dpk) encrypted \<Rightarrow> (('pk, ('pk, 'x) dpk) encrypted \<times> 's) cli" where
  "wrap_value X K fill s [] encrypted = Ok (encrypted, s)"
| "wrap_value X K fill s (level # levels) encrypted =
     andThen (wrap_level_value X K fill s level (enc_bytes encrypted)) (\<lambda>(encrypted, s).
     wrap_value X K fill s levels encrypted)"

definition descriptor_backup ::
  "('pk::linorder, 'dk::linorder, 'd, 'v) externals \<Rightarrow> bytes option \<Rightarrow> 'd \<Rightarrow> ('pk, 'dk) encrypted_backup cli" where
  "descriptor_backup X msg descriptor =
     (case msg of
        Some msg \<Rightarrow> map_err FailedToEncrypt
          (set_payloads (ext_backend X) [string_item msg, descriptor_item (ext_backend X) descriptor] eb_new)
      | None \<Rightarrow> map_err FailedToEncrypt
          (set_payload (ext_backend X) (descriptor_item (ext_backend X) descriptor) eb_new))"

text \<open>The bytes the encrypt command computes, without a signing device: \<open>None\<close> for \<open>--keys\<close> not given.\<close>

definition encrypt_command ::
  "('pk::linorder, 'x::linorder, 'd, 'v) cli_externals \<Rightarrow> ('pk, 'x) key_parser \<Rightarrow> 's rng \<Rightarrow> 's \<Rightarrow>
   bytes option \<Rightarrow> bytes option \<Rightarrow> bytes option option \<Rightarrow> (bytes \<times> 's) cli" where
  "encrypt_command X K fill s file msg key_file =
     andThen (ok_or ReadError (read_to_string file)) (\<lambda>data.
     andThen (case key_file of
         Some f \<Rightarrow> andThen (ok_or ReadError (read_to_string f)) (\<lambda>t. parse_wrap_keys K t)
       | None \<Rightarrow> Ok []) (\<lambda>wrap_levels.
     andThen (ok_or CantConvertToDescriptor (parse_descriptor (ext_backend X) (trim data))) (\<lambda>descriptor.
     if wrap_levels \<noteq> [] then
       andThen (descriptor_level_value X K fill s (last wrap_levels) msg descriptor) (\<lambda>(encrypted, s).
       andThen (wrap_value X K fill s (rev (butlast wrap_levels)) encrypted) (\<lambda>(encrypted, s).
       Ok (enc_bytes encrypted, s)))
     else
       andThen (descriptor_backup X msg descriptor) (\<lambda>backup.
       andThen (map_err FailedToEncrypt (encrypt X fill s backup)) (\<lambda>(encrypted, s).
       Ok (enc_bytes encrypted, s))))))"

text \<open>
  What it tells the user: the derivation paths it uses, without a key file, and the warnings of the backup
  of the descriptor, the only ones there are with a key file.
\<close>

definition encrypt_report ::
  "('pk::linorder, 'x::linorder, 'd, 'v) cli_externals \<Rightarrow> ('pk, 'x) key_parser \<Rightarrow> 's rng \<Rightarrow> 's \<Rightarrow>
   bytes option \<Rightarrow> bytes option \<Rightarrow> bytes option option \<Rightarrow> (deriv_path list \<times> ('pk, ('pk, 'x) dpk) warning list) cli" where
  "encrypt_report X K fill s file msg key_file =
     andThen (ok_or ReadError (read_to_string file)) (\<lambda>data.
     andThen (case key_file of
         Some f \<Rightarrow> andThen (ok_or ReadError (read_to_string f)) (\<lambda>t. parse_wrap_keys K t)
       | None \<Rightarrow> Ok []) (\<lambda>wrap_levels.
     andThen (ok_or CantConvertToDescriptor (parse_descriptor (ext_backend X) (trim data))) (\<lambda>descriptor.
     if wrap_levels \<noteq> [] then
       andThen (descriptor_level_value X K fill s (last wrap_levels) msg descriptor) (\<lambda>(encrypted, s).
       Ok ([], enc_warnings encrypted))
     else
       andThen (descriptor_backup X msg descriptor) (\<lambda>backup.
       Ok (eb_derivation_paths backup, eb_warnings backup)))))"

section \<open>Decrypting\<close>

fun decrypted_to_bytes ::
  "('pk::linorder, 'dk::linorder, 'd, 'v) externals \<Rightarrow> ('d, 'dk, 'p) decrypted \<Rightarrow> bytes cli" where
  "decrypted_to_bytes X (Dec_Descriptor descr) = Ok (show_descriptor (ext_backend X) descr)"
| "decrypted_to_bytes X (Dec_DescriptorBackup backup) =
     map_err FailedToDecrypt (tp_payload (descriptor_backup_item (ext_backend X) (ext_backup_json X) backup))"
| "decrypted_to_bytes X (Dec_PolicyBackup backup) =
     map_err FailedToDecrypt (tp_payload (policy_backup_item (ext_backend X) (ext_policy_json X) backup))"
| "decrypted_to_bytes X (Dec_String msg) = Ok msg"
| "decrypted_to_bytes X (Dec_Bip138 bs) = Ok bs"
| "decrypted_to_bytes X _ = Err CliContent"

fun document_loop ::
  "('pk::linorder, 'dk::linorder, 'd, 'v) externals \<Rightarrow> ('d, 'dk, 'p) decrypted list \<Rightarrow> bytes \<Rightarrow> bytes cli" where
  "document_loop X [] document = Ok document"
| "document_loop X (d # ds) document =
     (let document = (if document \<noteq> [] then document @ [0x0A] else document) in
      andThen (decrypted_to_bytes X d) (\<lambda>bs. document_loop X ds (document @ bs)))"

definition decrypted_to_document ::
  "('pk::linorder, 'dk::linorder, 'd, 'v) externals \<Rightarrow> ('d, 'dk, 'p) decrypted list \<Rightarrow> bytes cli" where
  "decrypted_to_document X decrypted = document_loop X decrypted []"

definition read_key_file :: "('pk, 'x) key_parser \<Rightarrow> bytes option \<Rightarrow> bool \<Rightarrow> ('pk, 'x) dpk option cli" where
  "read_key_file K file requested =
     (case read_to_string file of
        Some data \<Rightarrow> andThen (ok_or CantConvertToXpub (key_from_str K (trim data))) (\<lambda>key. Ok (Some key))
      | None \<Rightarrow> if requested then Err ReadError else Ok None)"

text \<open>The decrypt command, in a build without signing devices.\<close>

definition decrypt_command ::
  "('pk::linorder, 'x::linorder, 'd, 'v) cli_externals \<Rightarrow> ('pk, 'x) key_parser \<Rightarrow> bytes option \<Rightarrow> bool \<Rightarrow>
   bytes option \<Rightarrow> bytes cli" where
  "decrypt_command X K key_file key_given file =
     andThen (read_key_file K key_file key_given) (\<lambda>key.
     andThen (ok_or ReadError file) (\<lambda>data.
     andThen (map_err FailedToDecrypt (set_encrypted_payload X data eb_new)) (\<lambda>backup.
     andThen (ok_or NoKeys key) (\<lambda>k.
     andThen (map_err FailedToDecrypt (dpk_to_root_pk (ext_backend X) k)) (\<lambda>pk.
     andThen (map_err FailedToDecrypt (decrypt X (set_keys (ext_backend X) [pk] backup))) (\<lambda>decrypted.
     andThen (decrypted_to_document X decrypted) (\<lambda>document.
     Ok (document @ [0x0A]))))))))"

text \<open>
  With signing devices a worker thread receives keys. Each key comes with what the worker reads in the
  stop flag before trying it, \<open>stop_end\<close> is the flag when the channel closes. The result is the message
  it sends, if any.
\<close>

fun decrypt_worker ::
  "('pk::linorder, 'dk::linorder, 'd, 'v) externals \<Rightarrow> ('pk, 'dk) encrypted_backup \<Rightarrow> bool \<Rightarrow> (bool \<times> 'pk) list \<Rightarrow>
   bool \<Rightarrow> bytes cli option" where
  "decrypt_worker X b saw_key [] stop_end =
     (if \<not> stop_end then Some (Err (if saw_key then FailedToDecrypt B_WrongKey else NoKeys)) else None)"
| "decrypt_worker X b saw_key ((stop, key) # events) stop_end =
     (if stop then None
      else
        (case decrypt X (set_keys (ext_backend X) [key] b) of
           Ok decrypted \<Rightarrow> Some (decrypted_to_document X decrypted)
         | Err e \<Rightarrow>
             if e = B_WrongKey \<or> e = B_NoKey then decrypt_worker X b True events stop_end
             else Some (Err (FailedToDecrypt e))
         | Panic \<Rightarrow> Some Panic
         | Diverges \<Rightarrow> Some Diverges))"

section \<open>Inspecting\<close>

definition hex_digit :: "nat \<Rightarrow> char" where
  "hex_digit n = (if n < 10 then char_of (48 + n) else char_of (87 + n))"

definition hex_encode :: "bytes \<Rightarrow> string" where
  "hex_encode bs = concat (map (\<lambda>b. [hex_digit (unat b div 16), hex_digit (unat b mod 16)]) bs)"

text \<open>The fields of the JSON the command prints; derivation paths are printed by their library.\<close>

record inspection =
  in_version :: version
  in_encryption :: encryption
  in_derivation_paths :: "deriv_path list"
  in_individual_secrets :: "string list"
  in_nonce :: string
  in_ciphertext_bytes :: "nat list"

definition inspect_command :: "('pk, 'dk, 'd, 'v) externals \<Rightarrow> bytes option \<Rightarrow> inspection cli" where
  "inspect_command X file =
     andThen (ok_or ReadError file) (\<lambda>data.
     andThen (map_err FailedToInspect (metadata_of X data)) (\<lambda>metadata.
     Ok \<lparr>in_version = md_version metadata, in_encryption = md_encryption metadata,
       in_derivation_paths = md_derivation_paths metadata,
       in_individual_secrets = map hex_encode (md_individual_secrets metadata),
       in_nonce = hex_encode (md_nonce metadata), in_ciphertext_bytes = md_ciphertext_lens metadata\<rparr>))"

section \<open>What a key file parses to\<close>

definition level_ok :: "('pk, 'x) wrap_level \<Rightarrow> bool" where
  "level_ok level \<longleftrightarrow> wl_keys level \<noteq> [] \<and> list_all key_has_origin (wl_keys level) \<and> wl_msg level \<noteq> Some []"

lemma parse_level_ok: "parse_level K line = Ok level \<Longrightarrow> level_ok level"
proof -
  assume "parse_level K line = Ok level"
  then obtain msg ks raw where r: "collect_results (parse_level_key K) raw = Ok ks" and "ks \<noteq> []" "msg \<noteq> Some []"
    and l: "level = \<lparr>wl_msg = msg, wl_keys = ks\<rparr>"
    by (auto simp: parse_level_def outcome_simps Let_def split: option.splits if_splits)
  from r have "list_all2 (\<lambda>x k. parse_level_key K x = Ok k) raw ks" by (simp add: collect_results_Ok_iff)
  then have "list_all key_has_origin ks"
    by (induction rule: list_all2_induct) (auto simp: parse_level_key_def outcome_simps split: if_splits)
  with \<open>ks \<noteq> []\<close> \<open>msg \<noteq> Some []\<close> l show ?thesis by (simp add: level_ok_def)
qed

lemma parse_levels_ok:
  "parse_levels K ls acc = Ok levels \<Longrightarrow> list_all level_ok acc \<Longrightarrow> list_all level_ok levels"
proof (induction ls arbitrary: acc)
  case (Cons line ls)
  then show ?case
    by (auto simp: Let_def outcome_simps parse_level_ok split: if_splits)
qed simp

section \<open>The keys of a level\<close>

definition cli_backend :: "('pk \<Rightarrow> bytes) \<Rightarrow> ('pk, ('pk, 'x) dpk, 'd) backend \<Rightarrow> ('pk, 'x) key_parser \<Rightarrow> bool" where
  "cli_backend x_only B K \<longleftrightarrow> (\<forall>k. classify B k = miniscript_classify x_only (xkey_public_key K) k)"

fun xkey_roots :: "('pk, 'x) key_parser \<Rightarrow> ('pk, 'x) dpk \<Rightarrow> 'pk set" where
  "xkey_roots K (DXPub origin xkey path w) = {xkey_public_key K xkey}"
| "xkey_roots K (DMultiXPub origin xkey paths w) = {xkey_public_key K xkey}"
| "xkey_roots K (DSingle origin key) = {}"

text \<open>Unlike a descriptor's key, a key given for a level may be a bare xpub.\<close>

lemma set_wrap_level_public_keys:
  assumes "cli_backend x_only B K"
  shows "set (wrap_level_public_keys B K level) = (\<Union>k \<in> set (wl_keys level). xkey_roots K k)"
proof -
  have c: "classify B k = miniscript_classify x_only (xkey_public_key K) k" for k
    using assms by (simp add: cli_backend_def)
  have "set (wrap_level_public_keys B K level) = set [] \<union> (\<Union>k \<in> set (wl_keys level). xkey_roots K k)"
    unfolding wrap_level_public_keys_def
  proof (rule fold_insert_set)
    fix k and s :: "'a list"
    show "set (case dpk_to_pk B k of Ok pk \<Rightarrow> btree_insert pk s
       | _ \<Rightarrow> (case k of
           DXPub origin xkey path w \<Rightarrow> btree_insert (xkey_public_key K xkey) s
         | DMultiXPub origin xkey paths w \<Rightarrow> btree_insert (xkey_public_key K xkey) s
         | DSingle origin k \<Rightarrow> s)) = set s \<union> xkey_roots K k"
      by (cases k) (auto simp: dpk_to_pk_def c)
  qed
  then show ?thesis by simp
qed

lemma level_has_keys:
  "cli_backend x_only B K \<Longrightarrow> level_ok level \<Longrightarrow> wrap_level_public_keys B K level \<noteq> []"
proof
  assume B: "cli_backend x_only B K" and l: "level_ok level" and "wrap_level_public_keys B K level = []"
  then have e: "xkey_roots K k = {}" if "k \<in> set (wl_keys level)" for k
    using set_wrap_level_public_keys [OF B, of level] that by auto
  from l obtain k where "k \<in> set (wl_keys level)" "key_has_origin k"
    unfolding level_ok_def by (metis hd_in_set list_all_iff)
  with e [of k] show False by (cases k) auto
qed

section \<open>Wrapping and unwrapping\<close>

definition level_items :: "('pk, 'x) wrap_level \<Rightarrow> bytes \<Rightarrow> item list" where
  "level_items level bs =
     (case wl_msg level of None \<Rightarrow> [] | Some m \<Rightarrow> [(Content_String, m)]) @ [(Content_Bip138, bs)]"

lemma wrap_level_value_Ok:
  assumes "wrap_level_value X K fill s level bs = Ok (e, s')"
  shows "\<exists>b. encrypt X fill s b = Ok (e, s') \<and> eb_payload b = Payload_EncryptMany (level_items level bs) \<and>
    eb_keys b = wrap_level_public_keys (ext_backend X) K level \<and>
    eb_derivation_paths b = wrap_level_derivation_paths level \<and> enc_warnings e = []"
proof -
  let ?ks = "wrap_level_public_keys (ext_backend X) K level" and ?ps = "wrap_level_derivation_paths level"
  from assms obtain b1 where b1: "set_payloads (ext_backend X) (msg_item (wl_msg level) @ [bip138_item (Bip138 bs)]) eb_new = Ok b1"
    and e: "encrypt X fill s (set_keys (ext_backend X) ?ks (set_derivation_paths ?ps b1)) = Ok (e, s')"
    by (auto simp: wrap_level_value_def level_value_def Let_def outcome_simps split: if_splits)
  from b1 have f: "eb_exposed_keys b1 = []" "eb_key_paths b1 = []"
    "eb_payload b1 = Payload_EncryptMany (level_items level bs)"
    by (cases "wl_msg level"; auto simp: set_payloads_def msg_item_def level_items_def outcome_simps Let_def
        add_item_Ok string_item_def default_exposed_keys_def eb_new_def)+
  have w: "set (eb_warnings b1) = {}"
    using b1 by (cases "wl_msg level") (auto simp: set_payloads_def msg_item_def outcome_simps Let_def
        add_item_Ok string_item_def default_exposed_keys_def default_warnings_def eb_new_def drop_exposed_keys_def)
  let ?b = "set_keys (ext_backend X) ?ks (set_derivation_paths ?ps b1)"
  have "eb_keys ?b = ?ks" "eb_payload ?b = Payload_EncryptMany (level_items level bs)"
    using f by (simp_all add: set_keys_def set_derivation_paths_def exposed_def)
  moreover have "eb_derivation_paths ?b = ?ps"
    using f by (simp add: set_keys_def set_derivation_paths_def drop_exposed_keys_def Let_def case_prod_unfold)
  moreover have "set (eb_warnings ?b) = {}"
    using f w unfolding set_keys_def drop_exposed_keys_warnings by (simp add: set_derivation_paths_def exposed_def)
  then have "enc_warnings e = []" using e by (simp add: encrypt_Ok)
  ultimately show ?thesis using e by blast
qed

lemma wrap_level_opens:
  assumes laws: "sha256_sized (ext_crypto X)" "aead_correct (ext_crypto X)" "rng_sized fill"
    and enc: "wrap_level_value X K fill s level bs = Ok (e, s')" and len: "rust_slice (enc_bytes e @ rest)"
    and pk: "pk \<in> set (wrap_level_public_keys (ext_backend X) K level)" "xonly (ext_backend X) pk \<noteq> NUMS_XONLY"
    and agree: "backup_agrees (ext_crypto X) (enc_bytes e) (xonly (ext_backend X) pk)"
    and utf8: "\<And>m. wl_msg level = Some m \<Longrightarrow> utf8_valid m"
  shows "\<exists>r. set_encrypted_payload X (enc_bytes e @ rest) eb_new = Ok r \<and>
    decrypt X (set_keys (ext_backend X) [pk] r) =
      Ok ((case wl_msg level of None \<Rightarrow> [] | Some m \<Rightarrow> [Dec_String m]) @ [Dec_Bip138 bs])"
proof -
  from wrap_level_value_Ok [OF enc] obtain b where b: "encrypt X fill s b = Ok (e, s')"
    "eb_payload b = Payload_EncryptMany (level_items level bs)"
    "eb_keys b = wrap_level_public_keys (ext_backend X) K level" by blast
  from backup_roundtrip [OF laws b(1) len _ pk(2) agree, where P = no_proprietary] b(2,3) pk(1) obtain r where
    r: "set_encrypted_payload X (enc_bytes e @ rest) eb_new = Ok r"
    and d: "decrypt X (set_keys (ext_backend X) [pk] r) = extract_all X no_proprietary (map norm_item (level_items level bs))"
    by (auto simp: decrypt_def)
  have "extract_all X no_proprietary (map norm_item (level_items level bs)) =
      Ok ((case wl_msg level of None \<Rightarrow> [] | Some m \<Rightarrow> [Dec_String m]) @ [Dec_Bip138 bs])"
    using utf8 by (cases "wl_msg level") (auto simp: level_items_def)
  with r d show ?thesis by simp
qed

text \<open>
  The decrypt command on a level prints its note, if it has one, on a line of its own, then the level below
  and a newline; that newline, or anything else after a backup, does not get in the way of decrypting
  the next level.
\<close>

definition level_note :: "('pk, 'x) wrap_level \<Rightarrow> bytes" where
  "level_note level = (case wl_msg level of None \<Rightarrow> [] | Some m \<Rightarrow> if m = [] then [] else m @ [0x0A])"

lemma unwrap_command:
  assumes laws: "sha256_sized (ext_crypto X)" "aead_correct (ext_crypto X)" "rng_sized fill"
    and enc: "wrap_level_value X K fill s level bs = Ok (e, s')" and len: "rust_slice (enc_bytes e @ rest)"
    and utf8: "\<And>m. wl_msg level = Some m \<Longrightarrow> utf8_valid m"
    and kf: "utf8_valid kt" "key_from_str K (trim kt) = Some k" "dpk_to_root_pk (ext_backend X) k = Ok pk"
    and pk: "pk \<in> set (wrap_level_public_keys (ext_backend X) K level)" "xonly (ext_backend X) pk \<noteq> NUMS_XONLY"
    and agree: "backup_agrees (ext_crypto X) (enc_bytes e) (xonly (ext_backend X) pk)"
  shows "decrypt_command X K (Some kt) given (Some (enc_bytes e @ rest)) = Ok (level_note level @ bs @ [0x0A])"
proof -
  from wrap_level_opens [OF laws enc len pk agree utf8] obtain r ds where
    r: "set_encrypted_payload X (enc_bytes e @ rest) eb_new = Ok r"
      "decrypt X (set_keys (ext_backend X) [pk] r) = Ok ds"
    and ds: "ds = (case wl_msg level of None \<Rightarrow> [] | Some m \<Rightarrow> [Dec_String m]) @ [Dec_Bip138 bs]" by auto
  have "decrypted_to_document X ds = Ok (level_note level @ bs)"
    by (cases "wl_msg level") (simp_all add: ds decrypted_to_document_def level_note_def)
  with kf r show ?thesis
    by (simp add: decrypt_command_def read_key_file_def read_to_string_def)
qed

section \<open>The worker\<close>

lemma decrypt_worker_skips:
  assumes "\<And>stop k. (stop, k) \<in> set events \<Longrightarrow> \<not> stop \<and> decrypt X (set_keys (ext_backend X) [k] b) = Err B_WrongKey"
  shows "decrypt_worker X b saw (events @ rest) stop_end = decrypt_worker X b (saw \<or> events \<noteq> []) rest stop_end"
  using assms
proof (induction events arbitrary: saw)
  case (Cons x events)
  obtain stop k where x: "x = (stop, k)" by (cases x)
  with Cons.prems [of stop k] have "\<not> stop" "decrypt X (set_keys (ext_backend X) [k] b) = Err B_WrongKey" by auto
  with Cons.IH [of True] Cons.prems show ?case by (auto simp: x)
qed simp

lemma decrypt_worker_finds:
  assumes "\<And>stop k. (stop, k) \<in> set events \<Longrightarrow> \<not> stop \<and> decrypt X (set_keys (ext_backend X) [k] b) = Err B_WrongKey"
    and "decrypt X (set_keys (ext_backend X) [key] b) = Ok ds"
  shows "decrypt_worker X b False (events @ (False, key) # rest) stop_end = Some (decrypted_to_document X ds)"
  using assms(2) by (simp add: decrypt_worker_skips [OF assms(1)])

section \<open>Hexadecimal\<close>

lemma length_hex_encode: "length (hex_encode bs) = 2 * length bs"
  by (induction bs) (simp_all add: hex_encode_def)

definition hex_value :: "char \<Rightarrow> nat" where
  "hex_value c = (let n = of_char c in if n < 58 then n - 48 else n - 87)"

fun hex_decode :: "string \<Rightarrow> bytes" where
  "hex_decode (a # b # cs) = word_of_nat (16 * hex_value a + hex_value b) # hex_decode cs"
| "hex_decode _ = []"

lemma hex_value_digit: "n < 16 \<Longrightarrow> hex_value (hex_digit n) = n"
  by (simp add: hex_value_def hex_digit_def Let_def of_char_of)

lemma hex_decode_encode: "hex_decode (hex_encode bs) = bs"
proof (induction bs)
  case (Cons b bs)
  have lt: "unat b < 256" using unat_lt2p [of b] by simp
  have "hex_value (hex_digit (unat b div 16)) = unat b div 16"
    "hex_value (hex_digit (unat b mod 16)) = unat b mod 16"
    by (rule hex_value_digit; use lt in linarith)+
  with Cons show ?case by (simp add: hex_encode_def)
qed (simp add: hex_encode_def)

section \<open>Nested levels\<close>

text \<open>
  Decrypting again and again, with one key file per level, the outermost first. What is printed of a level
  starts with its note, which is cut off before the next run; printing something else is an error.
\<close>

fun unwrap ::
  "('pk::linorder, 'x::linorder, 'd, 'v) cli_externals \<Rightarrow> ('pk, 'x) key_parser \<Rightarrow> (bytes \<times> bytes) list \<Rightarrow>
   bytes \<Rightarrow> bytes cli" where
  "unwrap X K [] document = Ok document"
| "unwrap X K ((kt, note) # kts) document =
     andThen (decrypt_command X K (Some kt) True (Some document)) (\<lambda>printed.
     if starts_with printed note then unwrap X K kts (drop (length note) printed) else Err CliContent)"

lemma unwrap_append:
  "unwrap X K (kts @ kts') document = andThen (unwrap X K kts document) (\<lambda>document. unwrap X K kts' document)"
proof (induction kts arbitrary: document)
  case (Cons kt kts)
  obtain t n where kt: "kt = (t, n)" by fastforce
  show ?case
    unfolding kt
    by (cases "decrypt_command X K (Some t) True (Some document)") (simp_all add: Cons.IH)
qed simp

text \<open>A key file opens a level: it parses to an expression whose root is among the keys of the level.\<close>

definition opens_level ::
  "('pk::linorder, 'x, 'd, 'v) cli_externals \<Rightarrow> ('pk, 'x) key_parser \<Rightarrow> ('pk, 'x) wrap_level \<Rightarrow> bytes \<Rightarrow> bytes \<Rightarrow> bool" where
  "opens_level X K level kt backup \<longleftrightarrow>
     (\<exists>k pk. utf8_valid kt \<and> key_from_str K (trim kt) = Some k \<and> dpk_to_root_pk (ext_backend X) k = Ok pk \<and>
        pk \<in> set (wrap_level_public_keys (ext_backend X) K level) \<and> xonly (ext_backend X) pk \<noteq> NUMS_XONLY \<and>
        backup_agrees (ext_crypto X) backup (xonly (ext_backend X) pk))"

text \<open>
  The key files fit the levels, from the innermost: each opens the backup of its level, which fits in memory
  with a newline after it.
\<close>

fun keys_fit ::
  "('pk::linorder, 'x, 'd, 'v) cli_externals \<Rightarrow> ('pk, 'x) key_parser \<Rightarrow> 's rng \<Rightarrow> 's \<Rightarrow> ('pk, 'x) wrap_level list \<Rightarrow>
   bytes list \<Rightarrow> ('pk, ('pk, 'x) dpk) encrypted \<Rightarrow> bool" where
  "keys_fit X K fill s [] kts e = (kts = [])"
| "keys_fit X K fill s (level # levels) kts e =
     (case (kts, wrap_level_value X K fill s level (enc_bytes e)) of
        (kt # kts, Ok (e1, s1)) \<Rightarrow>
          opens_level X K level kt (enc_bytes e1) \<and> rust_slice (enc_bytes e1 @ [0x0A]) \<and>
          keys_fit X K fill s1 levels kts e1
      | _ \<Rightarrow> False)"

lemma unwrap_level:
  assumes laws: "sha256_sized (ext_crypto X)" "aead_correct (ext_crypto X)" "rng_sized fill"
    and enc: "wrap_level_value X K fill s level bs = Ok (e, s')" and len: "rust_slice (enc_bytes e @ [0x0A])"
    and utf8: "\<And>m. wl_msg level = Some m \<Longrightarrow> utf8_valid m"
    and fit: "opens_level X K level kt (enc_bytes e)" and rest: "rest = [] \<or> rest = [0x0A]"
  shows "unwrap X K [(kt, level_note level)] (enc_bytes e @ rest) = Ok (bs @ [0x0A])"
proof -
  have "rust_slice (enc_bytes e @ rest)" using len rest by (auto simp: rust_slice_def)
  from fit obtain k pk where k: "utf8_valid kt" "key_from_str K (trim kt) = Some k"
    "dpk_to_root_pk (ext_backend X) k = Ok pk" "pk \<in> set (wrap_level_public_keys (ext_backend X) K level)"
    "xonly (ext_backend X) pk \<noteq> NUMS_XONLY" "backup_agrees (ext_crypto X) (enc_bytes e) (xonly (ext_backend X) pk)"
    unfolding opens_level_def by blast
  from unwrap_command [OF laws enc \<open>rust_slice (enc_bytes e @ rest)\<close> utf8 k, of True] show ?thesis
    by (simp add: starts_with_def)
qed

lemma unwrap_outer:
  assumes laws: "sha256_sized (ext_crypto X)" "aead_correct (ext_crypto X)" "rng_sized fill"
    and "wrap_value X K fill s levels e0 = Ok (e, s')" "keys_fit X K fill s levels kts e0"
    and "\<And>level m. level \<in> set levels \<Longrightarrow> wl_msg level = Some m \<Longrightarrow> utf8_valid m"
    and "rest = [] \<or> rest = [0x0A]"
  shows "unwrap X K (rev (zip kts (map level_note levels))) (enc_bytes e @ rest) =
    Ok (enc_bytes e0 @ (if levels = [] then rest else [0x0A]))"
  using assms(4-)
proof (induction levels arbitrary: s kts e0)
  case (Cons level levels)
  from Cons.prems(1) obtain e1 s1 where e1: "wrap_level_value X K fill s level (enc_bytes e0) = Ok (e1, s1)"
    and w: "wrap_value X K fill s1 levels e1 = Ok (e, s')" by (auto simp: outcome_simps)
  from Cons.prems(2) e1 obtain kt kts' where kts: "kts = kt # kts'"
    and fit: "opens_level X K level kt (enc_bytes e1)"
      "rust_slice (enc_bytes e1 @ [0x0A])" "keys_fit X K fill s1 levels kts' e1"
    by (cases kts) auto
  let ?r = "if levels = [] then rest else [0x0A]"
  have "unwrap X K (rev (zip kts' (map level_note levels))) (enc_bytes e @ rest) = Ok (enc_bytes e1 @ ?r)"
    by (rule Cons.IH [OF w fit(3)]) (use Cons.prems(3,4) in auto)
  moreover have "unwrap X K [(kt, level_note level)] (enc_bytes e1 @ ?r) = Ok (enc_bytes e0 @ [0x0A])"
    by (rule unwrap_level [OF laws e1 fit(2) _ fit(1)]) (use Cons.prems(3,4) in auto)
  ultimately show ?case
    by (simp only: kts list.map zip_Cons_Cons rev.simps unwrap_append) simp
qed simp

section \<open>Key files, the worker, inspection\<close>

lemma parse_levels_eq:
  "parse_levels K ls acc =
     andThen (collect_results (parse_level K) (filter (\<lambda>l. l \<noteq> [] \<and> \<not> starts_with l [0x23]) (map trim ls)))
       (\<lambda>levels. Ok (acc @ levels))"
proof (induction ls arbitrary: acc)
  case (Cons line ls)
  have "parse_levels K ls (acc @ [level]) =
      andThen (collect_results (parse_level K) (filter (\<lambda>l. l \<noteq> [] \<and> \<not> starts_with l [0x23]) (map trim ls)))
        (\<lambda>levels. Ok (acc @ level # levels))" for level
    using Cons.IH [of "acc @ [level]"] by simp
  then show ?case
    using Cons.IH [of acc] by (cases "parse_level K (trim line)") (auto simp: Let_def andThen_assoc)
qed simp

fun missed :: "('d, 'dk, 'p) decrypted list bip \<Rightarrow> bool" where
  "missed (Err e) \<longleftrightarrow> e = B_WrongKey \<or> e = B_NoKey"
| "missed r \<longleftrightarrow> False"

fun worker_message ::
  "('pk::linorder, 'dk::linorder, 'd, 'v) externals \<Rightarrow> ('d, 'dk, 'p) decrypted list bip \<Rightarrow> bytes cli" where
  "worker_message X (Ok decrypted) = decrypted_to_document X decrypted"
| "worker_message X (Err e) = Err (FailedToDecrypt e)"
| "worker_message X Panic = Panic"
| "worker_message X Diverges = Diverges"

lemma decrypt_worker_eq:
  "decrypt_worker X b saw (map (Pair False) ks) False =
     (case List.find (\<lambda>k. \<not> missed (decrypt X (set_keys (ext_backend X) [k] b))) ks of
        Some k \<Rightarrow> Some (worker_message X (decrypt X (set_keys (ext_backend X) [k] b)))
      | None \<Rightarrow> Some (Err (if saw \<or> ks \<noteq> [] then FailedToDecrypt B_WrongKey else NoKeys)))"
  by (induction ks arbitrary: saw) (auto split: outcome.split)

lemma inspect_v1:
  assumes len: "rust_slice bs" and d: "decode_v1 bs = Ok (ps, ss, e, nonce, c)"
  shows "\<exists>ls. inspect_command X (Some bs) = Ok \<lparr>in_version = V1, in_encryption = encryption_of_u8 e,
    in_derivation_paths = ps, in_individual_secrets = map hex_encode ss, in_nonce = hex_encode nonce,
    in_ciphertext_bytes = length c # ls\<rparr>"
proof -
  from decode_v1_lengths [OF assms] obtain ls where
    l: "decode_v1_encrypted_payload_lengths bs = Ok (length c # ls)" by blast
  from metadata_v1 [OF assms l, of X] show ?thesis by (simp add: inspect_command_def)
qed

end
