(* ===== verification/Device_Commands.thy ===== *)
theory Device_Commands
  imports Cli
begin

text \<open>
  The parts of the command line that use a signing device (\<open>src/bin/main.rs\<close>): the path option, the key
  that encrypt adds, the encrypt command with all its branches, and the fetch command. What enumeration
  finds on a network is the parameter \<open>list\<close>, the state of the devices is threaded through. Shown: which
  key and path the unattended fetch picks, and that the holder of the device can decrypt.
\<close>

section \<open>Parameters\<close>

text \<open>Parsing and printing of paths, fingerprints and extended keys belongs to the bitcoin crate.\<close>

record ('pk, 'x) device_text =
  path_from_str :: "bytes \<Rightarrow> deriv_path option"
  path_to_str :: "deriv_path \<Rightarrow> bytes"
  fingerprint_to_str :: "u32 \<Rightarrow> bytes"
  xpub_to_str :: "'x \<Rightarrow> bytes"
  xpub_public_key :: "'x \<Rightarrow> 'pk"

type_synonym ('h, 'x) enumeration = "network \<Rightarrow> ('h, 'x) device list option"

section \<open>The key of a device\<close>

definition device_path :: "('pk, 'x) device_text \<Rightarrow> bytes option \<Rightarrow> deriv_path option cli" where
  "device_path D path =
     (case path of
        None \<Rightarrow> Ok None
      | Some path \<Rightarrow>
          andThen (ok_or InvalidDeviceDerivationPath (path_from_str D (trim path))) (\<lambda>path. Ok (Some path)))"

text \<open>
  The callbacks of the unattended fetch share a channel and a stop flag: the first key is sent and stops
  the collection. The state of the device calls is paired with both.
\<close>

type_synonym ('h, 'pk) fetching = "'h \<times> ('pk \<times> deriv_path) list \<times> bool"

definition with_channel :: "('h, 'x) device \<Rightarrow> (('h, 'pk) fetching, 'x) device" where
  "with_channel dev =
     \<lparr>dev_kind = dev_kind dev,
      dev_display = (\<lambda>(h, q) b. (dev_display dev h b, q)),
      dev_call = (\<lambda>(h, q) p limit. let (r, h) = dev_call dev h p limit in (r, (h, q))),
      dev_fingerprint = (\<lambda>(h, q). let (r, h) = dev_fingerprint dev h in (r, (h, q))),
      dev_unexpected = dev_unexpected dev\<rparr>"

definition first_key_hooks :: "('pk, 'x) device_text \<Rightarrow> (('h, 'pk) fetching, 'x) hooks" where
  "first_key_hooks D =
     \<lparr>on_xpub = (\<lambda>(h, q, stop) path xpub. (h, q @ [(xpub_public_key D xpub, path)], True)),
      should_stop = (\<lambda>(h, q, stop). (stop, (h, q, stop)))\<rparr>"

definition fetch_encryption_device_key ::
  "('pk, 'x::linorder) device_text \<Rightarrow> ('h, 'x) enumeration \<Rightarrow> 'h \<Rightarrow> deriv_path list \<Rightarrow> deriv_path option \<Rightarrow>
   ('pk \<times> deriv_path) cli \<times> 'h" where
  "fetch_encryption_device_key D list h deriv_paths path =
     (let network = (case path of Some path \<Rightarrow> device_network [path] | None \<Rightarrow> device_network deriv_paths) in
      case path of
        Some path \<Rightarrow>
          (let (r, h) = fetch_first_xpub_at_path path network (list network) h in
           (andThen (map_err FailedToFetchXpub r) (\<lambda>xpub.
            andThen (ok_or NoKeys xpub) (\<lambda>xpub. Ok (xpub_public_key D xpub, path))), h))
      | None \<Rightarrow>
          (let (r, (h, keys, stop)) =
                 collect_until (collector_ordering [48, 84, 86] (collector_new deriv_paths network))
                   (map_option (map with_channel) (list network)) (first_key_hooks D) (h, [], False) in
           (andThen (map_err FailedToFetchXpub r) (\<lambda>xpubs.
            case keys of key # _ \<Rightarrow> Ok key | [] \<Rightarrow> Err NoKeys), h)))"

section \<open>The commands\<close>

text \<open>What encrypt does to a backup with the key and path of a device.\<close>

definition add_device_key ::
  "('pk, 'dk, 'd) backend \<Rightarrow> ('pk, 'dk) encrypted_backup \<Rightarrow> 'pk \<times> deriv_path \<Rightarrow> ('pk, 'dk) encrypted_backup" where
  "add_device_key B backup = (\<lambda>(key, path).
     let deriv_paths = eb_derivation_paths backup;
         ks = eb_keys backup;
         deriv_paths = (if \<not> List.member deriv_paths path then deriv_paths @ [path] else deriv_paths) in
     set_keys B (ks @ [key]) (set_derivation_paths deriv_paths backup))"

text \<open>
  The encrypt command. \<open>device\<close> is the \<open>--device\<close> option: absent, given alone, or given with a path.
\<close>

definition encrypt_with_device ::
  "('pk::linorder, 'x::linorder, 'd, 'v) cli_externals \<Rightarrow> ('pk, 'x) key_parser \<Rightarrow> ('pk, 'y::linorder) device_text \<Rightarrow>
   ('h, 'y) enumeration \<Rightarrow> 's rng \<Rightarrow> 's \<Rightarrow> 'h \<Rightarrow> bytes option \<Rightarrow> bytes option \<Rightarrow> bytes option option \<Rightarrow>
   bytes option option \<Rightarrow> (bytes \<times> 's) cli \<times> 'h" where
  "encrypt_with_device X K D list fill s h file msg key_file device =
     (case
        andThen (ok_or ReadError (read_to_string file)) (\<lambda>data.
        andThen (case key_file of
            Some f \<Rightarrow> andThen (ok_or ReadError (read_to_string f)) (\<lambda>t. parse_wrap_keys K t)
          | None \<Rightarrow> Ok []) (\<lambda>wrap_levels.
        andThen (ok_or CantConvertToDescriptor (parse_descriptor (ext_backend X) (trim data))) (\<lambda>descriptor.
        Ok (wrap_levels, descriptor))))
      of
        Ok (wrap_levels, descriptor) \<Rightarrow>
          if wrap_levels \<noteq> [] then
            (if device \<noteq> None then Err DeviceWithKeys
             else
               andThen (descriptor_level_value X K fill s (last wrap_levels) msg descriptor) (\<lambda>(encrypted, s).
               andThen (wrap_value X K fill s (rev (butlast wrap_levels)) encrypted) (\<lambda>(encrypted, s).
               Ok (enc_bytes encrypted, s))), h)
          else
            (case descriptor_backup X msg descriptor of
               Ok backup \<Rightarrow>
                 (let (backup, h) =
                    (case device of
                       Some path \<Rightarrow>
                         (case device_path D path of
                            Ok path \<Rightarrow>
                              (let (r, h) = fetch_encryption_device_key D list h (eb_derivation_paths backup) path in
                               (andThen r (\<lambda>key. Ok (add_device_key (ext_backend X) backup key)), h))
                          | Err e \<Rightarrow> (Err e, h)
                          | Panic \<Rightarrow> (Panic, h)
                          | Diverges \<Rightarrow> (Diverges, h))
                     | None \<Rightarrow> (Ok backup, h)) in
                  (andThen backup (\<lambda>backup.
                   andThen (map_err FailedToEncrypt (encrypt X fill s backup)) (\<lambda>(encrypted, s).
                   Ok (enc_bytes encrypted, s))), h))
             | Err e \<Rightarrow> (Err e, h)
             | Panic \<Rightarrow> (Panic, h)
             | Diverges \<Rightarrow> (Diverges, h))
      | Err e \<Rightarrow> (Err e, h)
      | Panic \<Rightarrow> (Panic, h)
      | Diverges \<Rightarrow> (Diverges, h))"

definition origin_xpub :: "('pk, 'x) device_text \<Rightarrow> u32 \<Rightarrow> deriv_path \<Rightarrow> 'x \<Rightarrow> bytes" where
  "origin_xpub D fingerprint path xpub =
     [0x5B] @ fingerprint_to_str D fingerprint @ [0x2F] @ path_to_str D path @ [0x5D] @ xpub_to_str D xpub"

text \<open>The output file after a line is appended; \<open>None\<close> when it does not exist.\<close>

definition append_line :: "bytes option \<Rightarrow> bytes \<Rightarrow> bytes" where
  "append_line file line = (case file of Some bs \<Rightarrow> bs | None \<Rightarrow> []) @ line @ [0x0A]"

text \<open>The line the fetch command writes.\<close>

definition fetch_command ::
  "('pk, 'x) device_text \<Rightarrow> ('h, 'x) enumeration \<Rightarrow> 'h \<Rightarrow> bytes \<Rightarrow> bool \<Rightarrow> bytes cli \<times> 'h" where
  "fetch_command D list h derivation testnet =
     (case path_from_str D (trim derivation) of
        Some path \<Rightarrow>
          (let network = (if testnet then Testnet else device_network [path]);
               (r, h) = fetch_first_origin_xpub_at_path path network (list network) h in
           (andThen (map_err FailedToFetchXpub r) (\<lambda>fetched.
            andThen (ok_or NoKeys fetched) (\<lambda>fetched.
            Ok (origin_xpub D (fx_fingerprint fetched) path (fx_xpub fetched)))), h))
      | None \<Rightarrow> (Err InvalidDeviceDerivationPath, h))"

section \<open>Without a device\<close>

lemma encrypt_without_device:
  "encrypt_with_device X K D list fill s h file msg key_file None = (encrypt_command X K fill s file msg key_file, h)"
proof (cases "ok_or ReadError (read_to_string file)")
  case (Ok data)
  let ?levels = "case key_file of Some f \<Rightarrow> andThen (ok_or ReadError (read_to_string f)) (\<lambda>t. parse_wrap_keys K t)
      | None \<Rightarrow> Ok []"
  show ?thesis
  proof (cases ?levels)
    case (Ok levels)
    then show ?thesis
      using \<open>ok_or ReadError (read_to_string file) = Ok data\<close>
      by (cases "parse_descriptor (ext_backend X) (trim data)"; cases "descriptor_backup X msg (the (parse_descriptor (ext_backend X) (trim data)))")
        (auto simp: encrypt_with_device_def encrypt_command_def)
  qed (simp_all add: encrypt_with_device_def encrypt_command_def Ok)
qed (simp_all add: encrypt_with_device_def encrypt_command_def)

section \<open>The key the unattended fetch picks\<close>

definition decisive :: "(deriv_path \<Rightarrow> 'x answer) \<Rightarrow> deriv_path \<times> expect \<Rightarrow> bool" where
  "decisive ans = (\<lambda>(p, e). e = MustFetch \<or> failure_of (ans p) = None)"

lemma get_extended_pubkey_channel:
  "get_extended_pubkey (with_channel dev) (h, q) p limit =
     (let (r, h) = get_extended_pubkey dev h p limit in (r, (h, q)))"
  by (simp add: get_extended_pubkey_def with_channel_def split: prod.splits received.splits outcome.splits)

lemma first_key_stopped:
  "collect_loop (with_channel dev) (first_key_hooks D) prompt ps acc (h, q, True) = (Ok acc, (h, q, True))"
  by (cases ps; cases "hd ps"; cases acc) (auto simp: first_key_hooks_def)

lemma first_key_loop:
  assumes "steady dev ans"
  shows "\<exists>acc' h'. collect_loop (with_channel dev) (first_key_hooks D) prompt ps acc (h, [], False) =
    (case List.find (decisive ans) ps of
       None \<Rightarrow> (Ok acc', (h', [], False))
     | Some (p, e) \<Rightarrow>
         (case ans p of
            Fetched x \<Rightarrow> (Ok acc', (h', [(xpub_public_key D x, p)], True))
          | r \<Rightarrow> (Err \<lparr>ff_device = dev_kind dev, ff_path = p, ff_expect = MustFetch, ff_error = the (failure_of r)\<rparr>,
                  (h', [], False))))"
proof (induction ps arbitrary: acc h)
  case (Cons pe ps)
  obtain p e xs ws where pe: "pe = (p, e)" and acc: "acc = (xs, ws)" by (cases pe; cases acc)
  define h1 where "h1 = dev_display dev h (display_xpub (dev_kind dev) e)"
  obtain h2 where h2: "get_extended_pubkey dev h1 p (xpub_timeout (dev_kind dev) e prompt) = (ans p, h2)"
    using assms by (metis steady_def prod.collapse)
  have ch: "dev_display (with_channel dev) (h, [], False) b = (dev_display dev h b, [], False)"
    "dev_kind (with_channel dev) = dev_kind dev" for b
    by (simp_all add: with_channel_def)
  have hk: "should_stop (first_key_hooks D) (h, [], False) = (False, (h, [], False))"
    "on_xpub (first_key_hooks D) (h', [], False) p x = (h', [(xpub_public_key D x, p)], True)" for h' x
    by (simp_all add: first_key_hooks_def)
  show ?case
    using Cons.IH [of "(xs, ws @ answer_warning (dev_kind dev) (p, e) (ans p))" h2]
    by (cases "ans p")
      (auto simp: pe acc hk ch h1_def [symmetric] get_extended_pubkey_channel h2 decisive_def first_key_stopped Let_def
        split: option.splits)
qed auto

text \<open>
  The key encrypt adds when it is asked for a signing device and no path: that of the first path, in
  the order of the collector, that the device answers. A path that must be fetched and fails before that
  ends the command with its failure; a device that answers nothing gives no key.
\<close>

theorem device_key_chosen:
  assumes "steady dev ans" "dev_kind dev \<noteq> BitBox02" "list (device_network paths) = Some (dev # devs)"
    and "c = \<lparr>co_deriv_paths = paths, co_network = device_network paths, co_ordering = [48, 84, 86], co_prompt = False\<rparr>"
  shows "fst (fetch_encryption_device_key D list h paths None) =
    (case List.find (decisive ans) (collector_paths c (dev_kind dev)) of
       None \<Rightarrow> Err NoKeys
     | Some (p, e) \<Rightarrow>
         (case ans p of
            Fetched x \<Rightarrow> Ok (xpub_public_key D x, p)
          | r \<Rightarrow> Err (FailedToFetchXpub \<lparr>ff_device = dev_kind dev, ff_path = p, ff_expect = MustFetch,
                  ff_error = the (failure_of r)\<rparr>)))"
proof -
  obtain acc h' where r: "collect_loop (with_channel dev) (first_key_hooks D) False (collector_paths c (dev_kind dev)) ([], []) (h, [], False) =
    (case List.find (decisive ans) (collector_paths c (dev_kind dev)) of
       None \<Rightarrow> (Ok acc, (h', [], False))
     | Some (p, e) \<Rightarrow>
         (case ans p of
            Fetched x \<Rightarrow> (Ok acc, (h', [(xpub_public_key D x, p)], True))
          | r \<Rightarrow> (Err \<lparr>ff_device = dev_kind dev, ff_path = p, ff_expect = MustFetch, ff_error = the (failure_of r)\<rparr>,
                  (h', [], False))))"
    using first_key_loop [OF assms(1)] by blast
  have k: "dev_kind (with_channel dev) = dev_kind dev" by (simp add: with_channel_def)
  show ?thesis
    by (cases acc)
      (simp add: fetch_encryption_device_key_def assms(3) collect_until_def unlock_bitbox_def k assms(2)
        r [unfolded assms(4)] assms(4) split: option.split prod.split answer.split)
qed

definition plain_text :: "(nat, nat) device_text" where
  "plain_text = \<lparr>path_from_str = (\<lambda>t. None), path_to_str = (\<lambda>p. []), fingerprint_to_str = (\<lambda>f. []),
     xpub_to_str = (\<lambda>x. []), xpub_public_key = (\<lambda>x. x)\<rparr>"

theorem device_key_chosen_witness:
  "\<exists>p. fst (fetch_encryption_device_key plain_text (\<lambda>network. Some [counting_device]) () [DerivationPath [9]] None) = Ok (path_len p, p)"
proof -
  let ?c = "\<lparr>co_deriv_paths = [DerivationPath [9]], co_network = device_network [DerivationPath [9]],
    co_ordering = [48, 84, 86], co_prompt = False\<rparr>"
  have s: "steady counting_device (\<lambda>p. Fetched (path_len p))"
    by (simp add: steady_def counting_device_def get_extended_pubkey_def)
  have k: "dev_kind counting_device \<noteq> BitBox02" by (simp add: counting_device_def)
  have "take 1 (map fst (collector_paths ?c (dev_kind counting_device))) = [DerivationPath [9]]"
    using collector_paths_envelope_first [of ?c "dev_kind counting_device"] by simp
  then obtain q qs where "collector_paths ?c (dev_kind counting_device) = q # qs"
    by (cases "collector_paths ?c (dev_kind counting_device)") auto
  then show ?thesis
    using device_key_chosen [OF s k, of "\<lambda>network. Some [counting_device]" "[DerivationPath [9]]" "[]" ?c plain_text]
    by (cases q) (simp add: decisive_def plain_text_def)
qed

section \<open>The holder of the device\<close>

lemma add_device_key_fields:
  assumes "\<not> exposed B b key"
  shows "key \<in> set (eb_keys (add_device_key B b (key, p)))"
    and "eb_payload (add_device_key B b (key, p)) = eb_payload b"
    and "eb_content (add_device_key B b (key, p)) = eb_content b"
    and "(\<And>k. (k, p) \<in> set (eb_key_paths b) \<Longrightarrow> \<not> exposed B b k) \<Longrightarrow>
      p \<in> set (eb_derivation_paths (add_device_key B b (key, p)))"
  using assms
  by (auto simp: add_device_key_def set_keys_def set_derivation_paths_def exposed_def drop_exposed_keys_paths Let_def)

lemma descriptor_backup_items:
  assumes "descriptor_backup X msg descriptor = Ok b"
  shows "eb_payload b = Payload_EncryptMany items \<or> (\<exists>p. eb_payload b = Payload_Encrypt p \<and> items = [(eb_content b, p)]) \<Longrightarrow>
    items = (case msg of None \<Rightarrow> [] | Some m \<Rightarrow> [(Content_String, m)]) @
      [(Content_Bip380, show_descriptor (ext_backend X) descriptor)]"
  using assms
  by (cases msg)
    (auto simp: descriptor_backup_def set_payload_def set_payloads_def add_item_Ok outcome_simps Let_def
      string_item_def descriptor_item_def)

lemma encrypt_with_device_Ok:
  assumes "encrypt_with_device X K D list fill s h (Some data) msg None (Some dp) = (Ok (bs, s'), h')"
  shows "\<exists>descriptor b path key p e.
    parse_descriptor (ext_backend X) (trim data) = Some descriptor \<and> descriptor_backup X msg descriptor = Ok b \<and>
    device_path D dp = Ok path \<and> fst (fetch_encryption_device_key D list h (eb_derivation_paths b) path) = Ok (key, p) \<and>
    encrypt X fill s (add_device_key (ext_backend X) b (key, p)) = Ok (e, s') \<and> enc_bytes e = bs"
  using assms
  by (auto simp: encrypt_with_device_def outcome_simps read_to_string_def Let_def
      split: outcome.splits prod.splits if_splits option.splits)

text \<open>Any key of a builder that holds the items of a descriptor opens what it encrypts.\<close>

lemma descriptor_decrypts:
  assumes laws: "sha256_sized (ext_crypto X)" "aead_correct (ext_crypto X)" "rng_sized fill"
    and b: "descriptor_backup X msg descriptor = Ok b" "eb_payload b' = eb_payload b" "eb_content b' = eb_content b"
    and e: "encrypt X fill s b' = Ok (e, s')"
    and len: "rust_slice (enc_bytes e @ rest)"
    and shown: "parse_descriptor (ext_backend X) (show_descriptor (ext_backend X) descriptor) = Some descriptor"
      "utf8_valid (show_descriptor (ext_backend X) descriptor)" "\<And>m. msg = Some m \<Longrightarrow> utf8_valid m"
    and key: "key \<in> set (eb_keys b')" "xonly (ext_backend X) key \<noteq> NUMS_XONLY"
    and agree: "backup_agrees (ext_crypto X) (enc_bytes e) (xonly (ext_backend X) key)"
  shows "\<exists>r. set_encrypted_payload X (enc_bytes e @ rest) eb_new = Ok r \<and>
    decrypt X (set_keys (ext_backend X) [key] r) =
      Ok ((case msg of None \<Rightarrow> [] | Some m \<Rightarrow> [Dec_String m]) @ [Dec_Descriptor descriptor])"
proof -
  from backup_roundtrip [OF laws e len key agree, where P = no_proprietary]
  obtain items r where it: "eb_payload b' = Payload_EncryptMany items \<or>
      (\<exists>q. eb_payload b' = Payload_Encrypt q \<and> items = [(eb_content b', q)])"
    and r: "set_encrypted_payload X (enc_bytes e @ rest) eb_new = Ok r"
      "decrypt_with X no_proprietary (set_keys (ext_backend X) [key] r) = extract_all X no_proprietary (map norm_item items)"
    by blast
  have "items = (case msg of None \<Rightarrow> [] | Some m \<Rightarrow> [(Content_String, m)]) @
      [(Content_Bip380, show_descriptor (ext_backend X) descriptor)]"
    using it by (intro descriptor_backup_items [OF b(1)]) (simp add: b(2,3))
  with r shown show ?thesis
    by (cases msg) (simp_all add: decrypt_def extract_bip380_def)
qed

lemma device_holder_decrypts:
  assumes laws: "sha256_sized (ext_crypto X)" "aead_correct (ext_crypto X)" "rng_sized fill"
    and b: "descriptor_backup X msg descriptor = Ok b"
    and e: "encrypt X fill s (add_device_key (ext_backend X) b (key, p)) = Ok (e, s')"
    and len: "rust_slice (enc_bytes e @ rest)"
    and shown: "parse_descriptor (ext_backend X) (show_descriptor (ext_backend X) descriptor) = Some descriptor"
      "utf8_valid (show_descriptor (ext_backend X) descriptor)" "\<And>m. msg = Some m \<Longrightarrow> utf8_valid m"
    and key: "\<not> exposed (ext_backend X) b key" "xonly (ext_backend X) key \<noteq> NUMS_XONLY"
    and agree: "backup_agrees (ext_crypto X) (enc_bytes e) (xonly (ext_backend X) key)"
  shows "\<exists>r. set_encrypted_payload X (enc_bytes e @ rest) eb_new = Ok r \<and>
    decrypt X (set_keys (ext_backend X) [key] r) =
      Ok ((case msg of None \<Rightarrow> [] | Some m \<Rightarrow> [Dec_String m]) @ [Dec_Descriptor descriptor])"
  by (rule descriptor_decrypts [OF laws b add_device_key_fields(2,3) [OF key(1)] e len shown
        add_device_key_fields(1) [OF key(1)] key(2) agree])

end
