(* ===== verification/Sample_Wallet.thy ===== *)
theory Sample_Wallet
  imports Sample Device_Commands
begin

text \<open>
  One concrete instance of the parameters of the upper crate and of the command line: public keys and
  extended keys are bytes, a descriptor is its list of key expressions, a key file is one byte. With
  builders and levels that encrypt, for the properties to be applied to.
\<close>

section \<open>The backend\<close>

type_synonym sample_dpk = "(u8, u8) dpk"

definition sample_xpub :: "u8 \<Rightarrow> sample_dpk" where
  "sample_xpub b = DXPub (Some (0, DerivationPath [48])) b (DerivationPath [0]) Wildcard_Unhardened"

definition sample_descriptor :: "sample_dpk list" where
  "sample_descriptor = [sample_xpub 3, DSingle None (XOnlyKey (sample_key 4)), sample_xpub 2]"

text \<open>A template is its list of placeholders; one text is a template, of the first key with the paths \<open>0\<close> and \<open>1\<close>.\<close>

definition sample_miniscript :: "(u8, u8, sample_dpk list, bip388_key list) miniscript" where
  "sample_miniscript = \<lparr>descr_keys = (\<lambda>d. d), visit_keys = (\<lambda>d. d), assemble = (\<lambda>d ks. Some ks),
     template_keys = (\<lambda>t. t), visit_template = (\<lambda>t. t), assemble_back = (\<lambda>t ks. Some ks)\<rparr>"

definition sample_template :: "bytes \<Rightarrow> bip388_key list option" where
  "sample_template text =
     (if text = [64]
      then Some [\<lparr>bk_index = 0, bk_derivation_paths = [DerivationPath [0], DerivationPath [1]], bk_wildcard = Wildcard_Unhardened\<rparr>]
      else None)"

lemma sample_templates_bounded: "bounded_templates sample_miniscript sample_template"
  by (simp add: bounded_templates_def sample_miniscript_def sample_template_def)

definition sample_backend :: "(u8, sample_dpk, sample_dpk list) backend" where
  "sample_backend = \<lparr>xonly = sample_key, descriptor_keys = (\<lambda>d. d),
     classify = miniscript_classify sample_key (\<lambda>x. x), is_multipath = (\<lambda>d. False),
     to_wallet_policy = miniscript_to_wallet_policy sample_miniscript (\<lambda>t. [64]),
     from_wallet_policy = miniscript_from_wallet_policy sample_miniscript sample_template,
     parse_descriptor = (\<lambda>bs. if bs = [100] then Some sample_descriptor else None),
     show_descriptor = (\<lambda>d. [100])\<rparr>"

definition sample_externals :: "(u8, sample_dpk, sample_dpk list, unit) externals" where
  "sample_externals = \<lparr>
     ext_backend = sample_backend,
     ext_backup_json = \<lparr>json_to_backup = (\<lambda>bs. None), backup_to_json = (\<lambda>b. None)\<rparr>,
     ext_policy_json = \<lparr>json_to_value = (\<lambda>bs. None), value_object = (\<lambda>v. None),
       value_to_policy_backup = (\<lambda>v. None), value_to_policy_set = (\<lambda>v. None),
       policy_backup_to_json = (\<lambda>b. None), policy_set_to_json = (\<lambda>s. None)\<rparr>,
     ext_base64_decode = (\<lambda>t. None), ext_v0 = (\<lambda>bs ks. None), ext_crypto = sample_crypto\<rparr>"

lemma sample_externals_simps [simp]:
  "ext_backend sample_externals = sample_backend" "ext_crypto sample_externals = sample_crypto"
  by (simp_all add: sample_externals_def)

lemma sample_externals_laws:
  "sha256_sized (ext_crypto sample_externals)" "aead_correct (ext_crypto sample_externals)" "rng_sized sample_fill"
  by (simp_all add: sample_sized sample_correct sample_fill_sized)

lemma sample_agrees: "backup_agrees sample_crypto bs key"
  by (simp add: backup_agrees_def sample_agree)

text \<open>A cipher that opens nothing, so that the laws hold of it at every size.\<close>

definition deaf_externals :: "(u8, sample_dpk, sample_dpk list, unit) externals" where
  "deaf_externals = sample_externals\<lparr>ext_crypto := sample_crypto\<lparr>aead_decrypt := (\<lambda>k n c. None)\<rparr>\<rparr>"

lemma deaf_third_parties: "third_parties_return deaf_externals"
  by (simp add: third_parties_return_def deaf_externals_def sample_externals_def)

lemma deaf_rebuilds: "from_wallet_policy (ext_backend deaf_externals) = miniscript_from_wallet_policy sample_miniscript sample_template"
  by (simp add: deaf_externals_def sample_externals_def sample_backend_def)

lemma deaf_externals_return: "externals_return deaf_externals"
  by (rule miniscript_externals_return [OF deaf_rebuilds sample_templates_bounded deaf_third_parties])

section \<open>A builder that encrypts\<close>

definition sample_builder :: "(u8, sample_dpk) encrypted_backup" where
  "sample_builder = set_keys sample_backend [3, 2]
     (eb_new\<lparr>eb_payload := Payload_Encrypt [65], eb_content := Content_String\<rparr>)"

lemma sample_built: "built sample_externals sample_builder"
proof -
  have "set_payload (ext_backend sample_externals) (string_item [65]) eb_new =
      Ok (eb_new\<lparr>eb_payload := Payload_Encrypt [65], eb_content := Content_String\<rparr>)"
    by (simp add: set_payload_def add_item_def string_item_def default_warnings_def default_exposed_keys_def
        add_key_paths_def drop_exposed_keys_def eb_new_def Let_def)
  then show ?thesis
    using built_keys [OF built_payload [OF built_new], of sample_externals, where ks = "[3, 2]"]
    by (simp add: sample_builder_def)
qed

lemma sample_builder_fields:
  "eb_keys sample_builder = [3, 2]" "eb_payload sample_builder = Payload_Encrypt [65]"
  "eb_content sample_builder = Content_String" "eb_version sample_builder = V1"
  "eb_encryption sample_builder = ChaCha20Poly1305" "eb_padding sample_builder = Padding_None"
  "eb_store_common_paths sample_builder = False" "eb_derivation_paths sample_builder = []"
  by (simp_all add: sample_builder_def set_keys_def eb_new_def exposed_def)
    (simp add: drop_exposed_keys_def Let_def split: prod.split)

lemma sample_builder_encrypts:
  "\<exists>e s'. encrypt sample_externals sample_fill 1 sample_builder = Ok (e, s') \<and> rust_slice (enc_bytes e @ [10])"
proof -
  from sample_backup [OF sample_request sample_payload, of 1] obtain bs s' where
    e: "encrypt_chacha20_poly1305_v1_items sample_crypto sample_fill 1 [] False sample_items
      [sample_key 3, sample_key 2] Padding_None = Ok (bs, s')" and l: "rust_slice (bs @ [10])" by auto
  have "encrypt sample_externals sample_fill 1 sample_builder =
      Ok (\<lparr>enc_bytes = bs, enc_warnings = eb_warnings sample_builder\<rparr>, s')"
    using e by (simp add: encrypt_Ok sample_builder_fields sample_items_def sample_backend_def)
  with l show ?thesis by fastforce
qed

section \<open>Wrapping levels\<close>

definition sample_parser :: "(u8, u8) key_parser" where
  "sample_parser = \<lparr>
     key_from_str = (\<lambda>t. case t of [b] \<Rightarrow> Some (DXPub (Some (0, DerivationPath [48])) b (DerivationPath []) Wildcard_None)
       | _ \<Rightarrow> None),
     xkey_public_key = (\<lambda>x. x)\<rparr>"

definition sample_level :: "(u8, u8) wrap_level" where
  "sample_level = \<lparr>wl_msg = None,
     wl_keys = [DXPub (Some (0, DerivationPath [48])) 51 (DerivationPath []) Wildcard_None]\<rparr>"

lemma sample_level_msg [simp]: "wl_msg sample_level = None"
  by (simp add: sample_level_def)

lemma sample_xonly [simp]: "xonly sample_backend = sample_key"
  by (simp add: sample_backend_def)

lemma sample_level_keys: "wrap_level_public_keys sample_backend sample_parser sample_level = [51]"
  by (simp add: wrap_level_public_keys_def sample_level_def dpk_to_pk_def sample_backend_def
      sample_parser_def is_derived_def path_is_empty_def)

lemma sample_level_paths: "wrap_level_derivation_paths sample_level = [DerivationPath [48]]"
  by (simp add: wrap_level_derivation_paths_def sample_level_def)

lemma sample_level_request: "request_ok sample_crypto [DerivationPath [48]] False [sample_key 51]"
proof -
  have "recipients [sample_key 51] = {sample_key 51}" by code_simp
  moreover have "ZERO_SECRET \<notin> set (real_secrets sample_crypto [sample_key 51])" by code_simp
  moreover have "stored_paths False [DerivationPath [48]] \<subseteq> {DerivationPath [48]}"
    by (auto simp: stored_paths_def)
  then have "card (stored_paths False [DerivationPath [48]]) \<le> 1"
    and "\<forall>p \<in> stored_paths False [DerivationPath [48]]. path_ok p"
    using card_mono [of "{DerivationPath [48]}"] by (auto simp: path_ok_def path_len_def)
  ultimately show ?thesis by (simp add: request_ok_def)
qed

lemma sample_level_payload:
  assumes "bs \<noteq> []" "length bs < 2 ^ 30"
  shows "\<exists>payload. build_v1_payload [(Content_Bip138, bs)] Padding_None = Ok payload \<and> length payload < length bs + 20"
proof -
  have "build_v1_payload [(Content_Bip138, bs)] Padding_None =
      Ok (1 # u16_to_be_bytes 138 @ varint_encode (word_of_nat (length bs)) @ bs)"
    using assms
    by (simp add: build_v1_payload_def encode_plaintext_def padded_size_def vec_resize_def Let_def u32_MAX_def
        content_try_into_def content_type_byte_def content_length_bytes_def content_data_bytes_def
        content_type_defs)
  then show ?thesis
    using length_varint_encode_bounds [of "word_of_nat (length bs)"] by (simp add: u16_to_be_bytes_def)
qed

lemma sample_level_wraps:
  assumes "bs \<noteq> []" "length bs < 2 ^ 30"
  shows "\<exists>e s'. wrap_level_value sample_externals sample_parser sample_fill s sample_level bs = Ok (e, s') \<and>
    enc_bytes e \<noteq> [] \<and> length (enc_bytes e) < length bs + 2000000 \<and> rust_slice (enc_bytes e @ [10])"
proof -
  from sample_level_payload [OF assms] obtain payload where
    p: "build_v1_payload [(Content_Bip138, bs)] Padding_None = Ok payload" "length payload < length bs + 20" by blast
  from sample_backup [OF sample_level_request p(1), of s] p(2) assms(2) obtain out s' where
    e: "encrypt_chacha20_poly1305_v1_items sample_crypto sample_fill s [DerivationPath [48]] False
      [(Content_Bip138, bs)] [sample_key 51] Padding_None = Ok (out, s')"
    and l: "length out < length payload + 1000000" "rust_slice (out @ [10])" by auto
  have "out \<noteq> []"
    using e by (auto simp: encrypt_items_Ok encode_v1_backup_Ok_iff encode_v1_def MAGIC_def ascii_def)
  have "wrap_level_value sample_externals sample_parser sample_fill s sample_level bs =
      Ok (\<lparr>enc_bytes = out, enc_warnings = []\<rparr>, s')"
    using e
    by (simp add: wrap_level_value_def level_value_def sample_level_keys sample_level_paths msg_item_def
        set_payloads_def add_item_def default_warnings_def default_exposed_keys_def add_key_paths_def Let_def
        drop_exposed_keys_def eb_new_def set_keys_def set_derivation_paths_def encrypt_def)
  with l p(2) \<open>out \<noteq> []\<close> show ?thesis by fastforce
qed

text \<open>The same level with a note.\<close>

definition sample_noted :: "(u8, u8) wrap_level" where
  "sample_noted = sample_level\<lparr>wl_msg := Some [65]\<rparr>"

lemma sample_noted_keys:
  "wrap_level_public_keys sample_backend sample_parser sample_noted = [51]"
  "wrap_level_derivation_paths sample_noted = [DerivationPath [48]]"
  using sample_level_keys sample_level_paths
  by (simp_all add: wrap_level_public_keys_def wrap_level_derivation_paths_def sample_noted_def)

lemma sample_noted_payload:
  "\<exists>payload. build_v1_payload [(Content_String, [65]), (Content_Bip138, [66])] Padding_None = Ok payload \<and>
     length payload < 20"
proof -
  have "varint_encode 1 = [1]" "varint_encode 0 = [0]" by code_simp+
  then show ?thesis
    by (simp add: build_v1_payload_def encode_plaintext_def padded_size_def vec_resize_def Let_def u32_MAX_def
        content_try_into_def content_type_byte_def content_length_bytes_def content_data_bytes_def
        content_type_defs u16_to_be_bytes_def)
qed

lemma sample_noted_wraps:
  "\<exists>e s'. wrap_level_value sample_externals sample_parser sample_fill s sample_noted [66] = Ok (e, s') \<and>
    enc_bytes e \<noteq> [] \<and> length (enc_bytes e) < 2000001 \<and> rust_slice (enc_bytes e @ [10])"
proof -
  from sample_noted_payload obtain payload where
    p: "build_v1_payload [(Content_String, [65]), (Content_Bip138, [66])] Padding_None = Ok payload" "length payload < 20"
    by blast
  from sample_backup [OF sample_level_request p(1), of s] p(2) obtain out s' where
    e: "encrypt_chacha20_poly1305_v1_items sample_crypto sample_fill s [DerivationPath [48]] False
      [(Content_String, [65]), (Content_Bip138, [66])] [sample_key 51] Padding_None = Ok (out, s')"
    and l: "length out < 1000020" "rust_slice (out @ [10])" by fastforce
  have "out \<noteq> []"
    using e by (auto simp: encrypt_items_Ok encode_v1_backup_Ok_iff encode_v1_def MAGIC_def ascii_def)
  have "wrap_level_value sample_externals sample_parser sample_fill s sample_noted [66] =
      Ok (\<lparr>enc_bytes = out, enc_warnings = []\<rparr>, s')"
    using e
    by (simp add: wrap_level_value_def level_value_def sample_noted_keys, simp add: sample_noted_def msg_item_def
        set_payloads_def add_item_def default_warnings_def default_exposed_keys_def add_key_paths_def Let_def
        drop_exposed_keys_def eb_new_def set_keys_def set_derivation_paths_def encrypt_def string_item_def)
  with l \<open>out \<noteq> []\<close> show ?thesis by fastforce
qed

section \<open>A signing device\<close>

definition sample_device :: "(unit, u8) device" where
  "sample_device = \<lparr>dev_kind = Ledger, dev_display = (\<lambda>h b. h), dev_call = (\<lambda>h p limit. (Received (Ok 9), h)),
     dev_fingerprint = (\<lambda>h. (Ok 0, h)), dev_unexpected = (\<lambda>s. s)\<rparr>"

definition sample_text :: "(u8, u8) device_text" where
  "sample_text = \<lparr>path_from_str = (\<lambda>t. Some (DerivationPath [48])), path_to_str = (\<lambda>p. []),
     fingerprint_to_str = (\<lambda>f. []), xpub_to_str = (\<lambda>x. []), xpub_public_key = (\<lambda>x. x)\<rparr>"

lemma sample_fetch:
  "fetch_encryption_device_key sample_text (\<lambda>network. Some [sample_device]) () ps (Some (DerivationPath [48])) =
     (Ok (9, DerivationPath [48]), ())"
  by (simp add: fetch_encryption_device_key_def fetch_first_xpub_at_path_def fetch_first_origin_xpub_at_path_def
      unlock_bitbox_def sample_device_def sample_text_def get_extended_pubkey_def Let_def)

lemma sample_descriptor_backup:
  "descriptor_backup sample_externals None sample_descriptor =
     Ok \<lparr>eb_version = V1, eb_content = Content_Bip380, eb_encryption = ChaCha20Poly1305,
       eb_derivation_paths = [DerivationPath [48], DerivationPath [48]], eb_keys = [2, 3],
       eb_exposed_keys = [sample_key 4], eb_key_paths = [(2, DerivationPath [48]), (3, DerivationPath [48])],
       eb_payload = Payload_Encrypt [100], eb_warnings = [DisallowedKeyExpression (DSingle None (XOnlyKey (sample_key 4)))],
       eb_padding = Padding_None, eb_store_common_paths = False\<rparr>"
  by code_simp

lemma sample_device_backup:
  "add_device_key sample_backend (case descriptor_backup sample_externals None sample_descriptor of Ok b \<Rightarrow> b)
      (9, DerivationPath [48]) =
     \<lparr>eb_version = V1, eb_content = Content_Bip380, eb_encryption = ChaCha20Poly1305,
       eb_derivation_paths = [DerivationPath [48], DerivationPath [48]], eb_keys = [2, 3, 9],
       eb_exposed_keys = [sample_key 4], eb_key_paths = [(2, DerivationPath [48]), (3, DerivationPath [48])],
       eb_payload = Payload_Encrypt [100], eb_warnings = [DisallowedKeyExpression (DSingle None (XOnlyKey (sample_key 4)))],
       eb_padding = Padding_None, eb_store_common_paths = False\<rparr>"
  unfolding sample_descriptor_backup by code_simp

lemma sample_device_request:
  "request_ok sample_crypto [DerivationPath [48], DerivationPath [48]] False [sample_key 2, sample_key 3, sample_key 9]"
proof -
  have "card (recipients [sample_key 2, sample_key 3, sample_key 9]) = 3" by code_simp
  moreover have "ZERO_SECRET \<notin> set (real_secrets sample_crypto [sample_key 2, sample_key 3, sample_key 9])" by code_simp
  moreover have "stored_paths False [DerivationPath [48], DerivationPath [48]] \<subseteq> {DerivationPath [48]}"
    by (auto simp: stored_paths_def)
  then have "card (stored_paths False [DerivationPath [48], DerivationPath [48]]) \<le> 1"
    and "\<forall>p \<in> stored_paths False [DerivationPath [48], DerivationPath [48]]. path_ok p"
    using card_mono [of "{DerivationPath [48]}"] by (auto simp: path_ok_def path_len_def)
  ultimately show ?thesis by (simp add: request_ok_def)
qed

lemma sample_descriptor_payload:
  "build_v1_payload [(Content_Bip380, [100])] Padding_None = Ok [1, 1, 124, 1, 100]"
proof -
  have c: "varint_encode 1 = [1]" "u16_to_be_bytes 380 = [1, 124]" by code_simp+
  show ?thesis
    by (simp add: build_v1_payload_def encode_plaintext_def padded_size_def vec_resize_def Let_def
        u32_MAX_def content_try_into_def content_type_byte_def content_length_bytes_def content_data_bytes_def
        content_type_defs c)
qed

lemma sample_device_encrypts:
  "\<exists>bs s'. encrypt_with_device sample_externals sample_parser sample_text (\<lambda>network. Some [sample_device]) sample_fill 1 ()
      (Some [100]) None None (Some (Some [49])) = (Ok (bs, s'), ()) \<and> rust_slice (bs @ [10])"
proof -
  from sample_backup [OF sample_device_request sample_descriptor_payload, of 1] obtain bs s' where
    e: "encrypt_chacha20_poly1305_v1_items sample_crypto sample_fill 1 [DerivationPath [48], DerivationPath [48]] False
      [(Content_Bip380, [100])] [sample_key 2, sample_key 3, sample_key 9] Padding_None = Ok (bs, s')"
    and l: "rust_slice (bs @ [10])" by auto
  have "\<exists>x. encrypt sample_externals sample_fill 1 (add_device_key sample_backend
      (case descriptor_backup sample_externals None sample_descriptor of Ok b \<Rightarrow> b) (9, DerivationPath [48])) =
      Ok (\<lparr>enc_bytes = bs, enc_warnings = x\<rparr>, s')"
    unfolding sample_device_backup using e by (simp add: encrypt_Ok)
  moreover have "trim [100] = [100]" "utf8_valid [100]" by code_simp+
  moreover have "device_path sample_text (Some [49]) = Ok (Some (DerivationPath [48]))"
    by (simp add: device_path_def sample_text_def)
  moreover have "parse_descriptor sample_backend [100] = Some sample_descriptor" by (simp add: sample_backend_def)
  ultimately have "encrypt_with_device sample_externals sample_parser sample_text (\<lambda>network. Some [sample_device]) sample_fill 1 ()
      (Some [100]) None None (Some (Some [49])) = (Ok (bs, s'), ())"
    by (simp add: encrypt_with_device_def read_to_string_def sample_descriptor_backup sample_fetch) auto
  with l show ?thesis by blast
qed

end
