(* ===== verification/Decrypt_Threads.thy ===== *)
theory Decrypt_Threads
  imports Device_Commands
begin

text \<open>
  The decrypt command of a build with signing devices (\<open>src/bin/main.rs\<close>): three threads that share a
  stop flag, a channel of keys and a channel of documents. The main thread sends the key of the key file
  and waits for the first message; the worker tries the keys; the fetcher asks a device for more, with
  the collector of \<open>src/signing_devices.rs\<close>. One rule per operation that another thread can observe, so
  that a run is any interleaving. Shown: what the main thread can receive, that it receives something,
  and that runs end.
\<close>

section \<open>Threads\<close>

text \<open>
  Where each thread is. The worker holds the message it found between setting the stop flag and sending;
  the fetcher holds the state of the device and the paths it still has to ask for. A thread drops its
  ends of the channels when it is done.
\<close>

datatype main_pc = Main_Starting | Main_Waiting | Main_Received "bytes cli" | Main_Done "bytes cli"

datatype 'pk worker_pc =
    Worker_Receiving bool
  | Worker_Trying bool 'pk
  | Worker_Found "bytes cli"
  | Worker_Sending "bytes cli"
  | Worker_Left bool
  | Worker_Reporting bool
  | Worker_Done

datatype ('h, 'x) fetch_pc =
    Fetch_Starting 'h
  | Fetch_Next "('h, 'x) device" "(deriv_path \<times> expect) list" 'h
  | Fetch_Asking "('h, 'x) device" deriv_path expect "(deriv_path \<times> expect) list" 'h
  | Fetch_Sending "('h, 'x) device" 'x "(deriv_path \<times> expect) list" 'h
  | Fetch_Failing fetch_failed
  | Fetch_Reporting fetch_failed
  | Fetch_Done

record ('pk, 'h, 'x) threads =
  th_stop :: bool
  th_keys :: "'pk list"
  th_documents :: "bytes cli list"
  th_main :: main_pc
  th_worker :: "'pk worker_pc"
  th_fetch :: "('h, 'x) fetch_pc"

text \<open>What the command hands to its threads.\<close>

record ('pk, 'dk, 'h, 'x) decrypt_setup =
  su_backup :: "('pk, 'dk) encrypted_backup"
  su_collector :: xpub_collector
  su_devices :: "('h, 'x) device list option"
  su_public_key :: "'x \<Rightarrow> 'pk"

definition decrypt_collector :: "('pk, 'dk) encrypted_backup \<Rightarrow> bool \<Rightarrow> bool \<Rightarrow> xpub_collector" where
  "decrypt_collector backup testnet prompt =
     collector_prompt prompt
       (collector_ordering [48, 84, 86]
         (collector_new (eb_derivation_paths backup) (if testnet then Testnet else Bitcoin)))"

text \<open>
  The main thread has sent the key of the key file, if there is one, before the fetcher starts; it drops
  its own ends of the channels after that.
\<close>

definition threads_start :: "'pk option \<Rightarrow> 'h \<Rightarrow> ('pk, 'h, 'x) threads" where
  "threads_start key h =
     \<lparr>th_stop = False, th_keys = (case key of Some pk \<Rightarrow> [pk] | None \<Rightarrow> []), th_documents = [],
      th_main = Main_Starting, th_worker = Worker_Receiving False, th_fetch = Fetch_Starting h\<rparr>"

text \<open>Whether a receiver can still get a message: the ends of the senders that are left.\<close>

definition keys_closed :: "('pk, 'h, 'x) threads \<Rightarrow> bool" where
  "keys_closed s \<longleftrightarrow> th_main s \<noteq> Main_Starting \<and> th_fetch s = Fetch_Done"

definition documents_closed :: "('pk, 'h, 'x) threads \<Rightarrow> bool" where
  "documents_closed s \<longleftrightarrow> th_main s \<noteq> Main_Starting \<and> th_fetch s = Fetch_Done \<and> th_worker s = Worker_Done"

text \<open>The worker drops its receiver when it leaves its loop over the keys.\<close>

definition worker_listens :: "'pk worker_pc \<Rightarrow> bool" where
  "worker_listens w =
     (case w of Worker_Left saw \<Rightarrow> False | Worker_Reporting saw \<Rightarrow> False | Worker_Done \<Rightarrow> False | _ \<Rightarrow> True)"

section \<open>Steps\<close>

inductive main_step :: "('pk, 'h, 'x) threads \<Rightarrow> ('pk, 'h, 'x) threads \<Rightarrow> bool" where
  main_drop: "th_main s = Main_Starting \<Longrightarrow> main_step s (s\<lparr>th_main := Main_Waiting\<rparr>)"
| main_recv: "th_main s = Main_Waiting \<Longrightarrow> th_documents s = d # ds \<Longrightarrow>
    main_step s (s\<lparr>th_main := Main_Received d, th_documents := ds\<rparr>)"
| main_closed: "th_main s = Main_Waiting \<Longrightarrow> th_documents s = [] \<Longrightarrow> documents_closed s \<Longrightarrow>
    main_step s (s\<lparr>th_main := Main_Received (Err NoKeys)\<rparr>)"
| main_stop: "th_main s = Main_Received d \<Longrightarrow> main_step s (s\<lparr>th_main := Main_Done d, th_stop := True\<rparr>)"

text \<open>
  A key is tried unless the flag is set. A panic of the worker ends it without a message; a decryption
  that does not return leaves it where it is.
\<close>

inductive worker_step ::
  "('pk::linorder, 'dk::linorder, 'd, 'v) externals \<Rightarrow> ('pk, 'dk, 'h, 'x) decrypt_setup \<Rightarrow>
   ('pk, 'h, 'x) threads \<Rightarrow> ('pk, 'h, 'x) threads \<Rightarrow> bool" for X P where
  worker_recv: "th_worker s = Worker_Receiving saw \<Longrightarrow> th_keys s = key # ks \<Longrightarrow>
    worker_step X P s (s\<lparr>th_worker := Worker_Trying saw key, th_keys := ks\<rparr>)"
| worker_closed: "th_worker s = Worker_Receiving saw \<Longrightarrow> th_keys s = [] \<Longrightarrow> keys_closed s \<Longrightarrow>
    worker_step X P s (s\<lparr>th_worker := Worker_Left saw\<rparr>)"
| worker_break: "th_worker s = Worker_Trying saw key \<Longrightarrow> th_stop s \<Longrightarrow>
    worker_step X P s (s\<lparr>th_worker := Worker_Left saw\<rparr>)"
| worker_decrypts: "th_worker s = Worker_Trying saw key \<Longrightarrow> \<not> th_stop s \<Longrightarrow>
    decrypt X (set_keys (ext_backend X) [key] (su_backup P)) = Ok decrypted \<Longrightarrow>
    worker_step X P s (s\<lparr>th_worker := Worker_Found (decrypted_to_document X decrypted)\<rparr>)"
| worker_misses: "th_worker s = Worker_Trying saw key \<Longrightarrow> \<not> th_stop s \<Longrightarrow>
    decrypt X (set_keys (ext_backend X) [key] (su_backup P)) = Err e \<Longrightarrow> e = B_WrongKey \<or> e = B_NoKey \<Longrightarrow>
    worker_step X P s (s\<lparr>th_worker := Worker_Receiving True\<rparr>)"
| worker_fails: "th_worker s = Worker_Trying saw key \<Longrightarrow> \<not> th_stop s \<Longrightarrow>
    decrypt X (set_keys (ext_backend X) [key] (su_backup P)) = Err e \<Longrightarrow> e \<noteq> B_WrongKey \<Longrightarrow> e \<noteq> B_NoKey \<Longrightarrow>
    worker_step X P s (s\<lparr>th_worker := Worker_Found (Err (FailedToDecrypt e))\<rparr>)"
| worker_panics: "th_worker s = Worker_Trying saw key \<Longrightarrow> \<not> th_stop s \<Longrightarrow>
    decrypt X (set_keys (ext_backend X) [key] (su_backup P)) = Panic \<Longrightarrow>
    worker_step X P s (s\<lparr>th_worker := Worker_Done\<rparr>)"
| worker_stops: "th_worker s = Worker_Found m \<Longrightarrow>
    worker_step X P s (s\<lparr>th_worker := Worker_Sending m, th_stop := True\<rparr>)"
| worker_sends: "th_worker s = Worker_Sending m \<Longrightarrow> m \<noteq> Panic \<Longrightarrow> m \<noteq> Diverges \<Longrightarrow>
    worker_step X P s (s\<lparr>th_worker := Worker_Done, th_documents := th_documents s @ [m]\<rparr>)"
| worker_unwinds: "th_worker s = Worker_Sending Panic \<Longrightarrow> worker_step X P s (s\<lparr>th_worker := Worker_Done\<rparr>)"
| worker_quiet: "th_worker s = Worker_Left saw \<Longrightarrow> th_stop s \<Longrightarrow> worker_step X P s (s\<lparr>th_worker := Worker_Done\<rparr>)"
| worker_unstopped: "th_worker s = Worker_Left saw \<Longrightarrow> \<not> th_stop s \<Longrightarrow>
    worker_step X P s (s\<lparr>th_worker := Worker_Reporting saw\<rparr>)"
| worker_reports: "th_worker s = Worker_Reporting saw \<Longrightarrow>
    worker_step X P s (s\<lparr>th_worker := Worker_Done,
      th_documents := th_documents s @ [Err (if saw then FailedToDecrypt B_WrongKey else NoKeys)]\<rparr>)"

text \<open>
  The fetcher looks at the flag when it starts and before each path. A device call is one step, since it
  returns within its limit. A key that cannot be sent, because the worker is gone, sets the flag.
\<close>

inductive fetch_step ::
  "('pk, 'dk, 'h, 'x) decrypt_setup \<Rightarrow> ('pk, 'h, 'x) threads \<Rightarrow> ('pk, 'h, 'x) threads \<Rightarrow> bool" for P where
  fetch_skip: "th_fetch s = Fetch_Starting h \<Longrightarrow> th_stop s \<Longrightarrow> fetch_step P s (s\<lparr>th_fetch := Fetch_Done\<rparr>)"
| fetch_none: "th_fetch s = Fetch_Starting h \<Longrightarrow> \<not> th_stop s \<Longrightarrow> su_devices P = None \<or> su_devices P = Some [] \<Longrightarrow>
    fetch_step P s (s\<lparr>th_fetch := Fetch_Done\<rparr>)"
| fetch_unlocked: "th_fetch s = Fetch_Starting h \<Longrightarrow> \<not> th_stop s \<Longrightarrow> su_devices P = Some (dev # devs) \<Longrightarrow>
    unlock_bitbox dev (co_network (su_collector P)) h = (Ok (), h') \<Longrightarrow>
    fetch_step P s (s\<lparr>th_fetch := Fetch_Next dev (collector_paths (su_collector P) (dev_kind dev)) h'\<rparr>)"
| fetch_locked: "th_fetch s = Fetch_Starting h \<Longrightarrow> \<not> th_stop s \<Longrightarrow> su_devices P = Some (dev # devs) \<Longrightarrow>
    unlock_bitbox dev (co_network (su_collector P)) h = (Err f, h') \<Longrightarrow>
    fetch_step P s (s\<lparr>th_fetch := Fetch_Failing f\<rparr>)"
| fetch_end: "th_fetch s = Fetch_Next dev [] h \<Longrightarrow> fetch_step P s (s\<lparr>th_fetch := Fetch_Done\<rparr>)"
| fetch_break: "th_fetch s = Fetch_Next dev (q # ps) h \<Longrightarrow> th_stop s \<Longrightarrow> fetch_step P s (s\<lparr>th_fetch := Fetch_Done\<rparr>)"
| fetch_ask: "th_fetch s = Fetch_Next dev ((p, e) # ps) h \<Longrightarrow> \<not> th_stop s \<Longrightarrow>
    fetch_step P s (s\<lparr>th_fetch := Fetch_Asking dev p e ps (dev_display dev h (display_xpub (dev_kind dev) e))\<rparr>)"
| fetch_answer: "th_fetch s = Fetch_Asking dev p e ps h \<Longrightarrow>
    get_extended_pubkey dev h p (xpub_timeout (dev_kind dev) e (co_prompt (su_collector P))) = (Fetched x, h') \<Longrightarrow>
    fetch_step P s (s\<lparr>th_fetch := Fetch_Sending dev x ps h'\<rparr>)"
| fetch_warning: "th_fetch s = Fetch_Asking dev p e ps h \<Longrightarrow> e \<noteq> MustFetch \<Longrightarrow>
    get_extended_pubkey dev h p (xpub_timeout (dev_kind dev) e (co_prompt (su_collector P))) = (a, h') \<Longrightarrow>
    failure_of a = Some err \<Longrightarrow>
    fetch_step P s (s\<lparr>th_fetch := Fetch_Next dev ps h'\<rparr>)"
| fetch_fails: "th_fetch s = Fetch_Asking dev p MustFetch ps h \<Longrightarrow>
    get_extended_pubkey dev h p (xpub_timeout (dev_kind dev) MustFetch (co_prompt (su_collector P))) = (a, h') \<Longrightarrow>
    failure_of a = Some err \<Longrightarrow>
    fetch_step P s (s\<lparr>th_fetch :=
      Fetch_Failing \<lparr>ff_device = dev_kind dev, ff_path = p, ff_expect = MustFetch, ff_error = err\<rparr>\<rparr>)"
| fetch_sends: "th_fetch s = Fetch_Sending dev x ps h \<Longrightarrow> worker_listens (th_worker s) \<Longrightarrow>
    fetch_step P s (s\<lparr>th_fetch := Fetch_Next dev ps h, th_keys := th_keys s @ [su_public_key P x]\<rparr>)"
| fetch_alone: "th_fetch s = Fetch_Sending dev x ps h \<Longrightarrow> \<not> worker_listens (th_worker s) \<Longrightarrow>
    fetch_step P s (s\<lparr>th_fetch := Fetch_Next dev ps h, th_stop := True\<rparr>)"
| fetch_stops: "th_fetch s = Fetch_Failing f \<Longrightarrow>
    fetch_step P s (s\<lparr>th_fetch := Fetch_Reporting f, th_stop := True\<rparr>)"
| fetch_reports: "th_fetch s = Fetch_Reporting f \<Longrightarrow>
    fetch_step P s (s\<lparr>th_fetch := Fetch_Done, th_documents := th_documents s @ [Err (FailedToFetchXpub f)]\<rparr>)"

inductive thread_step ::
  "('pk::linorder, 'dk::linorder, 'd, 'v) externals \<Rightarrow> ('pk, 'dk, 'h, 'x) decrypt_setup \<Rightarrow>
   ('pk, 'h, 'x) threads \<Rightarrow> ('pk, 'h, 'x) threads \<Rightarrow> bool" for X P where
  step_main: "main_step s s' \<Longrightarrow> thread_step X P s s'"
| step_worker: "worker_step X P s s' \<Longrightarrow> thread_step X P s s'"
| step_fetch: "fetch_step P s s' \<Longrightarrow> thread_step X P s s'"

text \<open>Runs, with their length.\<close>

inductive thread_run ::
  "('pk::linorder, 'dk::linorder, 'd, 'v) externals \<Rightarrow> ('pk, 'dk, 'h, 'x) decrypt_setup \<Rightarrow> nat \<Rightarrow>
   ('pk, 'h, 'x) threads \<Rightarrow> ('pk, 'h, 'x) threads \<Rightarrow> bool" for X P where
  run_start: "thread_run X P 0 s s"
| run_step: "thread_run X P n s s' \<Longrightarrow> thread_step X P s' s'' \<Longrightarrow> thread_run X P (Suc n) s s''"

section \<open>Before the threads\<close>

text \<open>The backup the threads work on and the key of the key file.\<close>

definition decrypt_prepare ::
  "('pk::linorder, 'x::linorder, 'd, 'v) cli_externals \<Rightarrow> ('pk, 'x) key_parser \<Rightarrow> bytes option \<Rightarrow> bool \<Rightarrow>
   bytes option \<Rightarrow> (('pk, ('pk, 'x) dpk) encrypted_backup \<times> 'pk option) cli" where
  "decrypt_prepare X K key_file key_given file =
     andThen (read_key_file K key_file key_given) (\<lambda>key.
     andThen (ok_or ReadError file) (\<lambda>data.
     andThen (map_err FailedToDecrypt (set_encrypted_payload X data eb_new)) (\<lambda>backup.
     (case key of
        Some k \<Rightarrow>
          andThen (map_err FailedToDecrypt (dpk_to_root_pk (ext_backend X) k)) (\<lambda>pk. Ok (backup, Some pk))
      | None \<Rightarrow> Ok (backup, None)))))"

text \<open>What the command writes once the main thread has its message.\<close>

definition decrypt_output :: "bytes cli \<Rightarrow> bytes cli" where
  "decrypt_output message = andThen message (\<lambda>document. Ok (document @ [0x0A]))"

section \<open>What a steady device gives\<close>

fun due_keys :: "(deriv_path \<Rightarrow> 'x answer) \<Rightarrow> (deriv_path \<times> expect) list \<Rightarrow> 'x list" where
  "due_keys ans [] = []"
| "due_keys ans ((p, e) # ps) =
     (case ans p of
        Fetched x \<Rightarrow> x # due_keys ans ps
      | _ \<Rightarrow> if e = MustFetch then [] else due_keys ans ps)"

fun due_failure ::
  "device_kind \<Rightarrow> (deriv_path \<Rightarrow> 'x answer) \<Rightarrow> (deriv_path \<times> expect) list \<Rightarrow> fetch_failed option" where
  "due_failure kind ans [] = None"
| "due_failure kind ans ((p, e) # ps) =
     (case failure_of (ans p) of
        Some err \<Rightarrow>
          if e = MustFetch
          then Some \<lparr>ff_device = kind, ff_path = p, ff_expect = MustFetch, ff_error = err\<rparr>
          else due_failure kind ans ps
      | None \<Rightarrow> due_failure kind ans ps)"

definition device_keys :: "('pk, 'dk, 'h, 'x) decrypt_setup \<Rightarrow> (deriv_path \<Rightarrow> 'x answer) \<Rightarrow> 'pk list" where
  "device_keys P ans =
     (case su_devices P of
        Some (dev # devs) \<Rightarrow>
          if unlock_failure (dev_kind dev) (co_network (su_collector P)) ans \<noteq> None then []
          else map (su_public_key P) (due_keys ans (collector_paths (su_collector P) (dev_kind dev)))
      | _ \<Rightarrow> [])"

definition device_failure :: "('pk, 'dk, 'h, 'x) decrypt_setup \<Rightarrow> (deriv_path \<Rightarrow> 'x answer) \<Rightarrow> fetch_failed option" where
  "device_failure P ans =
     (case su_devices P of
        Some (dev # devs) \<Rightarrow>
          (case unlock_failure (dev_kind dev) (co_network (su_collector P)) ans of
             Some f \<Rightarrow> Some f
           | None \<Rightarrow> due_failure (dev_kind dev) ans (collector_paths (su_collector P) (dev_kind dev)))
      | _ \<Rightarrow> None)"

definition steady_setup :: "('pk, 'dk, 'h, 'x) decrypt_setup \<Rightarrow> (deriv_path \<Rightarrow> 'x answer) \<Rightarrow> bool" where
  "steady_setup P ans \<longleftrightarrow> (case su_devices P of Some (dev # devs) \<Rightarrow> steady dev ans | _ \<Rightarrow> True)"

section \<open>What the main thread may receive\<close>

definition offered_keys ::
  "('pk, 'dk, 'h, 'x) decrypt_setup \<Rightarrow> 'pk option \<Rightarrow> (deriv_path \<Rightarrow> 'x answer) \<Rightarrow> 'pk list" where
  "offered_keys P key ans = (case key of Some pk \<Rightarrow> [pk] | None \<Rightarrow> []) @ device_keys P ans"

abbreviation attempt ::
  "('pk::linorder, 'dk::linorder, 'd, 'v) externals \<Rightarrow> ('pk, 'dk, 'h, 'x) decrypt_setup \<Rightarrow> 'pk \<Rightarrow> ('d, 'dk, unit) decrypted list bip" where
  "attempt X P k \<equiv> decrypt X (set_keys (ext_backend X) [k] (su_backup P))"

text \<open>The key that settles the worker: the first that is not refused as wrong.\<close>

definition settling ::
  "('pk::linorder, 'dk::linorder, 'd, 'v) externals \<Rightarrow> ('pk, 'dk, 'h, 'x) decrypt_setup \<Rightarrow> 'pk list \<Rightarrow> 'pk option" where
  "settling X P ks = List.find (\<lambda>k. \<not> missed (attempt X P k)) ks"

definition possible_reply ::
  "('pk::linorder, 'dk::linorder, 'd, 'v) externals \<Rightarrow> ('pk, 'dk, 'h, 'x) decrypt_setup \<Rightarrow> 'pk option \<Rightarrow>
   (deriv_path \<Rightarrow> 'x answer) \<Rightarrow> bytes cli \<Rightarrow> bool" where
  "possible_reply X P key ans r \<longleftrightarrow>
     (case settling X P (offered_keys P key ans) of
        Some k \<Rightarrow> r = worker_message X (attempt X P k) \<or>
          (\<exists>f. device_failure P ans = Some f \<and> r = Err (FailedToFetchXpub f))
      | None \<Rightarrow>
          (case device_failure P ans of
             Some f \<Rightarrow> r = Err (FailedToFetchXpub f)
           | None \<Rightarrow> r = Err (if offered_keys P key ans = [] then NoKeys else FailedToDecrypt B_WrongKey)))"

lemma settling_skip: "list_all (\<lambda>k. missed (attempt X P k)) ks \<Longrightarrow> settling X P (ks @ ks') = settling X P ks'"
  by (induction ks) (simp_all add: settling_def)

lemma settling_here: "\<not> missed (attempt X P k) \<Longrightarrow> settling X P (k # ks) = Some k"
  by (simp add: settling_def)

lemma settling_Nil [simp]: "settling X P [] = None"
  by (simp add: settling_def)

section \<open>The invariant\<close>

text \<open>Keys the fetcher has still to deliver, and how it will end, if nothing stops it.\<close>

fun pending_keys ::
  "('pk, 'dk, 'h, 'x) decrypt_setup \<Rightarrow> (deriv_path \<Rightarrow> 'x answer) \<Rightarrow> ('h, 'x) fetch_pc \<Rightarrow> 'pk list" where
  "pending_keys P ans (Fetch_Starting h) = device_keys P ans"
| "pending_keys P ans (Fetch_Next dev ps h) = map (su_public_key P) (due_keys ans ps)"
| "pending_keys P ans (Fetch_Asking dev p e ps h) = map (su_public_key P) (due_keys ans ((p, e) # ps))"
| "pending_keys P ans (Fetch_Sending dev x ps h) = su_public_key P x # map (su_public_key P) (due_keys ans ps)"
| "pending_keys P ans (Fetch_Failing f) = []"
| "pending_keys P ans (Fetch_Reporting f) = []"
| "pending_keys P ans Fetch_Done = []"

fun fetch_sound ::
  "('pk, 'dk, 'h, 'x) decrypt_setup \<Rightarrow> (deriv_path \<Rightarrow> 'x answer) \<Rightarrow> ('h, 'x) fetch_pc \<Rightarrow> bool" where
  "fetch_sound P ans (Fetch_Starting h) \<longleftrightarrow> True"
| "fetch_sound P ans (Fetch_Next dev ps h) \<longleftrightarrow> steady dev ans \<and> due_failure (dev_kind dev) ans ps = device_failure P ans"
| "fetch_sound P ans (Fetch_Asking dev p e ps h) \<longleftrightarrow>
     steady dev ans \<and> due_failure (dev_kind dev) ans ((p, e) # ps) = device_failure P ans"
| "fetch_sound P ans (Fetch_Sending dev x ps h) \<longleftrightarrow> steady dev ans \<and> due_failure (dev_kind dev) ans ps = device_failure P ans"
| "fetch_sound P ans (Fetch_Failing f) \<longleftrightarrow> device_failure P ans = Some f"
| "fetch_sound P ans (Fetch_Reporting f) \<longleftrightarrow> device_failure P ans = Some f"
| "fetch_sound P ans Fetch_Done \<longleftrightarrow> True"

fun is_reporting :: "('h, 'x) fetch_pc \<Rightarrow> bool" where
  "is_reporting (Fetch_Reporting f) = True"
| "is_reporting _ = False"

fun received :: "main_pc \<Rightarrow> bytes cli option" where
  "received (Main_Received d) = Some d"
| "received (Main_Done d) = Some d"
| "received _ = None"

text \<open>Every message so far, whether still in the channel or received.\<close>

definition messages :: "('pk, 'h, 'x) threads \<Rightarrow> bytes cli list" where
  "messages s = (case received (th_main s) of Some d \<Rightarrow> [d] | None \<Rightarrow> []) @ th_documents s"

fun worker_past :: "'pk worker_pc \<Rightarrow> bool" where
  "worker_past (Worker_Sending m) = True"
| "worker_past Worker_Done = True"
| "worker_past _ = False"

text \<open>The parts about the flag and the channels.\<close>

definition flag_inv ::
  "('pk, 'dk, 'h, 'x) decrypt_setup \<Rightarrow> (deriv_path \<Rightarrow> 'x answer) \<Rightarrow> ('pk, 'h, 'x) threads \<Rightarrow> bool" where
  "flag_inv P ans s \<longleftrightarrow>
     fetch_sound P ans (th_fetch s) \<and>
     (messages s = [] \<or> th_worker s = Worker_Done \<or> th_fetch s = Fetch_Done) \<and>
     (\<not> th_stop s \<or> worker_past (th_worker s) \<or> messages s \<noteq> [] \<or> is_reporting (th_fetch s)) \<and>
     (worker_listens (th_worker s) \<or> th_worker s = Worker_Done \<or> is_reporting (th_fetch s) \<or>
        th_fetch s = Fetch_Done) \<and>
     (th_worker s \<noteq> Worker_Done \<or> messages s \<noteq> [] \<or> is_reporting (th_fetch s)) \<and>
     (\<not> is_reporting (th_fetch s) \<or> th_stop s) \<and>
     (th_fetch s \<noteq> Fetch_Done \<or> th_stop s \<or> device_failure P ans = None)"

definition worker_inv ::
  "('pk::linorder, 'dk::linorder, 'd, 'v) externals \<Rightarrow> ('pk, 'dk, 'h, 'x) decrypt_setup \<Rightarrow> 'pk option \<Rightarrow>
   (deriv_path \<Rightarrow> 'x answer) \<Rightarrow> ('pk, 'h, 'x) threads \<Rightarrow> bool" where
  "worker_inv X P key ans s \<longleftrightarrow>
     (case th_worker s of
        Worker_Receiving saw \<Rightarrow>
          (\<exists>tried. list_all (\<lambda>k. missed (attempt X P k)) tried \<and> saw = (tried \<noteq> []) \<and>
             tried @ th_keys s @ pending_keys P ans (th_fetch s) = offered_keys P key ans)
      | Worker_Trying saw k \<Rightarrow>
          (\<exists>tried. list_all (\<lambda>k. missed (attempt X P k)) tried \<and> saw = (tried \<noteq> []) \<and>
             tried @ k # th_keys s @ pending_keys P ans (th_fetch s) = offered_keys P key ans)
      | Worker_Found m \<Rightarrow> possible_reply X P key ans m
      | Worker_Sending m \<Rightarrow> possible_reply X P key ans m
      | Worker_Left saw \<Rightarrow> th_stop s \<or>
          (settling X P (offered_keys P key ans) = None \<and> device_failure P ans = None \<and>
           saw = (offered_keys P key ans \<noteq> []))
      | Worker_Reporting saw \<Rightarrow>
          settling X P (offered_keys P key ans) = None \<and> device_failure P ans = None \<and>
          saw = (offered_keys P key ans \<noteq> [])
      | Worker_Done \<Rightarrow> True)"

definition threads_inv ::
  "('pk::linorder, 'dk::linorder, 'd, 'v) externals \<Rightarrow> ('pk, 'dk, 'h, 'x) decrypt_setup \<Rightarrow> 'pk option \<Rightarrow>
   (deriv_path \<Rightarrow> 'x answer) \<Rightarrow> ('pk, 'h, 'x) threads \<Rightarrow> bool" where
  "threads_inv X P key ans s \<longleftrightarrow>
     flag_inv P ans s \<and> worker_inv X P key ans s \<and> list_all (possible_reply X P key ans) (messages s)"

lemma threads_start_inv: "threads_inv X P key ans (threads_start key h)"
  by (auto simp: threads_inv_def flag_inv_def worker_inv_def messages_def threads_start_def worker_listens_def
      offered_keys_def intro!: exI [of _ "[]"])

section \<open>Every step keeps it\<close>

definition replies :: "('pk::linorder, 'dk::linorder, 'd, 'v) externals \<Rightarrow> ('pk, 'dk, 'h, 'x) decrypt_setup \<Rightarrow> bool" where
  "replies X P \<longleftrightarrow> (\<forall>k. worker_message X (attempt X P k) \<noteq> Panic \<and> worker_message X (attempt X P k) \<noteq> Diverges)"

lemma possible_reply_returns: "replies X P \<Longrightarrow> possible_reply X P key ans r \<Longrightarrow> r \<noteq> Panic \<and> r \<noteq> Diverges"
  by (auto simp: possible_reply_def replies_def split: option.splits)

lemmas flag_simps = flag_inv_def messages_def worker_listens_def

lemma messages_update [simp]:
  "messages (s\<lparr>th_fetch := f\<rparr>) = messages s" "messages (s\<lparr>th_keys := ks\<rparr>) = messages s"
  "messages (s\<lparr>th_stop := b\<rparr>) = messages s" "messages (s\<lparr>th_worker := w\<rparr>) = messages s"
  "messages (s\<lparr>th_worker := w, th_documents := th_documents s @ [m]\<rparr>) = messages s @ [m]"
  "messages (s\<lparr>th_fetch := f, th_documents := th_documents s @ [m]\<rparr>) = messages s @ [m]"
  by (simp_all add: messages_def)

lemma main_keeps_flag: "main_step s s' \<Longrightarrow> flag_inv P ans s \<Longrightarrow> flag_inv P ans s'"
  by (induction rule: main_step.induct) (auto simp: flag_simps documents_closed_def)

lemma main_keeps_worker: "main_step s s' \<Longrightarrow> worker_inv X P key ans s \<Longrightarrow> worker_inv X P key ans s'"
  by (induction rule: main_step.induct) (auto simp: worker_inv_def split: worker_pc.splits)

lemma main_keeps_messages:
  "main_step s s' \<Longrightarrow> flag_inv P ans s \<Longrightarrow> set (messages s') = set (messages s)"
  by (induction rule: main_step.induct) (auto simp: flag_simps documents_closed_def)

lemma worker_keeps_flag:
  assumes "worker_step X P s s'" "replies X P" "flag_inv P ans s" "worker_inv X P key ans s"
  shows "flag_inv P ans s'"
  using assms(1,3,4)
proof (induction rule: worker_step.induct)
  case (worker_panics s saw k)
  then show ?case using assms(2) by (metis replies_def worker_message.simps(3))
next
  case (worker_unwinds s)
  then show ?case using possible_reply_returns [OF assms(2)] by (auto simp: worker_inv_def)
qed (auto simp: flag_inv_def worker_listens_def keys_closed_def worker_inv_def)

lemma settled_reply:
  "settling X P (offered_keys P key ans) = Some k \<Longrightarrow> r = worker_message X (attempt X P k) \<Longrightarrow>
   possible_reply X P key ans r"
  by (simp add: possible_reply_def)

lemma worker_trying_settles:
  assumes "worker_inv X P key ans s" "th_worker s = Worker_Trying saw k" "\<not> missed (attempt X P k)"
  shows "settling X P (offered_keys P key ans) = Some k"
proof -
  from assms(1,2) obtain tried where t: "list_all (\<lambda>k. missed (attempt X P k)) tried"
    and e: "offered_keys P key ans = tried @ k # th_keys s @ pending_keys P ans (th_fetch s)"
    by (auto simp: worker_inv_def)
  show ?thesis unfolding e by (simp add: settling_skip [OF t] settling_here [OF assms(3)])
qed

lemma worker_keeps_worker:
  assumes "worker_step X P s s'" "flag_inv P ans s" "worker_inv X P key ans s"
  shows "worker_inv X P key ans s'"
  using assms
proof (induction rule: worker_step.induct)
  case (worker_closed s saw)
  then obtain tried where t: "list_all (\<lambda>k. missed (attempt X P k)) tried" "saw = (tried \<noteq> [])"
    and e: "tried = offered_keys P key ans"
    by (auto simp: worker_inv_def keys_closed_def)
  have "settling X P (offered_keys P key ans) = None"
    using settling_skip [OF t(1), of "[]"] by (simp add: e)
  with worker_closed t(2) e show ?case by (auto simp: worker_inv_def flag_inv_def keys_closed_def)
next
  case (worker_decrypts s saw k ds)
  then show ?case
    using settled_reply [OF worker_trying_settles [OF worker_decrypts(5,1)]] by (simp add: worker_inv_def)
next
  case (worker_misses s saw k e)
  then have m: "missed (attempt X P k)" by simp
  from worker_misses(1,6) obtain tried where t: "list_all (\<lambda>k. missed (attempt X P k)) tried"
    and e: "offered_keys P key ans = tried @ k # th_keys s @ pending_keys P ans (th_fetch s)"
    by (auto simp: worker_inv_def)
  from t m show ?case unfolding worker_inv_def by (auto simp: e intro!: exI [of _ "tried @ [k]"])
next
  case (worker_fails s saw k e)
  then show ?case
    using settled_reply [OF worker_trying_settles [OF worker_fails(7,1)]] by (simp add: worker_inv_def)
qed (auto simp: worker_inv_def)

lemma worker_keeps_messages:
  assumes "worker_step X P s s'" "worker_inv X P key ans s" "list_all (possible_reply X P key ans) (messages s)"
  shows "list_all (possible_reply X P key ans) (messages s')"
  using assms
  by (induction rule: worker_step.induct)
    (simp_all add: worker_inv_def possible_reply_def)

lemma get_pubkey_steady: "steady dev ans \<Longrightarrow> get_extended_pubkey dev h p limit = (a, h') \<Longrightarrow> a = ans p"
  by (metis fst_conv steady_def)

lemma fetch_keeps_flag:
  assumes "fetch_step P s s'" "steady_setup P ans" "flag_inv P ans s"
  shows "flag_inv P ans s'"
  using assms(1,3)
proof (induction rule: fetch_step.induct)
  case (fetch_unlocked s h dev devs h')
  then have u: "steady dev ans" using assms(2) by (simp add: steady_setup_def)
  have "unlock_failure (dev_kind dev) (co_network (su_collector P)) ans = None"
    using unlock_bitbox_steady [OF u, of "co_network (su_collector P)" h] fetch_unlocked(4) by (auto split: option.splits)
  with u fetch_unlocked show ?case by (simp add: flag_inv_def device_failure_def)
next
  case (fetch_locked s h dev devs f h')
  then have u: "steady dev ans" using assms(2) by (simp add: steady_setup_def)
  have "unlock_failure (dev_kind dev) (co_network (su_collector P)) ans = Some f"
    using unlock_bitbox_steady [OF u, of "co_network (su_collector P)" h] fetch_locked(4) by (auto split: option.splits)
  with u fetch_locked show ?case by (simp add: flag_inv_def device_failure_def)
next
  case (fetch_answer s dev p e ps h x h')
  then have "ans p = Fetched x" using get_pubkey_steady by (fastforce simp: flag_inv_def)
  with fetch_answer show ?case by (simp add: flag_inv_def)
next
  case (fetch_warning s dev p e ps h a h' err)
  then have "ans p = a" using get_pubkey_steady by (fastforce simp: flag_inv_def)
  with fetch_warning show ?case by (simp add: flag_inv_def)
next
  case (fetch_fails s dev p ps h a h' err)
  then have "ans p = a" using get_pubkey_steady by (fastforce simp: flag_inv_def)
  with fetch_fails show ?case by (simp add: flag_inv_def)
next
  case (fetch_none s h)
  then have "device_failure P ans = None" by (auto simp: device_failure_def)
  with fetch_none show ?case by (simp add: flag_inv_def)
next
  case (fetch_alone s dev x ps h)
  then have "th_worker s = Worker_Done" by (auto simp: flag_inv_def)
  with fetch_alone show ?case by (simp add: flag_inv_def)
qed (simp_all add: flag_inv_def)

lemma unsettled_worker_unstopped:
  "flag_inv P ans s \<Longrightarrow> \<not> worker_past (th_worker s) \<Longrightarrow> th_stop s \<Longrightarrow>
   is_reporting (th_fetch s) \<or> th_fetch s = Fetch_Done"
  by (cases "messages s = []") (auto simp: flag_inv_def)

text \<open>A step of the fetcher moves at most one key from what it owes to the channel.\<close>

lemma fetch_moves_keys:
  assumes "fetch_step P s s'" "steady_setup P ans" "flag_inv P ans s" "worker_listens (th_worker s)"
    and p: "\<not> worker_past (th_worker s)"
  shows "th_keys s' @ pending_keys P ans (th_fetch s') = th_keys s @ pending_keys P ans (th_fetch s) \<and>
    th_worker s' = th_worker s"
  using assms(1,3-)
proof (induction rule: fetch_step.induct)
  case (fetch_skip s h)
  then show ?case using unsettled_worker_unstopped by fastforce
next
  case (fetch_break s dev q ps h)
  then show ?case using unsettled_worker_unstopped by fastforce
next
  case (fetch_unlocked s h dev devs h')
  then have u: "steady dev ans" using assms(2) by (simp add: steady_setup_def)
  have "unlock_failure (dev_kind dev) (co_network (su_collector P)) ans = None"
    using unlock_bitbox_steady [OF u, of "co_network (su_collector P)" h] fetch_unlocked(4) by (auto split: option.splits)
  with fetch_unlocked show ?case by (simp add: device_keys_def)
next
  case (fetch_locked s h dev devs f h')
  then have u: "steady dev ans" using assms(2) by (simp add: steady_setup_def)
  have "unlock_failure (dev_kind dev) (co_network (su_collector P)) ans = Some f"
    using unlock_bitbox_steady [OF u, of "co_network (su_collector P)" h] fetch_locked(4) by (auto split: option.splits)
  with fetch_locked show ?case by (simp add: device_keys_def)
next
  case (fetch_answer s dev p e ps h x h')
  then have "ans p = Fetched x" using get_pubkey_steady by (fastforce simp: flag_inv_def)
  with fetch_answer show ?case by simp
next
  case (fetch_warning s dev p e ps h a h' err)
  then have "ans p = a" using get_pubkey_steady by (fastforce simp: flag_inv_def)
  with fetch_warning show ?case by (cases a) auto
next
  case (fetch_fails s dev p ps h a h' err)
  then have "ans p = a" using get_pubkey_steady by (fastforce simp: flag_inv_def)
  with fetch_fails show ?case by (cases a) auto
qed (auto simp: device_keys_def)

lemma fetch_frame:
  "fetch_step P s s' \<Longrightarrow> th_worker s' = th_worker s \<and> th_main s' = th_main s \<and> (th_stop s \<longrightarrow> th_stop s')"
  by (induction rule: fetch_step.induct) auto

lemma fetch_keeps_worker:
  assumes "fetch_step P s s'" "steady_setup P ans" "flag_inv P ans s" "worker_inv X P key ans s"
  shows "worker_inv X P key ans s'"
proof (cases "worker_listens (th_worker s) \<and> \<not> worker_past (th_worker s)")
  case True
  with fetch_moves_keys [OF assms(1-3)] assms(4) show ?thesis
    by (auto simp: worker_inv_def worker_listens_def split: worker_pc.splits)
next
  case False
  with fetch_frame [OF assms(1)] assms(4) show ?thesis
    by (auto simp: worker_inv_def worker_listens_def split: worker_pc.splits)
qed

lemma fetch_keeps_messages:
  "fetch_step P s s' \<Longrightarrow> flag_inv P ans s \<Longrightarrow> list_all (possible_reply X P key ans) (messages s) \<Longrightarrow>
   list_all (possible_reply X P key ans) (messages s')"
  by (induction rule: fetch_step.induct) (auto simp: flag_simps possible_reply_def split: option.splits)

lemma step_keeps_inv:
  assumes "thread_step X P s s'" "replies X P" "steady_setup P ans" "threads_inv X P key ans s"
  shows "threads_inv X P key ans s'"
  using assms(1)
proof cases
  case step_main
  with assms(4) main_keeps_messages [OF step_main, of P ans] show ?thesis
    by (auto simp: threads_inv_def main_keeps_flag main_keeps_worker list_all_iff)
next
  case step_worker
  from assms(4) show ?thesis
    using worker_keeps_flag [OF step_worker assms(2)] worker_keeps_worker [OF step_worker]
      worker_keeps_messages [OF step_worker]
    by (auto simp: threads_inv_def)
next
  case step_fetch
  from assms(4) show ?thesis
    using fetch_keeps_flag [OF step_fetch assms(3)] fetch_keeps_worker [OF step_fetch assms(3)]
      fetch_keeps_messages [OF step_fetch]
    by (auto simp: threads_inv_def)
qed

lemma run_keeps_inv:
  "thread_run X P n s s' \<Longrightarrow> replies X P \<Longrightarrow> steady_setup P ans \<Longrightarrow> threads_inv X P key ans s \<Longrightarrow>
   threads_inv X P key ans s'"
proof (induction rule: thread_run.induct)
  case (run_step n s s' s'')
  then show ?case using step_keeps_inv by blast
qed

lemma run_inv:
  "thread_run X P n (threads_start key h) s \<Longrightarrow> replies X P \<Longrightarrow> steady_setup P ans \<Longrightarrow> threads_inv X P key ans s"
  by (erule run_keeps_inv) (simp_all add: threads_start_inv)

section \<open>Runs end\<close>

definition asked_paths :: "('pk, 'dk, 'h, 'x) decrypt_setup \<Rightarrow> (deriv_path \<times> expect) list" where
  "asked_paths P =
     (case su_devices P of Some (dev # devs) \<Rightarrow> collector_paths (su_collector P) (dev_kind dev) | _ \<Rightarrow> [])"

fun main_weight :: "main_pc \<Rightarrow> nat" where
  "main_weight Main_Starting = 3"
| "main_weight Main_Waiting = 2"
| "main_weight (Main_Received d) = 1"
| "main_weight (Main_Done d) = 0"

fun worker_weight :: "'pk worker_pc \<Rightarrow> nat" where
  "worker_weight (Worker_Trying saw k) = 5"
| "worker_weight (Worker_Receiving saw) = 4"
| "worker_weight (Worker_Found m) = 3"
| "worker_weight (Worker_Sending m) = 2"
| "worker_weight (Worker_Left saw) = 2"
| "worker_weight (Worker_Reporting saw) = 1"
| "worker_weight Worker_Done = 0"

fun fetch_weight :: "('pk, 'dk, 'h, 'x) decrypt_setup \<Rightarrow> ('h, 'x) fetch_pc \<Rightarrow> nat" where
  "fetch_weight P (Fetch_Starting h) = 5 * length (asked_paths P) + 3"
| "fetch_weight P (Fetch_Next dev ps h) = 5 * length ps + 2"
| "fetch_weight P (Fetch_Asking dev p e ps h) = 5 * length ps + 6"
| "fetch_weight P (Fetch_Sending dev x ps h) = 5 * length ps + 5"
| "fetch_weight P (Fetch_Failing f) = 2"
| "fetch_weight P (Fetch_Reporting f) = 1"
| "fetch_weight P Fetch_Done = 0"

text \<open>A key in the channel makes two more steps for the worker.\<close>

definition run_weight :: "('pk, 'dk, 'h, 'x) decrypt_setup \<Rightarrow> ('pk, 'h, 'x) threads \<Rightarrow> nat" where
  "run_weight P s = main_weight (th_main s) + worker_weight (th_worker s) + 2 * length (th_keys s) + fetch_weight P (th_fetch s)"

lemma fetch_step_lighter: "fetch_step P s s' \<Longrightarrow> run_weight P s' < run_weight P s"
  by (induction rule: fetch_step.induct) (auto simp: run_weight_def asked_paths_def)

lemma thread_step_lighter: "thread_step X P s s' \<Longrightarrow> run_weight P s' < run_weight P s"
proof (induction rule: thread_step.induct)
  case (step_main s s')
  then show ?case by (induction rule: main_step.induct) (auto simp: run_weight_def)
next
  case (step_worker s s')
  then show ?case by (induction rule: worker_step.induct) (auto simp: run_weight_def)
qed (rule fetch_step_lighter)

lemma run_bounded: "thread_run X P n s s' \<Longrightarrow> n + run_weight P s' \<le> run_weight P s"
proof (induction rule: thread_run.induct)
  case (run_step n s s' s'')
  with thread_step_lighter [OF run_step(2)] show ?case by simp
qed simp

lemma start_weight: "run_weight P (threads_start key h) \<le> 12 + 5 * length (asked_paths P)"
  by (simp add: run_weight_def threads_start_def split: option.split)

section \<open>No thread waits for ever\<close>

lemma fetch_can_step: "th_fetch s \<noteq> Fetch_Done \<Longrightarrow> \<exists>s'. fetch_step P s s'"
proof (cases "th_fetch s")
  case (Fetch_Starting h)
  show ?thesis
  proof (cases "th_stop s")
    case False
    show ?thesis
    proof (cases "su_devices P = None \<or> su_devices P = Some []")
      case False
      then obtain dev devs where d: "su_devices P = Some (dev # devs)" by (metis neq_Nil_conv option.exhaust)
      obtain u h' where u: "unlock_bitbox dev (co_network (su_collector P)) h = (u, h')" by fastforce
      then consider "u = Ok ()" | f where "u = Err f"
        using unlock_bitbox_safe [of dev "co_network (su_collector P)" h] by auto
      then show ?thesis
      proof cases
        case 1
        show ?thesis by (rule exI, rule fetch_unlocked [OF Fetch_Starting \<open>\<not> th_stop s\<close> d u [unfolded 1]])
      next
        case 2
        show ?thesis by (rule exI, rule fetch_locked [OF Fetch_Starting \<open>\<not> th_stop s\<close> d u [unfolded 2]])
      qed
    next
      case True
      show ?thesis by (rule exI, rule fetch_none [OF Fetch_Starting \<open>\<not> th_stop s\<close> True])
    qed
  next
    case True
    show ?thesis by (rule exI, rule fetch_skip [OF Fetch_Starting True])
  qed
next
  case (Fetch_Next dev ps h)
  show ?thesis
  proof (cases ps)
    case Nil
    with Fetch_Next fetch_end [of s dev h P] show ?thesis by blast
  next
    case (Cons q qs)
    then show ?thesis
      using Fetch_Next fetch_break [of s dev q qs h P] fetch_ask [of s dev "fst q" "snd q" qs h P]
      by (cases "th_stop s") auto
  qed
next
  case (Fetch_Asking dev p e ps h)
  obtain a h' where a: "get_extended_pubkey dev h p (xpub_timeout (dev_kind dev) e (co_prompt (su_collector P))) = (a, h')"
    by fastforce
  show ?thesis
  proof (cases "failure_of a")
    case None
    then obtain x where "a = Fetched x" by (cases a) auto
    with a show ?thesis by (intro exI) (rule fetch_answer [OF Fetch_Asking], simp)
  next
    case (Some err)
    show ?thesis
    proof (cases "e = MustFetch")
      case True
      show ?thesis by (rule exI, rule fetch_fails [OF Fetch_Asking [unfolded True] a [unfolded True] Some])
    next
      case False
      show ?thesis by (rule exI, rule fetch_warning [OF Fetch_Asking False a Some])
    qed
  qed
next
  case (Fetch_Sending dev x ps h)
  then show ?thesis using fetch_sends [of s dev x ps h P] fetch_alone [of s dev x ps h P] by blast
next
  case (Fetch_Failing f)
  then show ?thesis using fetch_stops [of s f P] by blast
next
  case (Fetch_Reporting f)
  then show ?thesis using fetch_reports [of s f P] by blast
qed simp

text \<open>
  Whatever the device does: a worker whose decryptions return never holds a message that it cannot send.
\<close>

definition sendable :: "'pk worker_pc \<Rightarrow> bool" where
  "sendable w \<longleftrightarrow> w \<noteq> Worker_Found Diverges \<and> w \<noteq> Worker_Sending Diverges"

lemma fetch_keeps_worker_pc: "fetch_step P s s' \<Longrightarrow> th_worker s' = th_worker s"
  by (induction rule: fetch_step.induct) auto

lemma main_keeps_worker_pc: "main_step s s' \<Longrightarrow> th_worker s' = th_worker s"
  by (induction rule: main_step.induct) auto

lemma worker_keeps_sendable:
  assumes "worker_step X P s s'" "replies X P" "sendable (th_worker s)"
  shows "sendable (th_worker s')"
  using assms(1,3)
proof (induction rule: worker_step.induct)
  case (worker_decrypts s saw k ds)
  have "worker_message X (attempt X P k) \<noteq> Diverges" using assms(2) by (simp add: replies_def)
  with worker_decrypts(3) show ?case by (simp add: sendable_def)
qed (auto simp: sendable_def)

lemma step_keeps_sendable:
  assumes "thread_step X P s s'" "replies X P" "sendable (th_worker s)"
  shows "sendable (th_worker s')"
  using assms(1)
  by cases (use assms(2,3) in \<open>auto simp: main_keeps_worker_pc fetch_keeps_worker_pc worker_keeps_sendable\<close>)

lemma run_sendable:
  assumes "thread_run X P n s s'" "replies X P" "sendable (th_worker s)"
  shows "sendable (th_worker s')"
  using assms by (induction rule: thread_run.induct) (simp_all add: step_keeps_sendable)

lemma run_from_start_sendable:
  assumes "thread_run X P n (threads_start key h) s" "replies X P"
  shows "sendable (th_worker s)"
  using run_sendable [OF assms] by (simp add: threads_start_def sendable_def)

lemma worker_can_step:
  assumes "th_worker s \<noteq> Worker_Done" "th_fetch s = Fetch_Done" "th_main s \<noteq> Main_Starting"
    and "replies X P" "sendable (th_worker s)"
  shows "\<exists>s'. worker_step X P s s'"
proof (cases "th_worker s")
  case (Worker_Receiving saw)
  have c: "keys_closed s" using assms(2,3) by (simp add: keys_closed_def)
  show ?thesis
    by (cases "th_keys s") (use worker_closed [OF Worker_Receiving _ c] worker_recv [OF Worker_Receiving] in blast)+
next
  case (Worker_Trying saw k)
  show ?thesis
  proof (cases "th_stop s")
    case False
    show ?thesis
    proof (cases "attempt X P k")
      case (Ok ds)
      show ?thesis by (rule exI, rule worker_decrypts [OF Worker_Trying False Ok])
    next
      case (Err e)
      then show ?thesis
        using worker_misses [OF Worker_Trying False Err] worker_fails [OF Worker_Trying False Err]
        by (cases "e = B_WrongKey \<or> e = B_NoKey") blast+
    next
      case Panic
      show ?thesis by (rule exI, rule worker_panics [OF Worker_Trying False Panic])
    next
      case Diverges
      then show ?thesis using assms(4) by (metis replies_def worker_message.simps(4))
    qed
  qed (use worker_break Worker_Trying in blast)
next
  case (Worker_Sending m)
  show ?thesis
  proof (cases "m = Panic")
    case True
    with Worker_Sending show ?thesis using worker_unwinds [of s X P] by blast
  next
    case False
    with Worker_Sending assms(5) show ?thesis using worker_sends [of s m X P] by (auto simp: sendable_def)
  qed
qed (use assms(1) worker_stops worker_quiet worker_unstopped worker_reports in blast)+

lemma some_thread_steps:
  assumes "\<And>r. th_main s \<noteq> Main_Done r" "replies X P" "sendable (th_worker s)"
  shows "\<exists>s'. thread_step X P s s'"
proof (cases "th_main s")
  case Main_Waiting
  show ?thesis
  proof (cases "th_fetch s = Fetch_Done \<and> th_worker s = Worker_Done")
    case True
    then have c: "documents_closed s" using Main_Waiting by (simp add: documents_closed_def)
    have "\<exists>s'. main_step s s'"
      by (cases "th_documents s") (use main_closed [OF Main_Waiting _ c] main_recv [OF Main_Waiting] in blast)+
    then show ?thesis using step_main by blast
  next
    case False
    then show ?thesis
      using fetch_can_step worker_can_step [OF _ _ _ assms(2,3)] Main_Waiting step_worker step_fetch
      by (metis main_pc.distinct(1))
  qed
qed (use assms(1) main_drop main_stop step_main in blast)+

section \<open>Two schedules\<close>

lemma run_main: "thread_run X P n s s' \<Longrightarrow> main_step s' s'' \<Longrightarrow> thread_run X P (Suc n) s s''"
  by (rule run_step, assumption, rule step_main)

lemma run_worker: "thread_run X P n s s' \<Longrightarrow> worker_step X P s' s'' \<Longrightarrow> thread_run X P (Suc n) s s''"
  by (rule run_step, assumption, rule step_worker)

text \<open>The main thread receives what has been sent and ends.\<close>

lemma main_finishes:
  assumes "thread_run X P n s s'" "th_main s' = Main_Starting" "th_documents s' = r # ds"
  shows "\<exists>m t. thread_run X P m s t \<and> th_main t = Main_Done r"
proof -
  define t where "t = s'\<lparr>th_main := Main_Waiting\<rparr>"
  define u where "u = t\<lparr>th_main := Main_Received r, th_documents := ds\<rparr>"
  have 1: "thread_run X P (Suc n) s t"
    unfolding t_def by (rule run_main [OF assms(1)], rule main_drop [OF assms(2)])
  have 2: "thread_run X P (Suc (Suc n)) s u"
    unfolding u_def by (rule run_main [OF 1], rule main_recv) (simp_all add: t_def assms(3))
  have "thread_run X P (Suc (Suc (Suc n))) s (u\<lparr>th_main := Main_Done r, th_stop := True\<rparr>)"
    by (rule run_main [OF 2], rule main_stop) (simp add: u_def)
  then show ?thesis by (intro exI conjI) (assumption, simp)
qed

text \<open>The worker alone, with a key that opens the backup.\<close>

lemma worker_first:
  fixes P :: "('pk::linorder, 'dk::linorder, 'h, 'x) decrypt_setup"
  assumes "attempt X P k = Ok ds" "decrypted_to_document X ds = Ok document"
  shows "\<exists>n s. thread_run X P n (threads_start (Some k) h) s \<and> th_main s = Main_Done (Ok document)"
proof -
  let ?s = "threads_start (Some k) h :: ('pk, 'h, 'x) threads"
  define t where "t = ?s\<lparr>th_worker := Worker_Trying False k, th_keys := []\<rparr>"
  define u where "u = t\<lparr>th_worker := Worker_Found (decrypted_to_document X ds)\<rparr>"
  define v where "v = u\<lparr>th_worker := Worker_Sending (Ok document), th_stop := True\<rparr>"
  define w where "w = v\<lparr>th_worker := Worker_Done, th_documents := th_documents v @ [Ok document]\<rparr>"
  have 1: "thread_run X P (Suc 0) ?s t"
    unfolding t_def by (rule run_worker [OF run_start], rule worker_recv [where saw = False]) (simp_all add: threads_start_def)
  have 2: "thread_run X P (Suc (Suc 0)) ?s u"
    unfolding u_def by (rule run_worker [OF 1], rule worker_decrypts [where saw = False, OF _ _ assms(1)]) (simp_all add: t_def threads_start_def)
  have 3: "thread_run X P (Suc (Suc (Suc 0))) ?s v"
    unfolding v_def by (rule run_worker [OF 2], rule worker_stops) (simp add: u_def assms(2))
  have 4: "thread_run X P (Suc (Suc (Suc (Suc 0)))) ?s w"
    unfolding w_def by (rule run_worker [OF 3], rule worker_sends) (simp_all add: v_def)
  show ?thesis
    by (rule main_finishes [OF 4]) (simp_all add: w_def v_def u_def t_def threads_start_def)
qed

text \<open>The fetcher alone, with a device that fails.\<close>

lemma fetcher_ends: "\<exists>s'. (fetch_step P)\<^sup>*\<^sup>* s s' \<and> th_fetch s' = Fetch_Done"
proof (induction "run_weight P s" arbitrary: s rule: less_induct)
  case less
  show ?case
  proof (cases "th_fetch s = Fetch_Done")
    case False
    then obtain t where t: "fetch_step P s t" using fetch_can_step by blast
    from less [OF fetch_step_lighter [OF t]] obtain s' where "(fetch_step P)\<^sup>*\<^sup>* t s'" "th_fetch s' = Fetch_Done" by blast
    with t show ?thesis by (meson converse_rtranclp_into_rtranclp)
  qed blast
qed

lemma fetch_documents:
  "fetch_step P s s' \<Longrightarrow>
   th_documents s' = th_documents s \<or>
   (\<exists>f. th_fetch s = Fetch_Reporting f \<and> th_documents s' = th_documents s @ [Err (FailedToFetchXpub f)])"
  by (induction rule: fetch_step.induct) auto

lemma fetcher_run:
  assumes "(fetch_step P)\<^sup>*\<^sup>* s s'" "steady_setup P ans" "flag_inv P ans s"
    and "\<forall>d \<in> set (th_documents s). \<exists>f. device_failure P ans = Some f \<and> d = Err (FailedToFetchXpub f)"
  shows "(\<exists>n. thread_run X P n s s') \<and> flag_inv P ans s' \<and> th_worker s' = th_worker s \<and> th_main s' = th_main s \<and>
    (\<forall>d \<in> set (th_documents s'). \<exists>f. device_failure P ans = Some f \<and> d = Err (FailedToFetchXpub f))"
  using assms(1)
proof (induction rule: rtranclp_induct)
  case base
  then show ?case using assms(3,4) run_start by blast
next
  case (step t u)
  then have inv: "flag_inv P ans t" by blast
  from step(3) have old: "\<forall>d \<in> set (th_documents t). \<exists>f. device_failure P ans = Some f \<and> d = Err (FailedToFetchXpub f)"
    by blast
  have "\<forall>d \<in> set (th_documents u). \<exists>f. device_failure P ans = Some f \<and> d = Err (FailedToFetchXpub f)"
    using fetch_documents [OF step(2)]
  proof (elim disjE exE conjE)
    fix f
    assume "th_fetch t = Fetch_Reporting f" "th_documents u = th_documents t @ [Err (FailedToFetchXpub f)]"
    with inv old show ?thesis by (auto simp: flag_inv_def)
  qed (simp add: old)
  moreover from step(3) obtain n where "thread_run X P n s t" by blast
  then have "thread_run X P (Suc n) s u" by (rule run_step) (rule step_fetch [OF step(2)])
  ultimately show ?case
    using fetch_keeps_flag [OF step(2) assms(2) inv] fetch_frame [OF step(2)] step(3) by auto
qed

lemma fetcher_first:
  fixes P :: "('pk::linorder, 'dk::linorder, 'h, 'x) decrypt_setup"
  assumes "steady_setup P ans" "device_failure P ans = Some f"
  shows "\<exists>n s. thread_run X P n (threads_start key h) s \<and> th_main s = Main_Done (Err (FailedToFetchXpub f))"
proof -
  let ?s = "threads_start key h :: ('pk, 'h, 'x) threads"
  obtain t where t: "(fetch_step P)\<^sup>*\<^sup>* ?s t" "th_fetch t = Fetch_Done" using fetcher_ends by blast
  have "flag_inv P ans ?s" using threads_start_inv [of X P key ans h] by (simp add: threads_inv_def)
  from fetcher_run [OF t(1) assms(1) this, of X] obtain n where n: "thread_run X P n ?s t"
    and i: "flag_inv P ans t" and w: "th_worker t = Worker_Receiving False" "th_main t = Main_Starting"
    and d: "\<forall>d \<in> set (th_documents t). d = Err (FailedToFetchXpub f)"
    using assms(2) by (auto simp: threads_start_def)
  from i w assms(2) t(2) have "th_documents t \<noteq> []" by (auto simp: flag_simps)
  then obtain ds where "th_documents t = Err (FailedToFetchXpub f) # ds" using d by (cases "th_documents t") auto
  from main_finishes [OF n w(2) this] show ?thesis .
qed

section \<open>Replies without a panic\<close>

lemma decrypted_to_bytes_returns: "decrypted_to_bytes X d \<noteq> Panic \<and> decrypted_to_bytes X d \<noteq> Diverges"
  by (cases d)
    (auto simp: outcome_simps descriptor_backup_item_def policy_backup_item_def policy_payload_def to_json_def
      policy_to_json_def to_single_json_def is_single_def index_at_def split: if_splits)

lemma decrypted_to_document_returns:
  "decrypted_to_document X ds \<noteq> Panic \<and> decrypted_to_document X ds \<noteq> Diverges"
proof -
  have "document_loop X ds acc \<noteq> Panic \<and> document_loop X ds acc \<noteq> Diverges" for acc
    by (induction ds arbitrary: acc) (auto simp: Let_def outcome_simps decrypted_to_bytes_returns)
  then show ?thesis by (simp add: decrypted_to_document_def)
qed

lemma externals_reply: "externals_return X \<Longrightarrow> replies X P"
proof -
  assume "externals_return X"
  then have "r \<noteq> Panic \<and> r \<noteq> Diverges \<Longrightarrow> worker_message X r \<noteq> Panic \<and> worker_message X r \<noteq> Diverges"
    for r :: "('c, 'b, unit) decrypted list bip"
    by (cases r) (simp_all add: decrypted_to_document_returns)
  then show ?thesis using decrypt_returns [OF \<open>externals_return X\<close>] by (simp add: replies_def)
qed

text \<open>So there is a run in which the main thread ends.\<close>

lemma some_run_ends:
  assumes "replies X P"
  shows "\<exists>n s r. thread_run X P n (threads_start key h) s \<and> th_main s = Main_Done r"
proof (rule ccontr)
  assume no: "\<nexists>n s r. thread_run X P n (threads_start key h) s \<and> th_main s = Main_Done r"
  have "\<exists>s. thread_run X P n (threads_start key h) s" for n
  proof (induction n)
    case (Suc n)
    then obtain s where s: "thread_run X P n (threads_start key h) s" by blast
    from some_thread_steps [OF _ assms run_from_start_sendable [OF s assms]] no s
    obtain s' where "thread_step X P s s'" by blast
    with s show ?case using run_step by blast
  qed (use run_start in blast)
  then obtain s where s: "thread_run X P (Suc (run_weight P (threads_start key h))) (threads_start key h) s" by blast
  from run_bounded [OF s] show False by simp
qed

end
