(* ===== verification/Fuzz_Rust.thy ===== *)
theory Fuzz_Rust
  imports Scheme
begin

text \<open>
  The Rust side of the fuzz crate: what its differential targets take from the core crate
  (\<open>fuzz/src/lib.rs\<close>, the Rust arm), and the encode target (\<open>fuzz/fuzz_targets/encode.rs\<close>). Shown: that
  arm never panics, what it decodes it writes back, wrapping a plaintext gives a backup from which it
  reads just what the payload decoder reads, and the encode target passes on every input.
\<close>

section \<open>Results of an arm\<close>

text \<open>
  A function that returns an \<open>Option\<close> is an outcome whose only error is \<open>()\<close>, so that \<open>?\<close> and \<open>.ok()?\<close> are
  \<open>andThen\<close>.
\<close>

type_synonym 'a arm = "(unit, 'a) outcome"

abbreviation as_ok :: "('e, 'a) outcome \<Rightarrow> 'a arm" where
  "as_ok r \<equiv> map_err (\<lambda>_. ()) r"

record decoded =
  dc_paths :: "u32 list list"
  dc_secrets :: "bytes list"
  dc_nonce :: bytes
  dc_ciphertext :: bytes

definition sorted_unique :: "'a::linorder list \<Rightarrow> 'a list" where
  "sorted_unique v = sort_dedup v"

definition canonical :: "decoded \<Rightarrow> decoded" where
  "canonical d = d\<lparr>dc_paths := sorted_unique (dc_paths d), dc_secrets := sorted_unique (dc_secrets d)\<rparr>"

datatype content_type = CT_Bip u16 | CT_Proprietary bytes | CT_String | CT_Unknown

type_synonym fuzz_item = "content_type \<times> bytes"

definition PLAINTEXT_KEY :: bytes where
  "PLAINTEXT_KEY = replicate 32 0x02"

definition PLAINTEXT_NONCE :: bytes where
  "PLAINTEXT_NONCE = replicate 12 0x01"

section \<open>The Rust arm\<close>

definition rust_decode :: "bytes \<Rightarrow> decoded arm" where
  "rust_decode bs =
     andThen (as_ok (decode_v1 bs)) (\<lambda>(paths, secrets, encryption, nonce, ciphertext).
     if encryption \<noteq> u8_of_encryption ChaCha20Poly1305 then Err ()
     else Ok \<lparr>dc_paths = map to_u32_vec paths, dc_secrets = secrets, dc_nonce = nonce, dc_ciphertext = ciphertext\<rparr>)"

fun rust_content_type :: "content \<Rightarrow> content_type arm" where
  "rust_content_type Content_Bip138 = Ok (CT_Bip 138)"
| "rust_content_type Content_Bip139 = Ok (CT_Bip 139)"
| "rust_content_type Content_Bip380 = Ok (CT_Bip 380)"
| "rust_content_type Content_Bip388 = Ok (CT_Bip 388)"
| "rust_content_type Content_Bip329 = Ok (CT_Bip 329)"
| "rust_content_type (Content_BIP n) = Ok (CT_Bip n)"
| "rust_content_type (Content_Proprietary tag) = Ok (CT_Proprietary tag)"
| "rust_content_type Content_String = Ok CT_String"
| "rust_content_type Content_Unknown = Ok CT_Unknown"
| "rust_content_type Content_None = Panic"

definition rust_items :: "item list \<Rightarrow> fuzz_item list arm" where
  "rust_items items =
     andThen (collect_results (\<lambda>(content, data). andThen (rust_content_type content) (\<lambda>t. Ok (t, data))) items)
       (\<lambda>its. Ok (filter (\<lambda>(ctype, _). ctype \<noteq> CT_Unknown) its))"

definition rust_decrypt_items :: "crypto \<Rightarrow> bytes \<Rightarrow> bytes \<Rightarrow> fuzz_item list arm" where
  "rust_decrypt_items C bs key =
     andThen (as_ok (decode_v1 bs)) (\<lambda>(paths, secrets, enc, nonce, ciphertext).
     andThen (as_ok (decrypt_chacha20_poly1305_v1 C key secrets ciphertext nonce)) rust_items)"

definition rust_reencode :: "decoded \<Rightarrow> bytes arm" where
  "rust_reencode d =
     andThen (as_ok (encode_derivation_paths (map DerivationPath (dc_paths d)))) (\<lambda>paths.
     andThen (as_ok (encode_individual_secrets (dc_secrets d))) (\<lambda>secrets.
     andThen (as_ok (encode_encrypted_payload (dc_nonce d) (dc_ciphertext d))) (\<lambda>payload.
     Ok (encode_v1 (u8_of_version V1) paths secrets (u8_of_encryption ChaCha20Poly1305) payload))))"

definition rust_wrap_plaintext :: "crypto \<Rightarrow> bytes \<Rightarrow> bytes arm" where
  "rust_wrap_plaintext C plaintext =
     (let ks = [PLAINTEXT_KEY];
          secret = decryption_secret C ks in
      andThen (as_ok (individual_secrets C secret ks)) (\<lambda>secrets.
      andThen (as_ok (encrypt_with_nonce C secret plaintext PLAINTEXT_NONCE)) (\<lambda>(nonce, ciphertext).
      andThen (as_ok (encode_derivation_paths [])) (\<lambda>paths.
      andThen (as_ok (encode_individual_secrets secrets)) (\<lambda>secrets.
      andThen (as_ok (encode_encrypted_payload nonce ciphertext)) (\<lambda>payload.
      Ok (encode_v1 (u8_of_version V1) paths secrets (u8_of_encryption ChaCha20Poly1305) payload)))))))"

section \<open>The encode target\<close>

text \<open>\<open>unwrap_or_default\<close>, \<open>unwrap\<close>, and \<open>if let Ok(x) = r { x } else { return }\<close>.\<close>

fun unwrap_or :: "'a \<Rightarrow> ('e, 'a) outcome \<Rightarrow> 'a arm" where
  "unwrap_or d (Ok x) = Ok x"
| "unwrap_or d (Err e) = Ok d"
| "unwrap_or d Panic = Panic"
| "unwrap_or d Diverges = Diverges"

fun unwrap_ok :: "('e, 'a) outcome \<Rightarrow> 'a arm" where
  "unwrap_ok (Ok x) = Ok x"
| "unwrap_ok (Err e) = Panic"
| "unwrap_ok Panic = Panic"
| "unwrap_ok Diverges = Diverges"

fun or_return :: "('e, 'a) outcome \<Rightarrow> ('a \<Rightarrow> unit arm) \<Rightarrow> unit arm" where
  "or_return (Ok x) f = f x"
| "or_return (Err e) f = Ok ()"
| "or_return Panic f = Panic"
| "or_return Diverges f = Diverges"

definition target_version :: "bytes \<Rightarrow> (nat \<times> version) arm" where
  "target_version bs =
     (if bs = [] then Ok (1, VersionUnknown) else andThen (index_at bs 0) (\<lambda>b. Ok (1, version_of_u8 b)))"

definition target_content :: "bytes \<Rightarrow> (nat \<times> content) arm" where
  "target_content bs = (if bs = [] then Ok (1, Content_Unknown) else unwrap_or (1, Content_Unknown) (parse_content bs))"

definition target_encryption :: "bytes \<Rightarrow> (nat \<times> encryption) arm" where
  "target_encryption bs =
     (if bs = [] then Ok (1, EncryptionUnknown) else andThen (index_at bs 0) (\<lambda>b. Ok (1, encryption_of_u8 b)))"

definition encode_target :: "bytes \<Rightarrow> unit arm" where
  "encode_target bs =
     (if length bs < 5 then Ok ()
      else
        andThen (target_version bs) (\<lambda>(offset, version).
        if version \<noteq> V1 then Ok ()
        else
          andThen (slice_from bs offset) (\<lambda>tail.
          andThen (unwrap_or (0, []) (parse_derivation_paths tail)) (\<lambda>(incr, deriv).
          or_return (increment_offset bs offset incr) (\<lambda>offset.
          andThen (slice_from bs offset) (\<lambda>tail.
          andThen (unwrap_or (0, []) (parse_individual_secrets tail)) (\<lambda>(incr, secrets).
          or_return (increment_offset bs offset incr) (\<lambda>offset.
          andThen (slice_from bs offset) (\<lambda>tail.
          andThen (target_content tail) (\<lambda>(incr, content).
          or_return (increment_offset bs offset incr) (\<lambda>offset.
          andThen (slice_from bs offset) (\<lambda>tail.
          andThen (target_encryption tail) (\<lambda>(incr, encryption).
          if \<not> encryption_is_defined encryption then Ok ()
          else
            or_return (increment_offset bs offset incr) (\<lambda>_.
            andThen (unwrap_ok (encode_derivation_paths deriv)) (\<lambda>deriv.
            or_return (encode_individual_secrets secrets) (\<lambda>secrets.
            andThen (unwrap_ok (encode_encrypted_payload (replicate 12 1) [48])) (\<lambda>payload.
            andThen (unwrap_ok (decode_v1
              (encode_v1 (u8_of_version version) deriv secrets (u8_of_encryption encryption) payload))) (\<lambda>_.
            Ok ()))))))))))))))))))"

section \<open>The Rust arm never panics\<close>

fun type_of_content :: "content \<Rightarrow> content_type" where
  "type_of_content Content_Bip138 = CT_Bip 138"
| "type_of_content Content_Bip139 = CT_Bip 139"
| "type_of_content Content_Bip380 = CT_Bip 380"
| "type_of_content Content_Bip388 = CT_Bip 388"
| "type_of_content Content_Bip329 = CT_Bip 329"
| "type_of_content (Content_BIP n) = CT_Bip n"
| "type_of_content (Content_Proprietary tag) = CT_Proprietary tag"
| "type_of_content Content_String = CT_String"
| "type_of_content _ = CT_Unknown"

text \<open>The items of a payload as the arms compare them: unknown ones dropped.\<close>

definition known_items :: "item list \<Rightarrow> fuzz_item list" where
  "known_items items = filter (\<lambda>(t, _). t \<noteq> CT_Unknown) (map (\<lambda>(c, d). (type_of_content c, d)) items)"

lemma rust_content_type_eq: "c \<noteq> Content_None \<Longrightarrow> rust_content_type c = Ok (type_of_content c)"
  by (cases c) simp_all

lemma rust_items_eq:
  assumes "Content_None \<notin> fst ` set items"
  shows "rust_items items = Ok (known_items items)"
proof -
  have "collect_results (\<lambda>(content, data). andThen (rust_content_type content) (\<lambda>t. Ok (t, data))) items =
      (Ok (map (\<lambda>(c, d). (type_of_content c, d)) items) :: fuzz_item list arm)"
  proof (rule collect_results_Ok_map)
    fix it
    assume "it \<in> set items"
    with assms have "fst it \<noteq> Content_None" by (metis imageI)
    then show "(case it of (content, data) \<Rightarrow> andThen (rust_content_type content) (\<lambda>t. Ok (t, data))) =
        (Ok (case it of (c, d) \<Rightarrow> (type_of_content c, d)) :: fuzz_item arm)"
      by (cases it) (simp add: rust_content_type_eq)
  qed
  then show ?thesis by (simp add: rust_items_def known_items_def)
qed

lemma parse_content_not_None: "parse_content bs = Ok (n, c) \<Longrightarrow> c \<noteq> Content_None"
  by (auto simp: parse_content_def content_of_bip_def outcome_simps split: if_splits)

lemma payload_items_not_None: "payload_items bs items \<Longrightarrow> Content_None \<notin> fst ` set items"
  by (induction rule: payload_items.induct) (auto dest: parse_content_not_None)

lemma decode_plaintext_items:
  "rust_slice bs \<Longrightarrow> decode_plaintext bs = Ok items \<Longrightarrow> rust_items items = Ok (known_items items)"
  by (rule rust_items_eq) (auto simp: decode_plaintext_grammar dest: payload_items_not_None)

lemma rust_decode_Ok:
  "rust_decode bs = Ok d \<longleftrightarrow>
     (\<exists>ps. decode_v1 bs = Ok (ps, dc_secrets d, 1, dc_nonce d, dc_ciphertext d) \<and> dc_paths d = map to_u32_vec ps)"
  by (cases d) (auto simp: rust_decode_def outcome_simps)

lemma rust_decode_returns: "rust_slice bs \<Longrightarrow> rust_decode bs \<noteq> Panic \<and> rust_decode bs \<noteq> Diverges"
  using decode_v1_safe by (auto simp: rust_decode_def outcome_simps)

lemma rust_decrypt_items_returns:
  assumes "rust_slice bs" "\<And>k n c p. aead_decrypt C k n c = Some p \<Longrightarrow> rust_slice p"
  shows "rust_decrypt_items C bs key \<noteq> Panic \<and> rust_decrypt_items C bs key \<noteq> Diverges"
proof -
  have "rust_items items = Ok (known_items items)" if "decrypt_chacha20_poly1305_v1 C key ss c nonce = Ok items"
    for items ss c nonce
  proof (cases "opens C key ss c nonce")
    case (Cons p qs)
    then have "rust_slice p" using assms(2) opens_mem [of p C key ss c nonce] by auto
    with Cons that show ?thesis using decode_plaintext_items by (simp add: decrypt_eq)
  qed (use that in \<open>simp add: decrypt_eq\<close>)
  then show ?thesis
    using decode_v1_safe [OF assms(1)] decrypt_safe [OF assms(2)]
    by (auto simp: rust_decrypt_items_def outcome_simps)
qed

section \<open>Encoding what was decoded\<close>

lemma sum_distinct_le:
  fixes f :: "'a \<Rightarrow> nat"
  assumes "distinct xs" "set xs \<subseteq> set ys"
  shows "sum_list (map f xs) \<le> sum_list (map f ys)"
proof -
  have "sum_list (map f xs) = sum f (set xs)" using assms(1) by (simp add: sum_list_distinct_conv_sum_set)
  also have "\<dots> \<le> sum f (set ys)" using assms(2) by (intro sum_mono2) auto
  also have "\<dots> \<le> sum_list (map f ys)"
    by (induction ys) (auto simp: sum.insert_if)
  finally show ?thesis .
qed

lemma parsed_paths_shrink:
  assumes "rust_slice bs" "parse_derivation_paths bs = Ok (n, ps)"
  shows "1 + length (concat (map path_enc ps)) \<le> n"
proof -
  from assms obtain c tail raw m where bs: "bs = c # tail"
    and d: "dec_many path_dec (unat c) tail = Some (raw, m)" and r: "n = 1 + m" "ps = btree_collect raw"
    by (auto simp: parse_derivation_paths_iff)
  have "length (concat (map path_enc ps)) \<le> length (concat (map path_enc raw))"
    unfolding length_concat r map_map by (rule sum_distinct_le) (simp_all add: sorted_wrt_less_distinct)
  also have "\<dots> = m" using pathc.dec_many_canonical [OF d] by blast
  finally show ?thesis by (simp add: r)
qed

lemma parsed_secrets_shrink:
  assumes "rust_slice bs" "parse_individual_secrets bs = Ok (n, ss)"
  shows "1 + length (concat ss) \<le> n"
proof -
  from assms obtain c tail raw m where bs: "bs = c # tail"
    and d: "dec_many secret_dec (unat c) tail = Some (raw, m)" and r: "n = 1 + m" "ss = btree_collect raw"
    by (auto simp: parse_individual_secrets_iff)
  have "length (concat ss) \<le> length (concat raw)"
    unfolding length_concat r by (rule sum_distinct_le) (simp_all add: sorted_wrt_less_distinct)
  also have "\<dots> = m" using secretc.dec_many_canonical [OF d] by simp
  finally show ?thesis by (simp add: r)
qed

text \<open>The envelope a decoder accepts, written again: no longer, and it decodes to the same.\<close>

lemma decoded_encodes:
  assumes len: "rust_slice bs" and d: "decode_v1 bs = Ok (ps, ss, e, nonce, c)" and c: "c \<noteq> []"
  shows "\<exists>dp sec. encode_derivation_paths ps = Ok dp \<and> encode_individual_secrets ss = Ok sec \<and>
    encode_encrypted_payload nonce c = Ok (payload_enc (nonce, c)) \<and>
    length (encode_v1 1 dp sec e (payload_enc (nonce, c))) \<le> length bs"
proof -
  from decode_v1_normal [OF len d] have n: "paths_normal ps" "secrets_normal ss" by auto
  from d decode_v1_iff [OF len] obtain n k where h: "v1_header bs (n, ps, ss, e)"
    and p: "payload_dec (drop n bs) = Some ((nonce, c), k)" by blast
  from h obtain t1 n1 n2 t3 where bs: "bs = MAGIC @ 1 # t1" and pp: "parse_derivation_paths t1 = Ok (n1, ps)"
    and sp: "parse_individual_secrets (drop n1 t1) = Ok (n2, ss)" and nn: "n = 8 + n1 + n2"
    unfolding v1_header_def by blast
  have l1: "rust_slice t1" using len by (simp add: bs rust_slice_def)
  have "length (payload_enc (nonce, c)) \<le> length (drop n bs)"
    using payloadc.dec_split [OF p] by (metis length_append le_add1)
  then have "n + length (payload_enc (nonce, c)) \<le> length bs" using v1_header_bound [OF h] by simp
  moreover have "1 + length (concat (map path_enc ps)) \<le> n1" by (rule parsed_paths_shrink [OF l1 pp])
  moreover have "1 + length (concat ss) \<le> n2" by (rule parsed_secrets_shrink [OF rust_slice_drop [OF l1] sp])
  ultimately have "length (encode_v1 1 (word_of_nat (length ps) # concat (map path_enc ps))
      (word_of_nat (length ss) # concat ss) e (payload_enc (nonce, c))) \<le> length bs"
    by (simp add: encode_v1_def nn)
  then show ?thesis
    using encode_paths_normal [OF n(1)] encode_secrets_normal [OF n(2)] c by (simp add: encode_encrypted_payload_Ok)
qed

section \<open>A wrapped plaintext\<close>

text \<open>What the wrapped plaintext decrypts to is what the payload decoder makes of it.\<close>

lemma wrapped_plaintext_eq:
  assumes "sha256_sized C" "aead_correct C" "rust_wrap_plaintext C plaintext = Ok blob" "rust_slice blob"
  shows "rust_decrypt_items C blob PLAINTEXT_KEY =
    (case decode_plaintext plaintext of Ok items \<Rightarrow> Ok (known_items items) | _ \<Rightarrow> Err ())"
proof -
  let ?s = "decryption_secret C [PLAINTEXT_KEY]"
  let ?ci = "xor_bytes ?s (tagged_hash C INDIVIDUAL_SECRET PLAINTEXT_KEY)"
  have nonce: "length PLAINTEXT_NONCE = 12" "PLAINTEXT_NONCE \<noteq> ZERO_NONCE"
    by (simp_all add: PLAINTEXT_NONCE_def ZERO_NONCE_def)
  from assms(3) obtain sec ep c where si: "individual_secrets C ?s [PLAINTEXT_KEY] = Ok [?ci]"
    and c: "aead_encrypt C ?s PLAINTEXT_NONCE plaintext = Some c"
    and sec: "encode_individual_secrets [?ci] = Ok sec" and ep: "encode_encrypted_payload PLAINTEXT_NONCE c = Ok ep"
    and blob: "blob = encode_v1 1 [0] sec 1 ep"
    by (auto simp: rust_wrap_plaintext_def outcome_simps encrypt_with_nonce_Ok individual_secrets_Ok Let_def
        encode_derivation_paths_Ok sort_dedup_Nil)
  have dp: "encode_derivation_paths [] = Ok [0]" by (simp add: encode_derivation_paths_Ok sort_dedup_Nil)
  have "decode_v1 (encode_v1 1 [0] sec 1 ep @ []) = Ok (sort_dedup [], sort_dedup [?ci], 1, PLAINTEXT_NONCE, c)"
    by (rule decode_encode_v1 [OF dp sec _ _ ep nonce]) (use assms(4) in \<open>simp_all add: blob secret_ok_def\<close>)
  then have d: "decode_v1 blob = Ok ([], [?ci], 1, PLAINTEXT_NONCE, c)"
    by (simp add: blob sort_dedup_Nil sort_dedup_single)
  have l: "length ?s = 32" by (rule length_decryption_secret [OF assms(1)])
  have "xor_bytes (tagged_hash C INDIVIDUAL_SECRET PLAINTEXT_KEY) ?ci = ?s" by (rule xor_bytes_cancel [OF l])
  moreover have o: "aead_decrypt C ?s PLAINTEXT_NONCE c = Some plaintext" "length c = length plaintext + 16"
    using assms(2) c l nonce(1) unfolding aead_correct_def by metis+
  ultimately have "decrypt_chacha20_poly1305_v1 C PLAINTEXT_KEY [?ci] c PLAINTEXT_NONCE = decode_plaintext plaintext"
    by (simp add: decrypt_eq opens_def map_filter_simps)
  moreover have p: "rust_slice plaintext"
    using decode_v1_cipher_bound [OF assms(4) d] o(2) assms(4) by (simp add: rust_slice_def)
  ultimately show ?thesis
    using decode_plaintext_items [OF p] decode_plaintext_safe [OF p]
    by (simp add: rust_decrypt_items_def d split: outcome.split)
qed

section \<open>The encode target passes\<close>

lemma or_return_pass: "r \<noteq> Panic \<Longrightarrow> r \<noteq> Diverges \<Longrightarrow> (\<And>x. r = Ok x \<Longrightarrow> f x = Ok ()) \<Longrightarrow> or_return r f = Ok ()"
  by (cases r) auto

lemma unwrap_or_pass:
  "r \<noteq> Panic \<Longrightarrow> r \<noteq> Diverges \<Longrightarrow> \<exists>x. unwrap_or d r = Ok x \<and> (r = Ok x \<or> x = d)"
  by (cases r) auto

lemma increment_offset_pass:
  "rust_slice bs \<Longrightarrow> offset \<le> length bs \<Longrightarrow> incr \<le> length bs \<Longrightarrow>
   (\<And>x. x < length bs \<Longrightarrow> f x = Ok ()) \<Longrightarrow> or_return (increment_offset bs offset incr) f = Ok ()"
  by (rule or_return_pass)
    (auto simp: increment_offset_def outcome_simps rust_slice_def isize_MAX_def usize_MAX_def)

text \<open>What the target writes and reads at its end.\<close>

lemma target_reads_back:
  assumes "paths_normal ps" "encode_individual_secrets ss = Ok sec" "list_all secret_ok ss" "e \<noteq> 0"
  shows "\<exists>dp ep r. encode_derivation_paths ps = Ok dp \<and> encode_encrypted_payload (replicate 12 1) [48] = Ok ep \<and>
    decode_v1 (encode_v1 1 dp sec e ep) = Ok r"
proof -
  let ?dp = "word_of_nat (length ps) # concat (map path_enc ps)" and ?ep = "payload_enc (replicate 12 1, [48])"
  have ep: "encode_encrypted_payload (replicate 12 1) [48] = Ok ?ep" by (simp add: encode_encrypted_payload_Ok)
  have b: "length (concat (map path_enc qs)) \<le> 1021 * length qs" if "list_all path_ok qs" for qs
    using that by (induction qs) (auto simp: length_path_enc path_ok_def)
  have s: "sec = word_of_nat (length (sort_dedup ss)) # concat (sort_dedup ss)" "length (sort_dedup ss) \<le> 255"
    using assms(2) by (auto simp: encode_individual_secrets_Ok)
  have "list_all secret_ok (sort_dedup ss)" using assms(3) by (simp add: list_all_iff)
  then have "length sec \<le> 1 + 32 * 255" using s by (simp add: length_concat_secrets)
  moreover have "length ?dp \<le> 1 + 1021 * 255" using assms(1) b [of ps] by (simp add: paths_normal_def)
  moreover have "length ?ep \<le> 100"
    using length_varint_encode_bounds [of 1] by (simp add: payload_enc_def)
  ultimately have l: "rust_slice (encode_v1 1 ?dp sec e ?ep @ [])"
    by (simp add: encode_v1_def rust_slice_def isize_MAX_def)
  have "decode_v1 (encode_v1 1 ?dp sec e ?ep @ []) = Ok (sort_dedup ps, sort_dedup ss, e, replicate 12 1, [48])"
    by (rule decode_encode_v1 [OF encode_paths_normal [OF assms(1)] assms(2-4) ep _ _ l])
      (simp_all add: ZERO_NONCE_def)
  then show ?thesis using encode_paths_normal [OF assms(1)] ep by auto
qed

lemma target_tail_passes:
  assumes "paths_normal ps" "list_all secret_ok ss" "encryption_is_defined e"
  shows "andThen (unwrap_ok (encode_derivation_paths ps)) (\<lambda>deriv.
      or_return (encode_individual_secrets ss) (\<lambda>secrets.
      andThen (unwrap_ok (encode_encrypted_payload (replicate 12 1) [48])) (\<lambda>payload.
      andThen (unwrap_ok (decode_v1 (encode_v1 (u8_of_version V1) deriv secrets (u8_of_encryption e) payload))) (\<lambda>_.
      Ok ())))) = Ok ()"
proof (cases "encode_individual_secrets ss")
  case (Ok sec)
  have "u8_of_encryption e \<noteq> 0" using assms(3) by (cases e) auto
  from target_reads_back [OF assms(1) Ok assms(2) this] Ok show ?thesis by auto
next
  case (Err x)
  with encode_paths_normal [OF assms(1)] show ?thesis by simp
qed (auto simp: encode_individual_secrets_def Let_def split: if_splits)

text \<open>The steps of the target, each on a suffix of the input.\<close>

lemma slice_step: "k < length bs \<Longrightarrow> f (drop k bs) = Ok () \<Longrightarrow> andThen (slice_from bs k) f = Ok ()"
  by (simp add: slice_from_def)

lemma paths_step:
  assumes len: "rust_slice bs" and "\<And>n ps. n \<le> length bs \<Longrightarrow> paths_normal ps \<Longrightarrow> f (n, ps) = Ok ()"
  shows "andThen (unwrap_or (0, []) (parse_derivation_paths (drop k bs))) f = Ok ()"
proof -
  have "\<exists>n ps. unwrap_or (0, []) (parse_derivation_paths (drop k bs)) = Ok (n, ps) \<and> n \<le> length bs \<and> paths_normal ps"
    using parse_derivation_paths_safe [OF rust_slice_drop [OF len]] unwrap_or_pass [of "parse_derivation_paths (drop k bs)" "(0, [])"]
      parse_derivation_paths_normal [OF rust_slice_drop [OF len], of k]
    by (fastforce simp: paths_normal_def)
  with assms(2) show ?thesis by force
qed

lemma secrets_step:
  assumes len: "rust_slice bs" and "\<And>n ss. n \<le> length bs \<Longrightarrow> list_all secret_ok ss \<Longrightarrow> f (n, ss) = Ok ()"
  shows "andThen (unwrap_or (0, []) (parse_individual_secrets (drop k bs))) f = Ok ()"
proof -
  have "\<exists>n ss. unwrap_or (0, []) (parse_individual_secrets (drop k bs)) = Ok (n, ss) \<and> n \<le> length bs \<and> list_all secret_ok ss"
    using parse_individual_secrets_safe [OF rust_slice_drop [OF len]] unwrap_or_pass [of "parse_individual_secrets (drop k bs)" "(0, [])"]
      parse_individual_secrets_normal [OF rust_slice_drop [OF len], of k]
    by (fastforce simp: secrets_normal_def)
  with assms(2) show ?thesis by force
qed

lemma content_step:
  assumes len: "rust_slice bs" and five: "5 \<le> length bs" and "\<And>n c. n \<le> length bs \<Longrightarrow> f (n, c) = Ok ()"
  shows "andThen (target_content (drop k bs)) f = Ok ()"
proof -
  have "\<exists>n c. target_content (drop k bs) = Ok (n, c) \<and> n \<le> length bs"
    using five parse_content_not_Panic [OF rust_slice_drop [OF len], of k]
      unwrap_or_pass [of "parse_content (drop k bs)" "(1, Content_Unknown)"]
    by (fastforce simp: target_content_def dest: parse_content_Ok_bounds)
  with assms(3) show ?thesis by force
qed

lemma encryption_step:
  assumes "\<And>e. f (1, e) = Ok ()"
  shows "andThen (target_encryption (drop k bs)) f = Ok ()"
  using assms by (cases "drop k bs") (simp_all add: target_encryption_def index_at_def)

section \<open>Properties\<close>

text \<open>
  C28. The Rust arm writes back what it reads. From every slice it decodes to a container with a
  ciphertext, its encoders produce a container that is not longer than the slice and decodes to the same
  fields.
\<close>

theorem rust_arm_reencodes:
  assumes "rust_slice bs" "rust_decode bs = Ok d" "dc_ciphertext d \<noteq> []"
  shows "\<exists>out. rust_reencode d = Ok out \<and> length out \<le> length bs \<and> rust_decode out = Ok d"
proof -
  from assms(2) obtain ps where v: "decode_v1 bs = Ok (ps, dc_secrets d, 1, dc_nonce d, dc_ciphertext d)"
    and ps: "dc_paths d = map to_u32_vec ps" by (auto simp: rust_decode_Ok)
  from decode_v1_normal [OF assms(1) v] have n: "paths_normal ps" "secrets_normal (dc_secrets d)"
    and nonce: "length (dc_nonce d) = 12" "dc_nonce d \<noteq> ZERO_NONCE" by (auto simp: payload_ok_def)
  have p: "map DerivationPath (dc_paths d) = ps" by (simp add: ps comp_def)
  from decoded_encodes [OF assms(1) v assms(3)] obtain dp sec where
    dp: "encode_derivation_paths ps = Ok dp" and sec: "encode_individual_secrets (dc_secrets d) = Ok sec"
    and ep: "encode_encrypted_payload (dc_nonce d) (dc_ciphertext d) = Ok (payload_enc (dc_nonce d, dc_ciphertext d))"
    and l: "length (encode_v1 1 dp sec 1 (payload_enc (dc_nonce d, dc_ciphertext d))) \<le> length bs" by blast
  let ?out = "encode_v1 1 dp sec 1 (payload_enc (dc_nonce d, dc_ciphertext d))"
  have "rust_slice (?out @ [])" using l assms(1) by (simp add: rust_slice_def)
  from decode_encode_v1 [OF dp sec _ _ ep nonce this] n have
    "decode_v1 ?out = Ok (ps, dc_secrets d, 1, dc_nonce d, dc_ciphertext d)"
    by (simp add: paths_normal_def secrets_normal_def sort_dedup_idem)
  then have "rust_decode ?out = Ok d" using ps by (auto simp: rust_decode_Ok)
  moreover have "rust_reencode d = Ok ?out" by (simp add: rust_reencode_def p dp sec ep)
  ultimately show ?thesis using l by blast
qed

theorem rust_arm_reencodes_witness:
  "\<exists>d out. rust_decode small_envelope = Ok d \<and> rust_reencode d = Ok out \<and> rust_decode out = Ok d \<and>
     dc_ciphertext d = [9]"
proof -
  have s: "rust_slice small_envelope" using small_envelope_slice [of "[]"] by simp
  have "\<exists>d. rust_decode small_envelope = Ok d \<and> dc_ciphertext d = [9]"
    using small_envelope_decodes [of "[]"] by (simp add: rust_decode_def)
  with rust_arm_reencodes [OF s] show ?thesis by fastforce
qed

text \<open>
  C27. The encode target passes on every input: whatever it parses from the bytes as version, paths,
  secrets, content type and encryption, what it encodes of them decodes, and no \<open>unwrap\<close> of it fails.
\<close>

theorem encode_target_passes:
  assumes len: "rust_slice bs"
  shows "encode_target bs = Ok ()"
proof (cases "length bs < 5 \<or> version_of_u8 (bs ! 0) \<noteq> V1")
  case False
  then have five: "5 \<le> length bs" "1 < length bs" and v: "target_version bs = Ok (1, V1)"
    by (auto simp: target_version_def index_at_def)
  note step = increment_offset_pass [OF len less_imp_le]
  show ?thesis
    unfolding encode_target_def v using five
    apply simp
    apply (intro slice_step paths_step [OF len], simp, simp only: prod.case)
    apply (intro step slice_step secrets_step [OF len]; simp only: prod.case)
    apply (intro step slice_step content_step [OF len]; simp only: prod.case)
    apply (intro step slice_step encryption_step; simp only: prod.case)
    apply (simp only: split: if_split)
    apply (intro conjI impI refl step target_tail_passes; simp)
    done
qed (auto simp: encode_target_def target_version_def index_at_def)

theorem encode_target_passes_witness:
  "encode_target [1, 0, 1, 7, 7, 7] = Ok () \<and> encode_target (MAGIC @ [1]) = Ok ()"
  using encode_target_passes [of "[1, 0, 1, 7, 7, 7]"] encode_target_passes [of "MAGIC @ [1]"]
  by (simp add: rust_slice_def isize_MAX_def)

end
