(* ===== verification/Fuzz_Arms.thy ===== *)
theory Fuzz_Arms
  imports Fuzz_Rust Ffi
begin

text \<open>
  The C and the C++ side of the fuzz crate (\<open>fuzz/src/c_impl.rs\<close>, \<open>fuzz/src/cpp_impl.rs\<close>): how it calls
  two other implementations of the format, which are not in the repository. Their functions are fields
  of \<open>c_library\<close> and \<open>cpp_library\<close>; a function that fills a buffer takes it and returns it filled. A
  pointer is the bytes that can be read from it, and reading past them, which is undefined in the code,
  is a panic.
\<close>

section \<open>What the arms share\<close>

text \<open>A content type and an item with their representation for C (\<open>fuzz/src/lib.rs\<close>).\<close>

record encode_content =
  ec_content :: content
  ec_ctype :: u8
  ec_bip :: u16
  ec_tag :: bytes

record encode_item =
  ei_content :: encode_content
  ei_data :: bytes

definition raw_parts :: "'a list \<Rightarrow> nat \<Rightarrow> 'a list arm" where
  "raw_parts p n = (if n \<le> length p then Ok (take n p) else Panic)"

definition vec_truncate :: "nat \<Rightarrow> 'a list \<Rightarrow> 'a list" where
  "vec_truncate n v = take n v"

section \<open>The C library\<close>

definition C_OK :: int where "C_OK = 0"
definition C_MAGIC :: bytes where "C_MAGIC = ascii ''BIP138''"
definition C_VERSION :: u8 where "C_VERSION = 1"
definition C_ENCRYPTION_CHACHA20_POLY1305 :: u8 where "C_ENCRYPTION_CHACHA20_POLY1305 = 1"
definition C_CONTENT_BIP :: u8 where "C_CONTENT_BIP = 1"
definition C_CONTENT_PROPRIETARY :: u8 where "C_CONTENT_PROPRIETARY = 2"
definition C_CONTENT_STRING :: u8 where "C_CONTENT_STRING = 3"

record c_container =
  ct_paths :: bytes
  ct_paths_len :: nat
  ct_path_count :: u8
  ct_secrets :: bytes
  ct_secret_count :: u8
  ct_nonce :: bytes
  ct_ciphertext :: bytes
  ct_ciphertext_len :: nat

record c_path =
  pa_child :: "u32 list"
  pa_depth :: u8

record c_content =
  cn_type :: u8
  cn_bip :: u16
  cn_tag :: "bytes option"
  cn_tag_len :: nat

record c_item =
  it_content :: c_content
  it_data :: bytes
  it_data_len :: nat

record c_item_iter =
  ii_buf :: bytes
  ii_len :: nat
  ii_pos :: nat

type_synonym 'a filled = "int \<times> 'a list \<times> nat"

record c_library =
  c_parse :: "bytes \<Rightarrow> int \<times> c_container"
  c_path_at :: "c_container \<Rightarrow> nat \<Rightarrow> u32 list \<Rightarrow> u32 filled"
  c_plaintext_max :: "c_container \<Rightarrow> nat"
  c_decrypt_with :: "c_container \<Rightarrow> bytes \<Rightarrow> nat \<Rightarrow> bytes \<Rightarrow> u8 filled"
  c_secret_bucket :: "nat \<Rightarrow> nat"
  c_item_iter_init :: "c_item_iter \<Rightarrow> bytes \<Rightarrow> nat \<Rightarrow> c_item_iter"
  c_item_next :: "c_item_iter \<Rightarrow> int \<times> c_item \<times> c_item_iter"
  c_plaintext_encode :: "c_item list \<Rightarrow> bool \<Rightarrow> bytes \<Rightarrow> u8 filled"
  c_content_parse :: "bytes \<Rightarrow> int \<times> c_content \<times> nat"
  c_content_encode :: "c_content \<Rightarrow> bytes \<Rightarrow> u8 filled"
  c_paths_encode :: "c_path list \<Rightarrow> bytes \<Rightarrow> u8 filled"
  c_secrets_encode :: "bytes \<Rightarrow> nat \<Rightarrow> bytes \<Rightarrow> u8 filled"
  c_varint_write :: "bytes \<Rightarrow> u64 \<Rightarrow> u8 filled"
  c_encrypt_ex :: "bytes \<Rightarrow> nat \<Rightarrow> c_path list option \<Rightarrow> nat \<Rightarrow> bytes \<Rightarrow> bytes option \<Rightarrow> nat \<Rightarrow> bytes \<Rightarrow> bytes \<Rightarrow> u8 filled"

section \<open>The C arm\<close>

definition c_decode :: "c_library \<Rightarrow> bytes \<Rightarrow> decoded arm" where
  "c_decode L bs =
     (let (rc, cont) = c_parse L bs in
      if rc \<noteq> C_OK then Err ()
      else
        (let secret_count = unat (ct_secret_count cont) in
         andThen (raw_parts (ct_secrets cont) (secret_count * 32)) (\<lambda>secrets_bytes.
         andThen (collect_results (\<lambda>i. slice_range secrets_bytes (i * 32) ((i + 1) * 32)) [0..<secret_count]) (\<lambda>secrets.
         andThen (raw_parts (ct_nonce cont) 12) (\<lambda>nonce.
         andThen (raw_parts (ct_ciphertext cont) (ct_ciphertext_len cont)) (\<lambda>ciphertext.
         andThen (collect_results (\<lambda>i.
             let (rc, child, depth) = c_path_at L cont i (replicate 256 0) in
             if rc \<noteq> C_OK then Err () else slice_range child 0 depth) [0..<unat (ct_path_count cont)]) (\<lambda>paths.
         Ok \<lparr>dc_paths = paths, dc_secrets = secrets, dc_nonce = nonce, dc_ciphertext = ciphertext\<rparr>)))))))"

definition c_decrypt :: "c_library \<Rightarrow> bytes \<Rightarrow> bytes \<Rightarrow> bytes arm" where
  "c_decrypt L bs key =
     (let (rc, cont) = c_parse L bs in
      if rc \<noteq> C_OK then Err ()
      else
        (let cap = c_plaintext_max L cont;
             (rc, plaintext, out_len) = c_decrypt_with L cont key 1 (replicate (max cap 1) 0) in
         if rc \<noteq> C_OK then Err () else Ok (vec_truncate out_len plaintext)))"

definition c_content_of :: "encode_content \<Rightarrow> c_content" where
  "c_content_of content =
     \<lparr>cn_type = ec_ctype content, cn_bip = ec_bip content,
      cn_tag = (if ec_tag content = [] then None else Some (ec_tag content)), cn_tag_len = length (ec_tag content)\<rparr>"

definition c_paths :: "u32 list list \<Rightarrow> c_path list" where
  "c_paths paths = map (\<lambda>p. \<lparr>pa_child = p, pa_depth = word_of_nat (length p)\<rparr>) paths"

definition c_encode ::
  "c_library \<Rightarrow> bytes list \<Rightarrow> u32 list list \<Rightarrow> encode_item list \<Rightarrow> bool \<Rightarrow> bytes \<Rightarrow> bytes list \<Rightarrow> bytes arm" where
  "c_encode L ks paths items geometric_pad nonce decoys =
     (let c_items = map (\<lambda>item. \<lparr>it_content = c_content_of (ei_content item), it_data = ei_data item,
            it_data_len = length (ei_data item)\<rparr>) items;
          (rc, payload, payload_len) = c_plaintext_encode L c_items geometric_pad (replicate (2 ^ 20) 0) in
      if rc \<noteq> C_OK then Err ()
      else
        (let payload = vec_truncate payload_len payload;
             flat_keys = concat ks;
             flat_decoys = concat decoys;
             paths = c_paths paths;
             (rc, out, out_len) = c_encrypt_ex L flat_keys (length ks) (if paths = [] then None else Some paths)
               (length paths) nonce (if flat_decoys = [] then None else Some flat_decoys) (length decoys) payload
               (replicate (length payload + 2 ^ 16) 0) in
         if rc \<noteq> C_OK then Err () else Ok (vec_truncate out_len out)))"

definition c_tag :: "c_content \<Rightarrow> bytes arm" where
  "c_tag content =
     (if cn_tag_len content = 0 then Ok []
      else (case cn_tag content of Some p \<Rightarrow> raw_parts p (cn_tag_len content) | None \<Rightarrow> Panic))"

definition c_content_type :: "c_content \<Rightarrow> content_type arm" where
  "c_content_type content =
     (if cn_type content = C_CONTENT_BIP then Ok (CT_Bip (cn_bip content))
      else if cn_type content = C_CONTENT_PROPRIETARY then andThen (c_tag content) (\<lambda>tag. Ok (CT_Proprietary tag))
      else if cn_type content = C_CONTENT_STRING then Ok CT_String
      else Ok CT_Unknown)"

definition c_parse_content :: "c_library \<Rightarrow> bytes \<Rightarrow> (nat \<times> content_type) arm" where
  "c_parse_content L bs =
     (let (rc, content, consumed) = c_content_parse L bs in
      if rc \<noteq> C_OK then Err () else andThen (c_content_type content) (\<lambda>t. Ok (consumed, t)))"

definition c_filled :: "u8 filled \<Rightarrow> bytes arm" where
  "c_filled r = (let (rc, out, out_len) = r in if rc \<noteq> C_OK then Err () else Ok (vec_truncate out_len out))"

definition c_encode_content :: "c_library \<Rightarrow> encode_content \<Rightarrow> bytes arm" where
  "c_encode_content L content =
     (let content = c_content_of content in
      c_filled (c_content_encode L content (replicate (1 + 9 + cn_tag_len content) 0)))"

definition c_encode_paths :: "c_library \<Rightarrow> u32 list list \<Rightarrow> bytes arm" where
  "c_encode_paths L paths =
     c_filled (c_paths_encode L (c_paths paths) (replicate (1 + (\<Sum>p\<leftarrow>paths. 1 + 4 * length p)) 0))"

definition c_encode_secrets :: "c_library \<Rightarrow> bytes list \<Rightarrow> bytes arm" where
  "c_encode_secrets L secrets =
     (let flat = concat secrets in c_filled (c_secrets_encode L flat (length secrets) (replicate (1 + length flat) 0)))"

definition c_reencode :: "c_library \<Rightarrow> decoded \<Rightarrow> bytes arm" where
  "c_reencode L d =
     andThen (c_encode_paths L (dc_paths d)) (\<lambda>paths.
     andThen (c_encode_secrets L (dc_secrets d)) (\<lambda>secrets.
     let (rc, len, written) = c_varint_write L (replicate 9 0) (word_of_nat (length (dc_ciphertext d))) in
     if rc \<noteq> C_OK then Err ()
     else
       andThen (slice_range len 0 written) (\<lambda>len.
       Ok (C_MAGIC @ [C_VERSION] @ paths @ secrets @ [C_ENCRYPTION_CHACHA20_POLY1305] @ dc_nonce d @ len @
         dc_ciphertext d))))"

fun c_items_body :: "c_library \<Rightarrow> c_item_iter \<times> fuzz_item list \<Rightarrow> ((c_item_iter \<times> fuzz_item list) + fuzz_item list) arm" where
  "c_items_body L (it, items) =
     (let (rc, item, it) = c_item_next L it in
      if rc < 0 then Err ()
      else if rc = 0 then Ok (Inr items)
      else
        andThen (c_content_type (it_content item)) (\<lambda>t.
        andThen (raw_parts (it_data item) (it_data_len item)) (\<lambda>data.
        Ok (Inl (it, items @ [(t, data)])))))"

definition c_decrypt_items :: "c_library \<Rightarrow> bytes \<Rightarrow> bytes \<Rightarrow> fuzz_item list arm" where
  "c_decrypt_items L bs key =
     andThen (c_decrypt L bs key) (\<lambda>payload.
     run_loop (c_items_body L) (c_item_iter_init L \<lparr>ii_buf = [], ii_len = 0, ii_pos = 0\<rparr> payload (length payload), []))"

section \<open>The C++ library\<close>

record cpp_decoded =
  cd_ok :: bool
  cd_paths :: "u32 list list"
  cd_secrets :: bytes
  cd_nonce :: bytes
  cd_ciphertext :: bytes

record cpp_content =
  cc_ok :: bool
  cc_known :: bool
  cc_type :: u8
  cc_bip :: u16
  cc_payload :: bytes
  cc_consumed :: nat

record cpp_library =
  cpp_decode :: "bytes \<Rightarrow> cpp_decoded"
  cpp_decrypt :: "bytes \<Rightarrow> bytes \<Rightarrow> bool \<times> bytes list"
  cpp_decode_content :: "bytes \<Rightarrow> cpp_content"
  cpp_decode_paths :: "bytes \<Rightarrow> bool \<times> u32 list list"
  cpp_decode_secrets :: "bytes \<Rightarrow> bool \<times> bytes"
  cpp_encode_content :: "u8 \<Rightarrow> u16 \<Rightarrow> bytes \<Rightarrow> bool \<times> bytes"
  cpp_encode_paths :: "u32 list list \<Rightarrow> bool \<times> bytes"
  cpp_encode_secrets :: "bytes \<Rightarrow> bool \<times> bytes"
  cpp_reencode :: "bytes \<Rightarrow> bool \<times> bytes"

section \<open>The C++ arm\<close>

definition cpp_arm_decode :: "cpp_library \<Rightarrow> bytes \<Rightarrow> decoded arm" where
  "cpp_arm_decode M bs =
     (let d = cpp_decode M bs in
      if \<not> cd_ok d then Err ()
      else if length (cd_nonce d) \<noteq> 12 then Panic
      else Ok \<lparr>dc_paths = cd_paths d, dc_secrets = chunks_exact 32 (cd_secrets d), dc_nonce = cd_nonce d,
        dc_ciphertext = cd_ciphertext d\<rparr>)"

definition cpp_arm_decrypt_data :: "cpp_library \<Rightarrow> bytes \<Rightarrow> bytes \<Rightarrow> bytes list arm" where
  "cpp_arm_decrypt_data M bs key = (let (ok, items) = cpp_decrypt M bs key in if \<not> ok then Err () else Ok items)"

definition cpp_arm_parse_content :: "cpp_library \<Rightarrow> bytes \<Rightarrow> (nat \<times> content_type) arm" where
  "cpp_arm_parse_content M bs =
     (let c = cpp_decode_content M bs in
      if \<not> cc_ok c then Err ()
      else
        andThen
          (if \<not> cc_known c then Ok CT_Unknown
           else if cc_type c = C_CONTENT_BIP then Ok (CT_Bip (cc_bip c))
           else if cc_type c = C_CONTENT_PROPRIETARY then Ok (CT_Proprietary (cc_payload c))
           else if cc_type c = C_CONTENT_STRING then Ok CT_String
           else Panic)
          (\<lambda>ctype. Ok (cc_consumed c, ctype)))"

definition cpp_arm_decode_paths :: "cpp_library \<Rightarrow> bytes \<Rightarrow> u32 list list arm" where
  "cpp_arm_decode_paths M bs = (let (ok, paths) = cpp_decode_paths M bs in if \<not> ok then Err () else Ok paths)"

definition cpp_arm_decode_secrets :: "cpp_library \<Rightarrow> bytes \<Rightarrow> bytes list arm" where
  "cpp_arm_decode_secrets M bs = (let (ok, s) = cpp_decode_secrets M bs in if \<not> ok then Err () else Ok (chunks_exact 32 s))"

definition cpp_bytes :: "bool \<times> bytes \<Rightarrow> bytes arm" where
  "cpp_bytes b = (if fst b then Ok (snd b) else Err ())"

definition cpp_arm_encode_content :: "cpp_library \<Rightarrow> encode_content \<Rightarrow> bytes arm" where
  "cpp_arm_encode_content M content = cpp_bytes (cpp_encode_content M (ec_ctype content) (ec_bip content) (ec_tag content))"

definition cpp_arm_encode_paths :: "cpp_library \<Rightarrow> u32 list list \<Rightarrow> bytes arm" where
  "cpp_arm_encode_paths M paths = cpp_bytes (cpp_encode_paths M paths)"

definition cpp_arm_encode_secrets :: "cpp_library \<Rightarrow> bytes list \<Rightarrow> bytes arm" where
  "cpp_arm_encode_secrets M secrets = cpp_bytes (cpp_encode_secrets M (concat secrets))"

definition cpp_arm_reencode :: "cpp_library \<Rightarrow> bytes \<Rightarrow> bytes arm" where
  "cpp_arm_reencode M bs = cpp_bytes (cpp_reencode M bs)"

end
