(* ===== verification/Fuzz_Oracles.thy ===== *)
theory Fuzz_Oracles
  imports Fuzz_Arms Sample Text
begin

text \<open>
  The differential targets of the fuzz crate (\<open>fuzz/src/lib.rs\<close>): how an input is normalised, and the
  comparisons of the arms, which panic on a divergence. Shown: normalising always ends, decoys included;
  what Rust encrypts of a normalised input it reads back; and what a run without a panic says of the
  other implementations.
\<close>

unbundle bit_operations_syntax

section \<open>Inputs\<close>

datatype content_choice = Choice_Bip u16 | Choice_Proprietary bytes | Choice_Str bytes

record item_choice =
  ic_content :: content_choice
  ic_data :: bytes

record encode_input =
  inp_keys :: "bytes list"
  inp_paths :: "u32 list list"
  inp_items :: "item_choice list"
  inp_nonce :: bytes
  inp_geometric_pad :: bool
  inp_decoy_seed :: u64

record normalized =
  nm_keys :: "bytes list"
  nm_paths :: "u32 list list"
  nm_items :: "encode_item list"
  nm_nonce :: bytes
  nm_geometric_pad :: bool
  nm_decoys :: "bytes list"

fun encode_content_from :: "content_choice \<Rightarrow> encode_content" where
  "encode_content_from (Choice_Bip n) =
     \<lparr>ec_content = Content_BIP n, ec_ctype = C_CONTENT_BIP, ec_bip = n, ec_tag = []\<rparr>"
| "encode_content_from (Choice_Proprietary tag) =
     (let tag = vec_truncate 64 tag in
      \<lparr>ec_content = Content_Proprietary tag, ec_ctype = C_CONTENT_PROPRIETARY, ec_bip = 0, ec_tag = tag\<rparr>)"
| "encode_content_from (Choice_Str s) =
     \<lparr>ec_content = Content_String, ec_ctype = C_CONTENT_STRING, ec_bip = 0, ec_tag = []\<rparr>"

definition cap :: "bytes \<Rightarrow> bytes" where
  "cap v = vec_truncate 4096 v"

definition encode_item_from :: "item_choice \<Rightarrow> encode_item" where
  "encode_item_from item =
     (let data_of = (case ic_content item of Choice_Str s \<Rightarrow> cap s | _ \<Rightarrow> cap (ic_data item)) in
      \<lparr>ei_content = encode_content_from (ic_content item), ei_data = data_of\<rparr>)"

text \<open>The keys that are not the NUMS point, each where it comes first.\<close>

fun fresh_keys :: "bytes list \<Rightarrow> bytes list \<Rightarrow> bytes list" where
  "fresh_keys seen [] = []"
| "fresh_keys seen (k # ks) =
     (if k \<noteq> NUMS_XONLY \<and> k \<notin> set seen then k # fresh_keys (k # seen) ks else fresh_keys seen ks)"

text \<open>The generator of the decoys: 32 bytes, each the top byte of the next state.\<close>

definition lcg :: "u64 \<Rightarrow> u64" where
  "lcg state = state * 6364136223846793005 + 1442695040888963407"

fun lcg_bytes :: "nat \<Rightarrow> u64 \<Rightarrow> bytes \<times> u64" where
  "lcg_bytes 0 state = ([], state)"
| "lcg_bytes (Suc n) state =
     (let state = lcg state; (d, state') = lcg_bytes n state in (ucast (drop_bit 56 state) # d, state'))"

fun decoys_body :: "nat \<Rightarrow> u64 \<times> bytes list \<Rightarrow> ((u64 \<times> bytes list) + bytes list) arm" where
  "decoys_body need (state, decoys) =
     (if length decoys < need then
        (let (d, state) = lcg_bytes 32 state in
         Ok (Inl (state, if d \<noteq> ZERO_SECRET then btree_insert d decoys else decoys)))
      else Ok (Inr decoys))"

definition normalize :: "c_library \<Rightarrow> encode_input \<Rightarrow> normalized arm" where
  "normalize L input =
     (let ks = take 8 (fresh_keys [] (inp_keys input)) in
      if ks = [] then Err ()
      else
        (let paths = take 16 (filter (\<lambda>p. length p \<le> 255) (inp_paths input));
             items = map encode_item_from (take 4 (inp_items input));
             nonce = (if inp_nonce input = replicate 12 0 then replicate 12 1 else inp_nonce input);
             bucket = c_secret_bucket L (length ks) in
         if bucket < length ks then Err ()
         else
           (let need = bucket - length ks in
            andThen (run_loop (decoys_body need) (inp_decoy_seed input OR 1, [])) (\<lambda>decoys.
            Ok \<lparr>nm_keys = ks, nm_paths = paths, nm_items = items, nm_nonce = nonce,
              nm_geometric_pad = inp_geometric_pad input, nm_decoys = decoys\<rparr>))))"

definition rust_encode :: "crypto \<Rightarrow> normalized \<Rightarrow> bytes arm" where
  "rust_encode C input =
     (let paths = map DerivationPath (nm_paths input);
          items = map (\<lambda>item. (ec_content (ei_content item), ei_data item)) (nm_items input);
          padding = (if nm_geometric_pad input then Padding_Geometric else Padding_None) in
      as_ok (encrypt_chacha20_poly1305_v1_items_with_decoys C paths False items (nm_keys input) padding
        (nm_nonce input) (nm_decoys input)))"

section \<open>Comparisons\<close>

text \<open>The value of an \<open>Option\<close> function, and the panic of a comparison.\<close>

fun with_option :: "'a arm \<Rightarrow> ('a option \<Rightarrow> 'b arm) \<Rightarrow> 'b arm" where
  "with_option (Ok x) f = f (Some x)"
| "with_option (Err e) f = f None"
| "with_option Panic f = Panic"
| "with_option Diverges f = Diverges"

definition panic_if :: "bool \<Rightarrow> unit arm" where
  "panic_if divergence = (if divergence then Panic else Ok ())"

definition diff_decode :: "c_library \<Rightarrow> cpp_library \<Rightarrow> bytes \<Rightarrow> unit arm" where
  "diff_decode L M bs =
     with_option (rust_decode bs) (\<lambda>rust.
     with_option (c_decode L bs) (\<lambda>c.
     with_option (cpp_arm_decode M bs) (\<lambda>cpp.
     (let rust = map_option canonical rust; c = map_option canonical c; cpp = map_option canonical cpp in
      panic_if (rust \<noteq> c \<or> rust \<noteq> cpp)))))"

definition diff_reencode :: "c_library \<Rightarrow> cpp_library \<Rightarrow> bytes \<Rightarrow> unit arm" where
  "diff_reencode L M bs =
     with_option (rust_decode bs) (\<lambda>rust_decoded.
     with_option (c_decode L bs) (\<lambda>c_decoded.
     (case (rust_decoded, c_decoded) of
        (Some rust_decoded, Some c_decoded) \<Rightarrow>
          with_option (cpp_arm_reencode M bs) (\<lambda>cpp.
          (case cpp of
             None \<Rightarrow> Ok ()
           | Some cpp \<Rightarrow>
               andThen (if dc_ciphertext rust_decoded \<noteq> []
                 then with_option (rust_reencode rust_decoded) (\<lambda>r. Ok (Some r)) else Ok None) (\<lambda>rust.
               with_option (c_reencode L c_decoded) (\<lambda>c.
               panic_if (c \<noteq> Some cpp \<or> (\<exists>r \<in> set_option rust. r \<noteq> Some cpp))))))
      | _ \<Rightarrow> Ok ())))"

definition diff_encode :: "crypto \<Rightarrow> c_library \<Rightarrow> encode_input \<Rightarrow> unit arm" where
  "diff_encode C L input =
     with_option (normalize L input) (\<lambda>n.
     (case n of
        None \<Rightarrow> Ok ()
      | Some n \<Rightarrow>
          with_option (rust_encode C n) (\<lambda>rust.
          with_option (c_encode L (nm_keys n) (nm_paths n) (nm_items n) (nm_geometric_pad n) (nm_nonce n) (nm_decoys n)) (\<lambda>c.
          panic_if (rust \<noteq> c)))))"

definition bad_string :: "fuzz_item \<Rightarrow> bool" where
  "bad_string it \<longleftrightarrow> fst it = CT_String \<and> \<not> utf8_valid (snd it)"

definition compare_decrypt :: "crypto \<Rightarrow> c_library \<Rightarrow> cpp_library \<Rightarrow> bytes \<Rightarrow> bytes \<Rightarrow> unit arm" where
  "compare_decrypt C L M blob key =
     with_option (rust_decrypt_items C blob key) (\<lambda>rust.
     with_option (c_decrypt_items L blob key) (\<lambda>c.
     with_option (cpp_arm_decrypt_data M blob key) (\<lambda>cpp.
     (let bad_utf8 = (case rust of Some items \<Rightarrow> list_ex bad_string items | None \<Rightarrow> False);
          cpp_agrees = ((bad_utf8 \<and> cpp = None) \<or>
            (case rust of
               Some [] \<Rightarrow> cpp = None \<or> cpp = Some []
             | rust \<Rightarrow> map_option (map snd) rust = cpp));
          has_empty = (case rust of Some items \<Rightarrow> list_ex (\<lambda>it. snd it = []) items | None \<Rightarrow> False);
          c_agrees = (rust = c \<or> ((has_empty \<or> bad_utf8) \<and> c = None)) in
      panic_if (\<not> c_agrees \<or> \<not> cpp_agrees)))))"

definition diff_decrypt :: "crypto \<Rightarrow> c_library \<Rightarrow> cpp_library \<Rightarrow> encode_input \<Rightarrow> unit arm" where
  "diff_decrypt C L M input =
     with_option (normalize L input) (\<lambda>n.
     (case n of
        None \<Rightarrow> Ok ()
      | Some n \<Rightarrow>
          with_option (rust_encode C n) (\<lambda>blob.
          (case blob of
             None \<Rightarrow> Ok ()
           | Some blob \<Rightarrow> andThen (index_at (nm_keys n) 0) (\<lambda>key. compare_decrypt C L M blob key)))))"

definition diff_plaintext :: "crypto \<Rightarrow> c_library \<Rightarrow> cpp_library \<Rightarrow> bytes \<Rightarrow> unit arm" where
  "diff_plaintext C L M plaintext =
     with_option (rust_wrap_plaintext C plaintext) (\<lambda>blob.
     (case blob of None \<Rightarrow> Ok () | Some blob \<Rightarrow> compare_decrypt C L M blob PLAINTEXT_KEY))"

section \<open>Components\<close>

datatype component_input =
    Component_Decode bytes
  | Component_EncodeContent content_choice
  | Component_EncodePaths "u32 list list"
  | Component_EncodeSecrets "bytes list"

definition compare_parse_content :: "c_library \<Rightarrow> cpp_library \<Rightarrow> bytes \<Rightarrow> unit arm" where
  "compare_parse_content L M bs =
     with_option (andThen (as_ok (parse_content bs)) (\<lambda>(consumed, content).
       andThen (rust_content_type content) (\<lambda>t. Ok (consumed, t)))) (\<lambda>rust.
     with_option (c_parse_content L bs) (\<lambda>c.
     with_option (cpp_arm_parse_content M bs) (\<lambda>cpp.
     panic_if (rust \<noteq> c \<or> rust \<noteq> cpp))))"

definition compare_decode_paths :: "cpp_library \<Rightarrow> bytes \<Rightarrow> unit arm" where
  "compare_decode_paths M bs =
     with_option (as_ok (parse_derivation_paths bs)) (\<lambda>rust.
     with_option (cpp_arm_decode_paths M bs) (\<lambda>cpp.
     panic_if (map_option (\<lambda>(_, paths). sorted_unique (map to_u32_vec paths)) rust \<noteq> map_option sorted_unique cpp)))"

definition compare_decode_secrets :: "cpp_library \<Rightarrow> bytes \<Rightarrow> unit arm" where
  "compare_decode_secrets M bs =
     with_option (as_ok (parse_individual_secrets bs)) (\<lambda>rust.
     with_option (cpp_arm_decode_secrets M bs) (\<lambda>cpp.
     panic_if (map_option (\<lambda>(_, secrets). sorted_unique secrets) rust \<noteq> map_option sorted_unique cpp)))"

definition compare_encode_content :: "c_library \<Rightarrow> cpp_library \<Rightarrow> content_choice \<Rightarrow> unit arm" where
  "compare_encode_content L M content =
     (let content = encode_content_from content in
      with_option (content_try_into (ec_content content)) (\<lambda>rust.
      with_option (c_encode_content L content) (\<lambda>c.
      with_option (cpp_arm_encode_content M content) (\<lambda>cpp.
      panic_if (rust \<noteq> c \<or> rust \<noteq> cpp)))))"

text \<open>An arm that only joins the inputs inside its contract: \<open>then\<close> with a nested \<open>Option\<close>.\<close>

definition joins :: "bool \<Rightarrow> 'a arm \<Rightarrow> 'a option option arm" where
  "joins inside r = (if inside then with_option r (\<lambda>c. Ok (Some c)) else Ok None)"

definition compare_encode_paths :: "c_library \<Rightarrow> cpp_library \<Rightarrow> u32 list list \<Rightarrow> unit arm" where
  "compare_encode_paths L M paths =
     andThen (joins (length paths \<le> 255 \<and> list_all (\<lambda>p. length p \<le> 255) paths) (c_encode_paths L paths)) (\<lambda>c.
     with_option (cpp_arm_encode_paths M paths) (\<lambda>cpp.
     with_option (as_ok (encode_derivation_paths (map DerivationPath paths))) (\<lambda>rust.
     panic_if (rust \<noteq> cpp \<or> (\<exists>c \<in> set_option c. c \<noteq> rust)))))"

definition compare_encode_secrets :: "c_library \<Rightarrow> cpp_library \<Rightarrow> bytes list \<Rightarrow> unit arm" where
  "compare_encode_secrets L M secrets =
     andThen (joins (length secrets \<le> 255) (c_encode_secrets L secrets)) (\<lambda>c.
     with_option (cpp_arm_encode_secrets M secrets) (\<lambda>cpp.
     with_option (as_ok (encode_individual_secrets secrets)) (\<lambda>rust.
     panic_if (rust \<noteq> cpp \<or> (\<exists>c \<in> set_option c. c \<noteq> rust)))))"

definition diff_components :: "c_library \<Rightarrow> cpp_library \<Rightarrow> component_input \<Rightarrow> unit arm" where
  "diff_components L M input =
     (case input of
        Component_Decode bs \<Rightarrow>
          andThen (compare_parse_content L M bs) (\<lambda>_.
          andThen (compare_decode_paths M bs) (\<lambda>_.
          compare_decode_secrets M bs))
      | Component_EncodeContent content \<Rightarrow> compare_encode_content L M content
      | Component_EncodePaths paths \<Rightarrow> compare_encode_paths L M paths
      | Component_EncodeSecrets secrets \<Rightarrow> compare_encode_secrets L M secrets)"

section \<open>The orbit of the generator\<close>

text \<open>The map after \<open>2 ^ n\<close> steps is again affine; its coefficients by squaring.\<close>

fun lcg_power :: "nat \<Rightarrow> u64 \<times> u64" where
  "lcg_power 0 = (6364136223846793005, 1442695040888963407)"
| "lcg_power (Suc n) = (let (a, c) = lcg_power n in (a * a, a * c + c))"

lemma lcg_power_iterate: "(lcg ^^ (2 ^ n)) s = s * fst (lcg_power n) + snd (lcg_power n)"
proof (induction n arbitrary: s)
  case 0
  show ?case by (simp add: lcg_def)
next
  case (Suc n)
  have "(lcg ^^ (2 ^ Suc n)) s = (lcg ^^ (2 ^ n)) ((lcg ^^ (2 ^ n)) s)"
    by (simp add: mult_2 funpow_add)
  then show ?case by (simp add: Suc.IH Let_def case_prod_unfold algebra_simps)
qed

lemma lcg_power_56: "lcg_power 56 = (1 + push_bit 58 25, push_bit 56 5)"
  by code_simp

definition top_byte :: "u64 \<Rightarrow> u8" where
  "top_byte s = ucast (drop_bit 56 s)"

lemma lcg_jump: "(lcg ^^ (2 ^ 56)) s = s + push_bit 56 (100 * s + 5)"
  unfolding lcg_power_iterate lcg_power_56 by (simp add: push_bit_eq_mult algebra_simps)

lemma shift_mod: "0 < b \<Longrightarrow> 0 < c \<Longrightarrow> a mod (b * c) div b = a div b mod (c :: int)"
  by (simp add: zmod_zmult2_eq)

lemma top_byte_add: "top_byte (s + push_bit 56 u) = top_byte s + ucast u"
proof -
  have "uint (s + push_bit 56 u) = (uint s + uint u * 2 ^ 56) mod 2 ^ 64"
    by (simp add: uint_word_ariths push_bit_eq_mult mod_simps)
  then have "uint (drop_bit 56 (s + push_bit 56 u)) = (uint s + uint u * 2 ^ 56) mod 2 ^ 64 div 2 ^ 56"
    by (simp add: drop_bit_eq_div uint_div_distrib)
  also have "\<dots> = (uint s div 2 ^ 56 + uint u) mod 2 ^ 8"
    using shift_mod [of "2 ^ 56" "2 ^ 8" "uint s + uint u * 2 ^ 56"] by (simp add: add.commute)
  finally have "uint (drop_bit 56 (s + push_bit 56 u)) = (uint (drop_bit 56 s) + uint u) mod 2 ^ 8"
    by (simp add: drop_bit_eq_div uint_div_distrib)
  then have "uint (top_byte (s + push_bit 56 u)) = uint (top_byte s + ucast u)"
    by (simp add: top_byte_def uint_word_ariths take_bit_eq_mod mod_simps unsigned_ucast_eq drop_bit_eq_div uint_div_distrib)
  then show ?thesis by (simp add: word_uint_eq_iff)
qed

lemma low_byte_add: "(ucast (s + push_bit 56 u) :: u8) = ucast (s :: u64)"
proof -
  have "(uint s + uint u * 72057594037927936) mod 256 = uint s mod 256"
    using mod_mult_self1 [of "uint s" "uint u * 281474976710656" 256] by (simp add: mult.assoc)
  then show ?thesis
    by (simp add: word_uint_eq_iff unsigned_ucast_eq take_bit_eq_mod uint_word_ariths push_bit_eq_mult mod_simps mod_mod_cancel)
qed

text \<open>So the top byte moves by the same odd step at every jump.\<close>

definition top_step :: "u64 \<Rightarrow> u8" where
  "top_step s = 100 * ucast s + 5"

lemma top_byte_jumps:
  "top_byte ((lcg ^^ (2 ^ 56 * j)) s) = top_byte s + word_of_nat j * top_step s \<and>
   (ucast ((lcg ^^ (2 ^ 56 * j)) s) :: u8) = ucast s"
proof (induction j)
  case (Suc j)
  let ?t = "(lcg ^^ (2 ^ 56 * j)) s"
  have e: "(lcg ^^ (2 ^ 56 * Suc j)) s = ?t + push_bit 56 (100 * ?t + 5)"
    unfolding mult_Suc_right funpow_add comp_def lcg_jump ..
  have "(ucast (100 * ?t + 5) :: u8) = 100 * ucast ?t + 5"
    by (simp add: word_uint_eq_iff unsigned_ucast_eq take_bit_eq_mod uint_word_ariths mod_simps mod_mod_cancel)
  with Suc show ?case
    unfolding e top_byte_add low_byte_add by (simp add: top_step_def algebra_simps)
qed simp

lemma odd_step: "odd (unat (top_step s))"
proof -
  have "uint (top_step s) = (100 * uint (ucast s :: u8) + 5) mod 256"
    by (simp add: top_step_def uint_word_ariths mod_simps)
  then have "odd (uint (top_step s))" by (simp add: dvd_mod_iff)
  then show ?thesis by (metis even_of_nat uint_nat)
qed

lemma top_bytes_differ:
  assumes "i < j" "j < 256"
  shows "top_byte ((lcg ^^ (2 ^ 56 * i)) s) \<noteq> top_byte ((lcg ^^ (2 ^ 56 * j)) s)"
proof
  assume "top_byte ((lcg ^^ (2 ^ 56 * i)) s) = top_byte ((lcg ^^ (2 ^ 56 * j)) s)"
  then have "word_of_nat i * top_step s = word_of_nat j * top_step s"
    by (simp only: top_byte_jumps [THEN conjunct1] add_left_cancel)
  then have w: "(word_of_nat (j * unat (top_step s)) :: u8) = word_of_nat (i * unat (top_step s))" by simp
  have "j * unat (top_step s) mod 256 = i * unat (top_step s) mod 256"
    using w [unfolded word_of_nat_eq_iff take_bit_eq_mod] by simp
  then have "256 dvd j * unat (top_step s) - i * unat (top_step s)"
    using assms(1) mod_eq_dvd_iff_nat [of "i * unat (top_step s)" "j * unat (top_step s)" 256] by simp
  then have "256 dvd (j - i) * unat (top_step s)" by (simp add: diff_mult_distrib)
  moreover have "coprime ((2 :: nat) ^ 8) (unat (top_step s))"
    by (rule coprime_power_left_iff [THEN iffD2]) (use odd_step [of s] in \<open>simp add: coprime_left_2_iff_odd\<close>)
  then have "coprime 256 (unat (top_step s))" by simp
  ultimately have "256 dvd j - i" by (simp add: coprime_dvd_mult_left_iff)
  with assms show False using nat_dvd_not_less [of "j - i" 256] by simp
qed


section \<open>The decoys are found\<close>

lemma lcg_bytes_state: "snd (lcg_bytes n s) = (lcg ^^ n) s"
  by (induction n arbitrary: s) (simp_all add: Let_def case_prod_unfold funpow_swap1)

lemma length_lcg_bytes: "length (fst (lcg_bytes n s)) = n"
  by (induction n arbitrary: s) (simp_all add: Let_def case_prod_unfold)

definition block :: "u64 \<Rightarrow> nat \<Rightarrow> bytes" where
  "block s k = fst (lcg_bytes 32 ((lcg ^^ (32 * k)) s))"

lemma hd_lcg_bytes: "hd (fst (lcg_bytes (Suc n) s)) = top_byte (lcg s)"
  by (simp add: Let_def case_prod_unfold top_byte_def)

lemma hd_block: "hd (block s k) = top_byte ((lcg ^^ (32 * k)) (lcg s))"
  using hd_lcg_bytes [of 31 "(lcg ^^ (32 * k)) s"] by (simp add: block_def funpow_swap1 del: lcg_bytes.simps)

text \<open>The blocks found in the first turns of the loop.\<close>

definition found :: "u64 \<Rightarrow> nat \<Rightarrow> bytes set" where
  "found s k = block s ` {..<k} - {ZERO_SECRET}"

lemma finite_found [simp]: "finite (found s k)"
  by (simp add: found_def)

lemma found_0 [simp]: "found s 0 = {}"
  by (simp add: found_def)

lemma found_Suc: "found s (Suc k) = (if block s k = ZERO_SECRET then found s k else insert (block s k) (found s k))"
  by (auto simp: found_def lessThan_Suc)

lemma many_found: "255 \<le> card (found s (2 ^ 51 * 255 + 1))"
proof -
  have inj: "inj_on (\<lambda>j. block s (2 ^ 51 * j)) {..<256}"
  proof (rule linorder_inj_onI)
    fix i j :: nat
    assume "i < j" "i \<in> {..<256}" "j \<in> {..<256}"
    with top_bytes_differ [of i j "lcg s"] show "block s (2 ^ 51 * i) \<noteq> block s (2 ^ 51 * j)"
      using hd_block [of s "2 ^ 51 * i"] hd_block [of s "2 ^ 51 * j"] by (auto simp: mult.assoc [symmetric])
  qed auto
  have "(\<lambda>j. block s (2 ^ 51 * j)) ` {..<256} - {ZERO_SECRET} \<subseteq> found s (2 ^ 51 * 255 + 1)"
    by (auto simp: found_def)
  then have "card ((\<lambda>j. block s (2 ^ 51 * j)) ` {..<256} - {ZERO_SECRET}) \<le> card (found s (2 ^ 51 * 255 + 1))"
    by (rule card_mono [rotated]) simp
  moreover have "255 \<le> card ((\<lambda>j. block s (2 ^ 51 * j)) ` {..<256} - {ZERO_SECRET})"
    using card_image [OF inj] by (simp add: card_Diff_singleton_if)
  ultimately show ?thesis by simp
qed

lemma decoys_turn:
  assumes "card (found s k) < need"
  shows "decoys_body need ((lcg ^^ (32 * k)) s, sorted_list_of_set (found s k)) =
    Ok (Inl ((lcg ^^ (32 * Suc k)) s, sorted_list_of_set (found s (Suc k))))"
proof -
  have "(lcg ^^ 32) ((lcg ^^ (32 * k)) s) = (lcg ^^ (32 * Suc k)) s"
    by (simp add: funpow_add [THEN fun_cong, unfolded comp_def, symmetric] add.commute)
  moreover have "btree_insert d (sorted_list_of_set (found s k)) = sorted_list_of_set (insert d (found s k))" for d
    using btree_extend_eq [of "sorted_list_of_set (found s k)" "[d]"] by simp
  ultimately show ?thesis
    using assms by (simp add: case_prod_unfold lcg_bytes_state found_Suc block_def [symmetric] del: funpow.simps)
qed

lemma decoys_loop:
  assumes "need \<le> 255"
  shows "\<exists>k. card (found s k) = need \<and> run_loop (decoys_body need) (s, []) = Ok (sorted_list_of_set (found s k))"
proof -
  define k where "k = (LEAST k. need \<le> card (found s k))"
  have ge: "need \<le> card (found s k)"
    unfolding k_def by (rule LeastI [of _ "2 ^ 51 * 255 + 1"]) (use many_found [of s] assms in simp)
  have lt: "card (found s j) < need" if "j < k" for j
    using not_less_Least [of j] that unfolding k_def by (metis not_le)
  have "j \<le> k \<Longrightarrow> run_loop (decoys_body need) (s, []) =
      run_loop (decoys_body need) ((lcg ^^ (32 * j)) s, sorted_list_of_set (found s j))" for j
  proof (induction j)
    case (Suc j)
    then show ?case using decoys_turn [OF lt, of j] by (simp add: run_loop_unfold [of _ "(_, sorted_list_of_set (found s j))"])
  qed simp
  from this [of k] ge have "run_loop (decoys_body need) (s, []) = Ok (sorted_list_of_set (found s k))"
    by (simp add: run_loop_unfold)
  moreover have "card (found s k) \<le> need"
  proof (cases k)
    case (Suc j)
    with lt [of j] show ?thesis by (simp add: found_Suc card_insert_if split: if_splits)
  qed simp
  ultimately show ?thesis using ge by auto
qed

section \<open>What normalising gives\<close>

text \<open>The bucket of the C library, as it is documented: at least the number of keys, at most 255.\<close>

definition bucket_documented :: "c_library \<Rightarrow> bool" where
  "bucket_documented L \<longleftrightarrow> (\<forall>n \<le> 255. n \<le> c_secret_bucket L n \<and> c_secret_bucket L n \<le> 255)"

lemma fresh_keys_spec: "set (fresh_keys seen ks) = set ks - {NUMS_XONLY} - set seen \<and> distinct (fresh_keys seen ks)"
proof (induction ks arbitrary: seen)
  case (Cons k ks)
  from Cons.IH [of seen] Cons.IH [of "k # seen"] show ?case by auto
qed simp

lemma fresh_keys_take:
  "distinct (take n (fresh_keys seen ks)) \<and> NUMS_XONLY \<notin> set (take n (fresh_keys seen ks)) \<and>
   set (take n (fresh_keys seen ks)) \<subseteq> set ks"
  using fresh_keys_spec [of seen ks] set_take_subset [of n "fresh_keys seen ks"] by (auto intro: distinct_take)

lemma length_found: "d \<in> found s k \<Longrightarrow> length d = 32 \<and> d \<noteq> ZERO_SECRET"
  by (auto simp: found_def block_def length_lcg_bytes)

text \<open>An input the encoders agree on: distinct keys that encrypt, a nonce, a bucket full of good decoys.\<close>

definition well_normalized :: "c_library \<Rightarrow> encode_input \<Rightarrow> normalized \<Rightarrow> bool" where
  "well_normalized L input n \<longleftrightarrow>
     nm_keys n \<noteq> [] \<and> length (nm_keys n) \<le> 8 \<and> distinct (nm_keys n) \<and> NUMS_XONLY \<notin> set (nm_keys n) \<and>
     set (nm_keys n) \<subseteq> set (inp_keys input) \<and>
     length (nm_keys n) + length (nm_decoys n) = c_secret_bucket L (length (nm_keys n)) \<and>
     sorted_wrt (<) (nm_decoys n) \<and> (\<forall>d \<in> set (nm_decoys n). length d = 32 \<and> d \<noteq> ZERO_SECRET) \<and>
     nm_nonce n \<noteq> replicate 12 0 \<and> (nm_nonce n = inp_nonce input \<or> nm_nonce n = replicate 12 1) \<and>
     nm_items n = map encode_item_from (take 4 (inp_items input))"

lemma normalize_cases:
  assumes "bucket_documented L"
  shows "normalize L input = Err () \<and> set (inp_keys input) \<subseteq> {NUMS_XONLY} \<or>
    (\<exists>n. normalize L input = Ok n \<and> well_normalized L input n)"
proof (cases "take 8 (fresh_keys [] (inp_keys input)) = []")
  case True
  then have "fresh_keys [] (inp_keys input) = []" by simp
  then have "set (inp_keys input) \<subseteq> {NUMS_XONLY}" using fresh_keys_spec [of "[]" "inp_keys input"] by auto
  with True show ?thesis by (simp add: normalize_def)
next
  case False
  let ?ks = "take 8 (fresh_keys [] (inp_keys input))"
  have l: "length ?ks \<le> 8" by simp
  with assms have b: "length ?ks \<le> c_secret_bucket L (length ?ks)" "c_secret_bucket L (length ?ks) \<le> 255"
    by (auto simp: bucket_documented_def)
  then have "c_secret_bucket L (length ?ks) - length ?ks \<le> 255" by simp
  from decoys_loop [OF this, of "inp_decoy_seed input OR 1"] obtain k where
    k: "card (found (inp_decoy_seed input OR 1) k) = c_secret_bucket L (length ?ks) - length ?ks"
    and r: "run_loop (decoys_body (c_secret_bucket L (length ?ks) - length ?ks)) (inp_decoy_seed input OR 1, []) =
      Ok (sorted_list_of_set (found (inp_decoy_seed input OR 1) k))" by blast
  show ?thesis
    using False b k r fresh_keys_take [of 8 "[]" "inp_keys input"] length_found
    by (auto simp: normalize_def well_normalized_def Let_def simp del: take_eq_Nil)
qed

section \<open>What Rust reads back\<close>

text \<open>An item of the input, as an arm should report it.\<close>

definition sent_item :: "item_choice \<Rightarrow> fuzz_item" where
  "sent_item item =
     (case ic_content item of
        Choice_Bip n \<Rightarrow> (CT_Bip n, take 4096 (ic_data item))
      | Choice_Proprietary tag \<Rightarrow> (CT_Proprietary (take 64 tag), take 4096 (ic_data item))
      | Choice_Str s \<Rightarrow> (CT_String, take 4096 s))"

lemma type_of_norm [simp]: "type_of_content (content_norm c) = type_of_content c"
  by (cases c) (auto simp: content_of_bip_def)

lemma known_sent_items:
  "known_items (map norm_item (map (\<lambda>it. (ec_content (ei_content it), ei_data it)) (map encode_item_from items))) =
   map sent_item items"
  by (induction items)
    (auto simp: known_items_def encode_item_from_def sent_item_def cap_def vec_truncate_def Let_def
      split: content_choice.split)

lemma sent_content_known: "content_norm (ec_content (encode_content_from c)) \<noteq> Content_None"
  by (cases c) (simp_all add: content_of_bip_def Let_def)

lemma rust_encode_Ok:
  "rust_encode C n = Ok blob \<Longrightarrow>
   \<exists>payload pad. build_v1_payload (map (\<lambda>it. (ec_content (ei_content it), ei_data it)) (nm_items n)) pad = Ok payload \<and>
     encode_v1_backup C (map DerivationPath (nm_paths n)) False (nm_keys n) payload (nm_nonce n)
       (pad_with_decoys (nm_decoys n)) = Ok (blob, ())"
  by (auto simp: rust_encode_def Let_def outcome_simps encrypt_items_with_decoys_Ok)

lemma rust_encode_read:
  assumes laws: "sha256_sized C" "aead_correct C"
    and n: "length (nm_nonce n) = 12" "\<forall>d \<in> set (nm_decoys n). length d = 32" "nm_items n = map encode_item_from items"
    and e: "rust_encode C n = Ok blob" and len: "rust_slice blob"
    and k: "key \<in> set (nm_keys n)" "key \<noteq> NUMS_XONLY" and agree: "backup_agrees C blob key"
  shows "rust_decrypt_items C blob key = Ok (map sent_item items)"
proof -
  let ?its = "map (\<lambda>it. (ec_content (ei_content it), ei_data it)) (nm_items n)"
  from rust_encode_Ok [OF e] obtain payload pad where p: "build_v1_payload ?its pad = Ok payload"
    and b: "encode_v1_backup C (map DerivationPath (nm_paths n)) False (nm_keys n) payload (nm_nonce n)
       (pad_with_decoys (nm_decoys n)) = Ok (blob, ())" by blast
  have "list_all secret_ok (nm_decoys n)" using n(2) by (simp add: list_all_iff secret_ok_def)
  from decoy_pad.roundtrip [OF laws this p b n(1) len] obtain ss c where
    d: "decode_v1 blob = Ok (sorted_list_of_set (stored_paths False (map DerivationPath (nm_paths n))), ss, 1, nm_nonce n, c)"
    and r: "\<forall>key \<in> recipients (nm_keys n). candidates_agree C key ss c (nm_nonce n) \<longrightarrow>
       decrypt_chacha20_poly1305_v1 C key ss c (nm_nonce n) = Ok (map norm_item ?its)" by blast
  have "key \<in> recipients (nm_keys n)" using k by (simp add: recipients_def)
  with r agree d have "decrypt_chacha20_poly1305_v1 C key ss c (nm_nonce n) = Ok (map norm_item ?its)"
    by (auto simp: backup_agrees_def)
  moreover have "Content_None \<notin> fst ` set (map norm_item ?its)"
    using sent_content_known [symmetric] by (auto simp: n(3) encode_item_from_def Let_def)
  ultimately show ?thesis
    using rust_items_eq [of "map norm_item ?its"] known_sent_items [of items] n(3)
    by (simp add: rust_decrypt_items_def d)
qed

section \<open>Runs without a panic\<close>

lemma with_option_Ok [outcome_simps]:
  "with_option m f = Ok y \<longleftrightarrow> (\<exists>x. m = Ok x \<and> f (Some x) = Ok y) \<or> (m = Err () \<and> f None = Ok y)"
  by (cases m) auto

lemma panic_if_Ok [outcome_simps]: "panic_if b = Ok u \<longleftrightarrow> \<not> b"
  by (simp add: panic_if_def)

text \<open>Items on which the contracts of the arms do not differ.\<close>

definition plain_items :: "fuzz_item list \<Rightarrow> bool" where
  "plain_items items \<longleftrightarrow> items \<noteq> [] \<and> list_all (\<lambda>it. snd it \<noteq> [] \<and> \<not> bad_string it) items"

lemma compare_decrypt_items:
  assumes "compare_decrypt C L M blob key = Ok ()" "rust_decrypt_items C blob key = Ok items" "plain_items items"
  shows "c_decrypt_items L blob key = Ok items \<and> cpp_arm_decrypt_data M blob key = Ok (map snd items)"
proof -
  have "\<not> list_ex bad_string items" "\<not> list_ex (\<lambda>it. snd it = []) items" "items \<noteq> []"
    using assms(3) by (auto simp: plain_items_def list_all_iff list_ex_iff)
  with assms(1,2) show ?thesis
    by (cases items) (auto simp: compare_decrypt_def outcome_simps Let_def)
qed

lemma compare_decrypt_rejects:
  "compare_decrypt C L M blob key = Ok () \<Longrightarrow> rust_decrypt_items C blob key = Err () \<Longrightarrow>
   c_decrypt_items L blob key = Err () \<and> cpp_arm_decrypt_data M blob key = Err ()"
  by (auto simp: compare_decrypt_def outcome_simps Let_def)

section \<open>An instance of the libraries\<close>

text \<open>A C library that reports one item, and its C++ counterpart.\<close>

definition sample_c :: c_library where
  "sample_c =
     \<lparr>c_parse = (\<lambda>bs. (0, \<lparr>ct_paths = [], ct_paths_len = 0, ct_path_count = 0, ct_secrets = [], ct_secret_count = 0, ct_nonce = [], ct_ciphertext = [],
        ct_ciphertext_len = 0\<rparr>)),
      c_path_at = (\<lambda>c i b. (0, b, 0)), c_plaintext_max = (\<lambda>c. 0), c_decrypt_with = (\<lambda>c k n b. (0, b, 0)),
      c_secret_bucket = (\<lambda>n. if n \<le> 5 then 5 else 255),
      c_item_iter_init = (\<lambda>it p n. it),
      c_item_next = (\<lambda>it. (if ii_pos it = 0 then 1 else 0,
        \<lparr>it_content = \<lparr>cn_type = 1, cn_bip = 138, cn_tag = None, cn_tag_len = 0\<rparr>, it_data = [65], it_data_len = 1\<rparr>,
        it\<lparr>ii_pos := 1\<rparr>)),
      c_plaintext_encode = (\<lambda>is g b. (0, b, 0)),
      c_content_parse = (\<lambda>bs. (1, \<lparr>cn_type = 0, cn_bip = 0, cn_tag = None, cn_tag_len = 0\<rparr>, 0)),
      c_content_encode = (\<lambda>c b. (0, b, 0)), c_paths_encode = (\<lambda>ps b. (0, b, 0)),
      c_secrets_encode = (\<lambda>s n b. (0, b, 0)), c_varint_write = (\<lambda>b v. (0, b, 0)),
      c_encrypt_ex = (\<lambda>k n ps np nonce d nd p b. (0, b, 0))\<rparr>"

definition sample_cpp :: cpp_library where
  "sample_cpp =
     \<lparr>cpp_decode = (\<lambda>bs. \<lparr>cd_ok = False, cd_paths = [], cd_secrets = [], cd_nonce = [], cd_ciphertext = []\<rparr>),
      cpp_decrypt = (\<lambda>bs k. (True, [[65]])),
      cpp_decode_content = (\<lambda>bs. \<lparr>cc_ok = False, cc_known = False, cc_type = 0, cc_bip = 0, cc_payload = [], cc_consumed = 0\<rparr>),
      cpp_decode_paths = (\<lambda>bs. (False, [])), cpp_decode_secrets = (\<lambda>bs. (False, [])),
      cpp_encode_content = (\<lambda>t b p. (False, [])), cpp_encode_paths = (\<lambda>ps. (False, [])),
      cpp_encode_secrets = (\<lambda>s. (False, [])), cpp_reencode = (\<lambda>bs. (False, []))\<rparr>"

lemma sample_c_items: "c_decrypt_items sample_c blob key = Ok [(CT_Bip 138, [65])]"
  by (simp add: c_decrypt_items_def c_decrypt_def sample_c_def C_OK_def vec_truncate_def Let_def)
    (subst run_loop_unfold, simp add: c_content_type_def C_CONTENT_BIP_def raw_parts_def, subst run_loop_unfold, simp)

lemma sample_cpp_data: "cpp_arm_decrypt_data sample_cpp blob key = Ok [[65]]"
  by (simp add: cpp_arm_decrypt_data_def sample_cpp_def)

lemma sample_bucket: "bucket_documented sample_c"
  by (auto simp: bucket_documented_def sample_c_def)

lemma sample_plaintext: "decode_plaintext [1, 0, 138, 1, 65] = Ok [(Content_Bip138, [65])]"
proof -
  have c: "content_try_into Content_Bip138 = Ok [1, 0, 138]" by code_simp
  have v: "varint_encode 1 = [1]" by code_simp
  have "payload_items [1, 0, 138, 1, 65] [(Content_Bip138, [65])]"
    using payload_items_encoded [of "[(Content_Bip138, [65])]" "[([1, 0, 138], [65])]" "[]"] c v
    by (simp add: plain_item_def rust_slice_def isize_MAX_def outcome_simps u32_MAX_def)
  then show ?thesis by (simp add: decode_plaintext_grammar rust_slice_def isize_MAX_def)
qed

lemma sample_wrapped: "\<exists>blob. rust_wrap_plaintext sample_crypto [1, 0, 138, 1, 65] = Ok blob \<and> rust_slice blob"
proof -
  let ?s = "decryption_secret sample_crypto [PLAINTEXT_KEY]"
  let ?ci = "xor_bytes ?s (tagged_hash sample_crypto INDIVIDUAL_SECRET PLAINTEXT_KEY)"
  have "?ci \<noteq> ZERO_SECRET" by code_simp
  then have si: "individual_secrets sample_crypto ?s [PLAINTEXT_KEY] = Ok [?ci]" by (simp add: individual_secrets_Ok)
  have n: "PLAINTEXT_NONCE \<noteq> ZERO_NONCE" by (simp add: PLAINTEXT_NONCE_def ZERO_NONCE_def)
  obtain c where c: "aead_encrypt sample_crypto ?s PLAINTEXT_NONCE [1, 0, 138, 1, 65] = Some c" "length c = 21" "c \<noteq> []"
    by (auto simp: sample_crypto_def sample_encrypt_def)
  have "length (payload_enc (PLAINTEXT_NONCE, c)) \<le> 100"
    using c(2) length_varint_encode_bounds [of 21] by (simp add: payload_enc_def PLAINTEXT_NONCE_def)
  then show ?thesis
    using c n by (simp add: rust_wrap_plaintext_def si encrypt_with_nonce_def encode_derivation_paths_Ok sort_dedup_Nil
      encode_individual_secrets_Ok encode_encrypted_payload_Ok sort_dedup_single outcome_simps encode_v1_def rust_slice_def isize_MAX_def Let_def)
qed

text \<open>A hash that is fast to evaluate, and an input with five keys, for which no decoy is needed.\<close>

definition length_crypto :: crypto where
  "length_crypto = sample_crypto\<lparr>sha256 := (\<lambda>d. word_of_nat (length d) # replicate 31 0)\<rparr>"

lemma length_crypto_laws: "sha256_sized length_crypto" "aead_correct length_crypto"
  by (simp add: length_crypto_def sha256_sized_def)
    (auto simp: aead_correct_def length_crypto_def sample_crypto_def sample_encrypt_def sample_decrypt_def)

lemma length_crypto_agrees: "backup_agrees length_crypto blob key"
proof -
  have "aead_decrypt length_crypto k nonce c = Some p \<Longrightarrow> p = take (length c - 16) c" for k nonce c p
    by (simp add: length_crypto_def sample_crypto_def sample_decrypt_def split: if_splits)
  then show ?thesis unfolding backup_agrees_def candidates_agree_def by metis
qed

definition sample_input :: encode_input where
  "sample_input =
     \<lparr>inp_keys = map sample_key [1, 2, 3, 4, 5], inp_paths = [], inp_items = [\<lparr>ic_content = Choice_Bip 138, ic_data = [65]\<rparr>],
      inp_nonce = replicate 12 1, inp_geometric_pad = False, inp_decoy_seed = 0\<rparr>"

definition sample_normal :: normalized where
  "sample_normal =
     \<lparr>nm_keys = map sample_key [1, 2, 3, 4, 5], nm_paths = [], nm_items = map encode_item_from (inp_items sample_input),
      nm_nonce = replicate 12 1, nm_geometric_pad = False, nm_decoys = []\<rparr>"

lemma sample_normalize: "normalize sample_c sample_input = Ok sample_normal"
proof -
  have "fresh_keys [] (map sample_key [1, 2, 3, 4, 5]) = map sample_key [1, 2, 3, 4, 5]" by code_simp
  then show ?thesis
    by (simp add: normalize_def sample_input_def sample_normal_def sample_c_def run_loop_unfold Let_def)
qed

lemma sample_encodes: "\<exists>blob. rust_encode length_crypto sample_normal = Ok blob \<and> rust_slice blob"
proof -
  let ?ks = "map sample_key [1, 2, 3, 4, 5]"
  have r: "card (recipients ?ks) = 5" "ZERO_SECRET \<notin> set (real_secrets length_crypto ?ks)" by code_simp+
  have v: "varint_encode 1 = [1]" by code_simp
  have p: "build_v1_payload [(Content_BIP 138, [65])] Padding_None = Ok [1, 0, 138, 1, 65]"
    by (simp add: build_v1_payload_def encode_plaintext_def padded_size_def vec_resize_def Let_def u32_MAX_def
        content_try_into_def content_type_byte_def content_length_bytes_def content_data_bytes_def content_type_defs v)
      code_simp
  have pad: "pad_with_decoys [] (real_secrets length_crypto ?ks) = Ok (real_secrets length_crypto ?ks, ())"
    using r(1) by (simp add: pad_individual_secrets_with_decoys_eq length_real_secrets doubling_bucket_eq)
  have l: "length (sort_dedup (real_secrets length_crypto ?ks)) \<le> 5"
    using length_sort_dedup_le [of "real_secrets length_crypto ?ks"] r(1) by (simp add: length_real_secrets)
  have ne: "real_secrets length_crypto ?ks \<noteq> []" using r(1) length_real_secrets [of length_crypto ?ks] by auto
  obtain c where c: "aead_encrypt length_crypto (backup_secret length_crypto ?ks) (replicate 12 1) [1, 0, 138, 1, 65] = Some c"
    "length c = 21" "c \<noteq> []"
    by (auto simp: length_crypto_def sample_crypto_def sample_encrypt_def)
  let ?q = "sort_dedup (real_secrets length_crypto ?ks)"
  let ?bs = "encode_v1 1 [0] (word_of_nat (length ?q) # concat ?q) 1 (payload_enc (replicate 12 1, c))"
  have n: "replicate 12 (1 :: u8) \<noteq> ZERO_NONCE" by (simp add: ZERO_NONCE_def)
  have "encode_v1_backup length_crypto [] False ?ks [1, 0, 138, 1, 65] (replicate 12 1) (pad_with_decoys []) = Ok (?bs, ())"
    unfolding encode_v1_backup_Ok_iff using r pad l ne c n
    by (simp add: stored_paths_def encode_individual_secrets_Ok encode_derivation_paths_Ok sort_dedup_Nil)
  then have "rust_encode length_crypto sample_normal = Ok ?bs"
    using p by (simp add: rust_encode_def sample_normal_def sample_input_def encode_item_from_def cap_def vec_truncate_def
        encrypt_chacha20_poly1305_v1_items_with_decoys_def Let_def)
  moreover have "list_all secret_ok ?q" using real_secrets_sized [of length_crypto ?ks] by (simp add: list_all_iff)
  then have "length (concat ?q) \<le> 160" using l by (simp add: length_concat_secrets)
  moreover have "length (payload_enc (replicate 12 1, c)) \<le> 100"
    using c(2) length_varint_encode_bounds [of 21] by (simp add: payload_enc_def)
  ultimately show ?thesis by (simp add: rust_slice_def isize_MAX_def encode_v1_def)
qed

section \<open>Properties\<close>

text \<open>
  C26. Normalising an input of the encode targets always ends. It fails only when every key is the NUMS
  point, and otherwise gives distinct keys, a nonce that is not zero, and the decoys that fill the bucket,
  distinct, sorted and not zero: from every seed the generator of the decoys comes to enough of them.
  Asked of the C library: the bucket it documents, between the number of keys and 255.
\<close>

theorem normalize_ends:
  assumes "bucket_documented L"
  shows "normalize L input = Err () \<and> set (inp_keys input) \<subseteq> {NUMS_XONLY} \<or>
    (\<exists>n. normalize L input = Ok n \<and> well_normalized L input n)"
  using assms by (rule normalize_cases)

theorem normalize_ends_witness:
  "well_normalized sample_c sample_input sample_normal"
  using normalize_ends [OF sample_bucket, of sample_input] by (simp add: sample_normalize)

text \<open>
  \<open>diff_plaintext\<close> tests the payload decoder: a run that does not panic on the wrapped plaintext
  means that, where the payload decoder of Rust refuses the plaintext, both other implementations do,
  and that, where it reads items that none of the documented differences concern, the C implementation
  reports just these and the C++ implementation their data.
\<close>

theorem diff_plaintext_sound:
  assumes "sha256_sized C" "aead_correct C"
    and "rust_wrap_plaintext C plaintext = Ok blob" "rust_slice blob" "diff_plaintext C L M plaintext = Ok ()"
  shows "case decode_plaintext plaintext of
      Ok items \<Rightarrow> plain_items (known_items items) \<longrightarrow>
        c_decrypt_items L blob PLAINTEXT_KEY = Ok (known_items items) \<and>
        cpp_arm_decrypt_data M blob PLAINTEXT_KEY = Ok (map snd (known_items items))
    | _ \<Rightarrow> c_decrypt_items L blob PLAINTEXT_KEY = Err () \<and> cpp_arm_decrypt_data M blob PLAINTEXT_KEY = Err ()"
proof -
  have c: "compare_decrypt C L M blob PLAINTEXT_KEY = Ok ()" using assms(3,5) by (simp add: diff_plaintext_def)
  from wrapped_plaintext_eq [OF assms(1-4)] compare_decrypt_items [OF c] compare_decrypt_rejects [OF c]
  show ?thesis by (cases "decode_plaintext plaintext") simp_all
qed

theorem diff_plaintext_sound_witness:
  "\<exists>blob. rust_wrap_plaintext sample_crypto [1, 0, 138, 1, 65] = Ok blob \<and>
     diff_plaintext sample_crypto sample_c sample_cpp [1, 0, 138, 1, 65] = Ok () \<and>
     cpp_arm_decrypt_data sample_cpp blob PLAINTEXT_KEY = Ok [[65]]"
proof -
  obtain blob where w: "rust_wrap_plaintext sample_crypto [1, 0, 138, 1, 65] = Ok blob" and l: "rust_slice blob"
    using sample_wrapped by blast
  have k: "known_items [(Content_Bip138, [65])] = [(CT_Bip 138, [65])]" by (simp add: known_items_def)
  then have "rust_decrypt_items sample_crypto blob PLAINTEXT_KEY = Ok [(CT_Bip 138, [65])]"
    using wrapped_plaintext_eq [OF sample_sized sample_correct w l] by (simp add: sample_plaintext)
  then have "diff_plaintext sample_crypto sample_c sample_cpp [1, 0, 138, 1, 65] = Ok ()"
    by (simp add: diff_plaintext_def w compare_decrypt_def sample_c_items sample_cpp_data bad_string_def panic_if_def)
  with w diff_plaintext_sound [OF sample_sized sample_correct w l this] show ?thesis
    by (simp add: sample_plaintext k plain_items_def bad_string_def)
qed

text \<open>
  C25. A run of \<open>diff_decrypt\<close> that does not panic means that the other implementations decrypt what Rust
  encrypts: for an input whose items are not empty and whose strings are UTF-8, the C implementation
  gives back the items that were sent, with their types, and the C++ implementation their data.
\<close>

theorem diff_decrypt_sound:
  assumes "sha256_sized C" "aead_correct C" "bucket_documented L" "length (inp_nonce input) = 12"
    and "normalize L input = Ok n" "rust_encode C n = Ok blob" "rust_slice blob"
    and "backup_agrees C blob (hd (nm_keys n))" "diff_decrypt C L M input = Ok ()"
    and "plain_items (map sent_item (take 4 (inp_items input)))"
  shows "c_decrypt_items L blob (hd (nm_keys n)) = Ok (map sent_item (take 4 (inp_items input))) \<and>
    cpp_arm_decrypt_data M blob (hd (nm_keys n)) = Ok (map (snd \<circ> sent_item) (take 4 (inp_items input)))"
proof -
  from normalize_cases [OF assms(3), of input] assms(5) have n: "well_normalized L input n" by simp
  then have k: "hd (nm_keys n) \<in> set (nm_keys n)" "length (nm_nonce n) = 12"
    using assms(4) by (auto simp: well_normalized_def)
  with n have k': "hd (nm_keys n) \<noteq> NUMS_XONLY" by (metis well_normalized_def)
  from n assms(5,6,9) have c: "compare_decrypt C L M blob (hd (nm_keys n)) = Ok ()"
    by (simp add: diff_decrypt_def outcome_simps well_normalized_def hd_conv_nth)
  have "rust_decrypt_items C blob (hd (nm_keys n)) = Ok (map sent_item (take 4 (inp_items input)))"
    using n rust_encode_read [OF assms(1,2) k(2) _ _ assms(6,7) k(1) k' assms(8)] by (simp add: well_normalized_def)
  from compare_decrypt_items [OF c this assms(10)] show ?thesis by simp
qed

theorem diff_decrypt_sound_witness:
  "\<exists>blob. rust_encode length_crypto sample_normal = Ok blob \<and>
     diff_decrypt length_crypto sample_c sample_cpp sample_input = Ok () \<and>
     cpp_arm_decrypt_data sample_cpp blob (sample_key 1) = Ok [[65]]"
proof -
  obtain blob where e: "rust_encode length_crypto sample_normal = Ok blob" and l: "rust_slice blob"
    using sample_encodes by blast
  have k: "hd (nm_keys sample_normal) = sample_key 1" "sample_key 1 \<noteq> NUMS_XONLY" "sample_key 1 \<in> set (nm_keys sample_normal)"
    by code_simp+
  have s: "map sent_item (inp_items sample_input) = [(CT_Bip 138, [65])]" "inp_items sample_input = take 4 (inp_items sample_input)"
    by (simp_all add: sample_input_def sent_item_def)
  have "rust_decrypt_items length_crypto blob (sample_key 1) = Ok [(CT_Bip 138, [65])]"
    using rust_encode_read [OF length_crypto_laws _ _ _ e l k(3,2) length_crypto_agrees] s(1) by (simp add: sample_normal_def)
  then have d: "diff_decrypt length_crypto sample_c sample_cpp sample_input = Ok ()"
    by (simp add: diff_decrypt_def sample_normalize e compare_decrypt_def sample_c_items sample_cpp_data bad_string_def
        panic_if_def index_at_def) (simp add: sample_normal_def)
  have i: "length (inp_nonce sample_input) = 12" "plain_items (map sent_item (take 4 (inp_items sample_input)))"
    using s by (simp_all add: sample_input_def plain_items_def bad_string_def sent_item_def)
  from diff_decrypt_sound [OF length_crypto_laws sample_bucket i(1) sample_normalize e l length_crypto_agrees d i(2)] e d k(1) s
  show ?thesis by (simp add: sample_input_def sent_item_def)
qed

end
