(* ===== verification/Explicit_Randomness.thy ===== *)
theory Explicit_Randomness
  imports Backup
begin

text \<open>
  The build of the main crate without the \<open>rand\<close> feature, where the caller of \<open>encrypt\<close> supplies the nonce
  and the decoys (\<open>src/lib.rs\<close>, \<open>EncryptedBackup::encrypt\<close>). Shown: what either
  build returns, the other returns as well, a source of randomness of the one corresponding to a nonce and
  decoys of the other.
\<close>

definition encrypt_without_rand ::
  "('pk, 'dk, 'd, 'v) externals \<Rightarrow> bytes \<Rightarrow> bytes list \<Rightarrow> ('pk, 'dk) encrypted_backup \<Rightarrow> ('pk, 'dk) encrypted bip" where
  "encrypt_without_rand X nonce decoy_individual_secrets b =
     (if eb_content b = Content_Unknown \<and> \<not> is_encrypt_many (eb_payload b) then Err B_UnknownContent
      else if \<not> encryption_is_defined (eb_encryption b) then Err B_EncryptionUndefined
      else if \<not> version_is_valid (eb_version b) then Err B_InvalidVersion
      else
        (let warnings = eb_warnings b;
             keys = map (xonly (ext_backend X)) (eb_keys b);
             derivation_paths = map to_ll_path (eb_derivation_paths b) in
         if (eb_encryption b, eb_version b) = (ChaCha20Poly1305, V1) then
           andThen
             (case eb_payload b of
                Payload_Encrypt payload \<Rightarrow>
                  if keys = [] then Err B_DescriptorHasNoKeys
                  else from_ll (encrypt_chacha20_poly1305_v1_items_with_decoys (ext_crypto X) derivation_paths
                    (eb_store_common_paths b) [(eb_content b, payload)] keys (eb_padding b) nonce decoy_individual_secrets)
              | Payload_EncryptMany payloads \<Rightarrow>
                  if keys = [] then Err B_DescriptorHasNoKeys
                  else from_ll (encrypt_chacha20_poly1305_v1_items_with_decoys (ext_crypto X) derivation_paths
                    (eb_store_common_paths b) payloads keys (eb_padding b) nonce decoy_individual_secrets)
              | _ \<Rightarrow> Err B_WrongPayload) (\<lambda>bs.
           Ok \<lparr>enc_bytes = bs, enc_warnings = warnings\<rparr>)
         else Err B_NotImplemented))"

lemma encrypt_without_rand_Ok:
  "encrypt_without_rand X nonce decoys b = Ok e \<longleftrightarrow>
     eb_encryption b = ChaCha20Poly1305 \<and> eb_version b = V1 \<and> eb_keys b \<noteq> [] \<and>
     enc_warnings e = eb_warnings b \<and>
     (\<exists>items. ((\<exists>p. eb_payload b = Payload_Encrypt p \<and> eb_content b \<noteq> Content_Unknown \<and> items = [(eb_content b, p)]) \<or>
               eb_payload b = Payload_EncryptMany items) \<and>
        encrypt_chacha20_poly1305_v1_items_with_decoys (ext_crypto X) (eb_derivation_paths b)
          (eb_store_common_paths b) items (map (xonly (ext_backend X)) (eb_keys b)) (eb_padding b) nonce decoys =
        Ok (enc_bytes e))"
  by (cases "eb_payload b"; cases e) (auto simp: encrypt_without_rand_def outcome_simps Let_def)

section \<open>From random to explicit\<close>

lemma padded_decoys:
  assumes "pad_individual_secrets fill s secrets = Ok (ps, s')"
  shows "pad_with_decoys (drop (length secrets) ps) secrets = Ok (ps, ())"
proof -
  from pad_individual_secrets_Ok [OF assms] obtain ds where ps: "ps = secrets @ ds" "decoys_ok secrets ds"
    and b: "doubling_bucket (length secrets) = Ok (length ps)" by (auto simp: padded_with_def)
  with doubling_bucket_Ok [OF b] show ?thesis by (simp add: pad_individual_secrets_with_decoys_eq)
qed

lemma encode_backup_explicit:
  assumes "encode_v1_backup C paths store keys payload nonce (pad_individual_secrets fill s) = Ok (bs, s')"
  shows "\<exists>decoys. encode_v1_backup C paths store keys payload nonce (pad_with_decoys decoys) = Ok (bs, ())"
  using assms padded_decoys [of fill s "real_secrets C keys"] unfolding encode_v1_backup_Ok_iff by blast

section \<open>From explicit to random\<close>

text \<open>A source that plays back a list of buffers.\<close>

fun tape :: "bytes list rng" where
  "tape [] n = ([], [])"
| "tape (bs # t) n = (bs, t)"

lemma pad_loop_tape:
  assumes "decoys_ok secrets decoys"
  shows "run_loop (pad_body tape (length secrets + length decoys)) (secrets, decoys) = Ok (secrets @ decoys, [])"
  using assms
proof (induction decoys arbitrary: secrets)
  case (Cons d decoys)
  from Cons.prems have d: "d \<noteq> ZERO_SECRET" "d \<notin> set secrets" "decoys_ok (secrets @ [d]) decoys"
    by (auto simp: decoys_ok_def)
  from Cons.IH [OF d(3)] d(1,2) show ?case by (subst run_loop_unfold) simp
qed (subst run_loop_unfold, simp)

lemma pad_tape:
  assumes "pad_individual_secrets_with_decoys secrets decoys = Ok ps"
  shows "pad_individual_secrets tape decoys secrets = Ok (ps, [])"
  using assms pad_loop_tape [of secrets decoys]
  by (auto simp: pad_individual_secrets_with_decoys_eq pad_individual_secrets_def split: if_splits)

lemma draw_nonce_tape: "nonce \<noteq> ZERO_NONCE \<Longrightarrow> draw_nonce tape (nonce # t) = (nonce, t)"
  by (simp add: draw_nonce_eq)

lemma encode_backup_tape:
  assumes "encode_v1_backup C paths store keys payload nonce (pad_with_decoys decoys) = Ok (bs, u)"
  shows "nonce \<noteq> ZERO_NONCE \<and>
    encode_v1_backup C paths store keys payload nonce (pad_individual_secrets tape decoys) = Ok (bs, [])"
  using assms pad_tape [of "real_secrets C keys" decoys]
  unfolding encode_v1_backup_Ok_iff by (auto simp: outcome_simps)

section \<open>The routine on items\<close>

lemma items_explicit:
  assumes "encrypt_chacha20_poly1305_v1_items C fill s paths store items keys padding = Ok (bs, s')"
  shows "\<exists>decoys. encrypt_chacha20_poly1305_v1_items_with_decoys C paths store items keys padding
    (fst (draw_nonce fill s)) decoys = Ok bs"
proof -
  from assms obtain payload where p: "build_v1_payload items padding = Ok payload"
    and e: "encode_v1_backup C paths store keys payload (fst (draw_nonce fill s))
      (pad_individual_secrets fill (snd (draw_nonce fill s))) = Ok (bs, s')" unfolding encrypt_items_Ok by blast
  from p encode_backup_explicit [OF e] show ?thesis unfolding encrypt_items_with_decoys_Ok by blast
qed

lemma items_tape:
  assumes "encrypt_chacha20_poly1305_v1_items_with_decoys C paths store items keys padding nonce decoys = Ok bs"
  shows "encrypt_chacha20_poly1305_v1_items C tape (nonce # decoys) paths store items keys padding = Ok (bs, [])"
proof -
  from assms obtain payload where p: "build_v1_payload items padding = Ok payload"
    and e: "encode_v1_backup C paths store keys payload nonce (pad_with_decoys decoys) = Ok (bs, ())"
    unfolding encrypt_items_with_decoys_Ok by blast
  from p encode_backup_tape [OF e] show ?thesis unfolding encrypt_items_Ok by (simp add: draw_nonce_tape)
qed

lemma encrypt_explicit:
  assumes "encrypt X fill s b = Ok (e, s')"
  shows "\<exists>decoys. encrypt_without_rand X (fst (draw_nonce fill s)) decoys b = Ok e"
proof -
  from assms obtain items where
    i: "(\<exists>p. eb_payload b = Payload_Encrypt p \<and> eb_content b \<noteq> Content_Unknown \<and> items = [(eb_content b, p)]) \<or>
      eb_payload b = Payload_EncryptMany items"
    and e: "encrypt_chacha20_poly1305_v1_items (ext_crypto X) fill s (eb_derivation_paths b)
      (eb_store_common_paths b) items (map (xonly (ext_backend X)) (eb_keys b)) (eb_padding b) = Ok (enc_bytes e, s')"
    unfolding encrypt_Ok by blast
  from items_explicit [OF e] obtain decoys where
    "encrypt_chacha20_poly1305_v1_items_with_decoys (ext_crypto X) (eb_derivation_paths b)
      (eb_store_common_paths b) items (map (xonly (ext_backend X)) (eb_keys b)) (eb_padding b)
      (fst (draw_nonce fill s)) decoys = Ok (enc_bytes e)" ..
  with i have "encrypt_without_rand X (fst (draw_nonce fill s)) decoys b = Ok e"
    using assms unfolding encrypt_Ok encrypt_without_rand_Ok by auto
  then show ?thesis ..
qed

lemma encrypt_tape:
  assumes "encrypt_without_rand X nonce decoys b = Ok e"
  shows "encrypt X tape (nonce # decoys) b = Ok (e, [])"
proof -
  from assms obtain items where
    i: "(\<exists>p. eb_payload b = Payload_Encrypt p \<and> eb_content b \<noteq> Content_Unknown \<and> items = [(eb_content b, p)]) \<or>
      eb_payload b = Payload_EncryptMany items"
    and e: "encrypt_chacha20_poly1305_v1_items_with_decoys (ext_crypto X) (eb_derivation_paths b)
      (eb_store_common_paths b) items (map (xonly (ext_backend X)) (eb_keys b)) (eb_padding b) nonce decoys =
      Ok (enc_bytes e)"
    unfolding encrypt_without_rand_Ok by blast
  from i items_tape [OF e] assms show ?thesis unfolding encrypt_Ok encrypt_without_rand_Ok by auto
qed

end
