(* ===== verification/World.thy ===== *)
theory World
  imports Cli
begin

text \<open>
  The files and the terminal that the command line works on: what \<open>src/bin/main.rs\<close> uses of \<open>std::fs\<close>,
  \<open>std::io\<close> and \<open>std::path\<close>. A step takes the world to an outcome and the next world, whatever the
  outcome is. Shown: steps that only print leave the files alone, and the ones that write change one file.
\<close>

section \<open>Worlds\<close>

text \<open>
  What the operating system decides. Several names may denote one file, and a name may denote a file
  that does not exist yet. A write takes as many bytes as there is room for, given what is there; if
  these are not all, \<open>write_all\<close> fails.
\<close>

record 'f system =
  sys_cwd :: "bytes option"
  sys_file :: "bytes \<Rightarrow> 'f option"
  sys_readable :: "'f \<Rightarrow> bool"
  sys_writable :: "'f \<Rightarrow> bool"
  sys_room :: "'f \<Rightarrow> bytes \<Rightarrow> bytes \<Rightarrow> nat"
  sys_stdout :: "bytes \<Rightarrow> bytes \<Rightarrow> nat"
  sys_stderr :: "bytes \<Rightarrow> bytes \<Rightarrow> nat"

record 'f world =
  wo_files :: "'f \<Rightarrow> bytes option"
  wo_stdout :: bytes
  wo_stderr :: bytes

type_synonym ('f, 'a) step = "'f world \<Rightarrow> 'a cli \<times> 'f world"

text \<open>\<open>pure r\<close> is a result that leaves the world alone; \<open>then_step\<close> is \<open>?\<close> between steps.\<close>

definition pure :: "'a cli \<Rightarrow> ('f, 'a) step" where
  "pure r w = (r, w)"

definition then_step :: "('f, 'a) step \<Rightarrow> ('a \<Rightarrow> ('f, 'b) step) \<Rightarrow> ('f, 'b) step" where
  "then_step m f w =
     (case m w of
        (Ok x, w) \<Rightarrow> f x w
      | (Err e, w) \<Rightarrow> (Err e, w)
      | (Panic, w) \<Rightarrow> (Panic, w)
      | (Diverges, w) \<Rightarrow> (Diverges, w))"

section \<open>Paths and files\<close>

text \<open>\<open>PathBuf::push\<close> of a relative name.\<close>

definition path_push :: "bytes \<Rightarrow> bytes \<Rightarrow> bytes" where
  "path_push path name = (if path = [] \<or> last path = 0x2F then path @ name else path @ [0x2F] @ name)"

text \<open>The contents that a read gets, \<open>None\<close> when it fails.\<close>

definition contents :: "'f system \<Rightarrow> 'f world \<Rightarrow> bytes \<Rightarrow> bytes option" where
  "contents S w path =
     (case sys_file S path of
        Some f \<Rightarrow> if sys_readable S f then wo_files w f else None
      | None \<Rightarrow> None)"

definition fs_read :: "'f system \<Rightarrow> bytes \<Rightarrow> ('f, bytes) step" where
  "fs_read S path w = (ok_or ReadError (contents S w path), w)"

definition fs_read_to_string :: "'f system \<Rightarrow> bytes \<Rightarrow> ('f, bytes) step" where
  "fs_read_to_string S path w = (ok_or ReadError (read_to_string (contents S w path)), w)"

definition file_create :: "'f system \<Rightarrow> cli_error \<Rightarrow> bytes \<Rightarrow> ('f, 'f) step" where
  "file_create S e path w =
     (case sys_file S path of
        Some f \<Rightarrow> if sys_writable S f then (Ok f, w\<lparr>wo_files := (wo_files w)(f := Some [])\<rparr>) else (Err e, w)
      | None \<Rightarrow> (Err e, w))"

definition file_append :: "'f system \<Rightarrow> bytes \<Rightarrow> ('f, 'f) step" where
  "file_append S path w =
     (case sys_file S path of
        Some f \<Rightarrow>
          if sys_writable S f
          then (Ok f, w\<lparr>wo_files := (wo_files w)(f := Some (case wo_files w f of Some bs \<Rightarrow> bs | None \<Rightarrow> []))\<rparr>)
          else (Err OpenError, w)
      | None \<Rightarrow> (Err OpenError, w))"

definition write_all :: "'f system \<Rightarrow> 'f \<Rightarrow> bytes \<Rightarrow> ('f, unit) step" where
  "write_all S f bs w =
     (let old = (case wo_files w f of Some bs \<Rightarrow> bs | None \<Rightarrow> []);
          n = sys_room S f old bs in
      (if length bs \<le> n then Ok () else Err WriteError,
       w\<lparr>wo_files := (wo_files w)(f := Some (old @ take n bs))\<rparr>))"

definition fs_write :: "'f system \<Rightarrow> bytes \<Rightarrow> bytes \<Rightarrow> ('f, unit) step" where
  "fs_write S path bs = then_step (file_create S WriteError path) (\<lambda>f. write_all S f bs)"

section \<open>The terminal\<close>

definition stdout_write_all :: "'f system \<Rightarrow> bytes \<Rightarrow> ('f, unit) step" where
  "stdout_write_all S bs w =
     (let n = sys_stdout S (wo_stdout w) bs in
      (if length bs \<le> n then Ok () else Err StdoutError, w\<lparr>wo_stdout := wo_stdout w @ take n bs\<rparr>))"

text \<open>The printing macros panic when their stream fails.\<close>

definition println :: "'f system \<Rightarrow> bytes \<Rightarrow> ('f, unit) step" where
  "println S line w =
     (let bs = line @ [0x0A]; n = sys_stdout S (wo_stdout w) bs in
      (if length bs \<le> n then Ok () else Panic, w\<lparr>wo_stdout := wo_stdout w @ take n bs\<rparr>))"

definition eprintln :: "'f system \<Rightarrow> bytes \<Rightarrow> ('f, unit) step" where
  "eprintln S line w =
     (let bs = line @ [0x0A]; n = sys_stderr S (wo_stderr w) bs in
      (if length bs \<le> n then Ok () else Panic, w\<lparr>wo_stderr := wo_stderr w @ take n bs\<rparr>))"

fun for_each :: "('a \<Rightarrow> ('f, unit) step) \<Rightarrow> 'a list \<Rightarrow> ('f, unit) step" where
  "for_each f [] = pure (Ok ())"
| "for_each f (x # xs) = then_step (f x) (\<lambda>_. for_each f xs)"

text \<open>Lines as they stand in a stream.\<close>

definition text_lines :: "bytes list \<Rightarrow> bytes" where
  "text_lines ls = concat (map (\<lambda>l. l @ [0x0A]) ls)"

text \<open>A line for one of the two streams, for threads whose lines mix with those of others.\<close>

datatype printed = To_Stdout bytes | To_Stderr bytes

fun print_line :: "'f system \<Rightarrow> printed \<Rightarrow> ('f, unit) step" where
  "print_line S (To_Stdout line) = println S line"
| "print_line S (To_Stderr line) = eprintln S line"

section \<open>Lemmas\<close>

lemma pure_eq [simp]: "pure r w = (r, w)"
  by (simp add: pure_def)

named_theorems step_simps \<open>when a chain of steps ends in a given way\<close>

lemma then_step_Ok [step_simps]:
  "then_step m f w = (Ok y, w') \<longleftrightarrow> (\<exists>x v. m w = (Ok x, v) \<and> f x v = (Ok y, w'))"
  by (auto simp: then_step_def split: prod.splits outcome.splits)

lemma then_step_here [simp]: "m w = (Ok x, v) \<Longrightarrow> then_step m f w = f x v"
  by (simp add: then_step_def)

lemma then_step_pure [simp]: "then_step (pure (Ok x)) f w = f x w"
  by simp

lemma then_step_pure_Err [simp]: "then_step (pure (Err e)) f w = (Err e, w)"
  by (simp add: then_step_def)

lemma then_step_assoc: "then_step (then_step m f) g = then_step m (\<lambda>x. then_step (f x) g)"
  by (rule ext) (simp add: then_step_def split: prod.split outcome.split)

lemma then_pure: "then_step (pure (Ok x)) f = f x"
  by (rule ext) simp

lemma pure_then_pure: "then_step m (\<lambda>x. pure (Ok x)) = m"
  by (rule ext) (simp add: then_step_def split: prod.split outcome.split)

lemma text_lines_simps [simp]:
  "text_lines [] = []" "text_lines (l # ls) = l @ 0x0A # text_lines ls"
  by (simp_all add: text_lines_def)

lemma text_lines_append [simp]: "text_lines (ls @ ls') = text_lines ls @ text_lines ls'"
  by (simp add: text_lines_def)

lemma println_Ok_iff:
  "println S line w = (Ok u, w') \<longleftrightarrow>
     length line < sys_stdout S (wo_stdout w) (line @ [0x0A]) \<and> w' = w\<lparr>wo_stdout := wo_stdout w @ line @ [0x0A]\<rparr>"
  by (auto simp: println_def Let_def)

lemma eprintln_Ok_iff:
  "eprintln S line w = (Ok u, w') \<longleftrightarrow>
     length line < sys_stderr S (wo_stderr w) (line @ [0x0A]) \<and> w' = w\<lparr>wo_stderr := wo_stderr w @ line @ [0x0A]\<rparr>"
  by (auto simp: eprintln_def Let_def)

text \<open>Lines that are printed without a panic are there in full.\<close>

lemma println_all:
  "for_each (\<lambda>x. println S (f x)) xs w = (Ok (), w') \<Longrightarrow> w' = w\<lparr>wo_stdout := wo_stdout w @ text_lines (map f xs)\<rparr>"
  by (induction xs arbitrary: w) (fastforce simp: step_simps println_Ok_iff)+

lemma eprintln_all:
  "for_each (\<lambda>x. eprintln S (f x)) xs w = (Ok (), w') \<Longrightarrow> w' = w\<lparr>wo_stderr := wo_stderr w @ text_lines (map f xs)\<rparr>"
  by (induction xs arbitrary: w) (fastforce simp: step_simps eprintln_Ok_iff)+

lemma for_each_append: "for_each f (xs @ ys) = then_step (for_each f xs) (\<lambda>_. for_each f ys)"
  by (induction xs) (simp_all add: then_pure then_step_assoc)

text \<open>
  What a step may do, whatever its outcome: a relation between the worlds before and after. One that is
  reflexive and transitive is kept along chains.
\<close>

definition keeps :: "('f world \<Rightarrow> 'f world \<Rightarrow> bool) \<Rightarrow> ('f, 'a) step \<Rightarrow> bool" where
  "keeps R m \<longleftrightarrow> (\<forall>w. R w (snd (m w)))"

definition same_files :: "'f world \<Rightarrow> 'f world \<Rightarrow> bool" where
  "same_files w w' \<longleftrightarrow> wo_files w' = wo_files w"

definition other_files :: "'f option \<Rightarrow> 'f world \<Rightarrow> 'f world \<Rightarrow> bool" where
  "other_files t w w' \<longleftrightarrow> (\<forall>f. Some f \<noteq> t \<longrightarrow> wo_files w' f = wo_files w f)"

definition output_grows :: "'f world \<Rightarrow> 'f world \<Rightarrow> bool" where
  "output_grows w w' \<longleftrightarrow> (\<exists>out err. wo_stdout w' = wo_stdout w @ out \<and> wo_stderr w' = wo_stderr w @ err)"

locale step_relation =
  fixes R :: "'f world \<Rightarrow> 'f world \<Rightarrow> bool"
  assumes R_refl: "R w w"
    and R_trans: "R w w' \<Longrightarrow> R w' w'' \<Longrightarrow> R w w''"
begin

lemma keeps_pure: "keeps R (pure r)"
  by (simp add: keeps_def R_refl)

lemma keeps_then:
  assumes "keeps R m" "\<And>x. keeps R (f x)"
  shows "keeps R (then_step m f)"
  unfolding keeps_def
proof
  fix w
  obtain r v where m: "m w = (r, v)" by fastforce
  with assms(1) have "R w v" unfolding keeps_def by (metis snd_conv)
  then show "R w (snd (then_step m f w))"
    using assms(2) R_trans [OF \<open>R w v\<close>] by (cases r) (simp_all add: then_step_def m keeps_def)
qed

lemma keeps_pure_then: "(\<And>x. r = Ok x \<Longrightarrow> keeps R (f x)) \<Longrightarrow> keeps R (then_step (pure r) f)"
  by (cases r) (simp_all add: keeps_def then_step_def R_refl)

lemma keeps_for_each: "(\<And>x. keeps R (f x)) \<Longrightarrow> keeps R (for_each f xs)"
  by (induction xs) (simp_all add: keeps_pure keeps_then)

lemmas keeps_chain = keeps_pure keeps_pure_then keeps_then keeps_for_each

end

interpretation sf: step_relation same_files
  by unfold_locales (simp_all add: same_files_def)

interpretation ot: step_relation "other_files t" for t
  by unfold_locales (simp_all add: other_files_def)

interpretation og: step_relation output_grows
  by unfold_locales (auto simp: output_grows_def)

lemma same_other: "keeps same_files m \<Longrightarrow> keeps (other_files t) m"
  by (simp add: keeps_def same_files_def other_files_def)

lemma same_files_steps:
  "keeps same_files (println S line)" "keeps same_files (eprintln S line)" "keeps same_files (stdout_write_all S bs)"
  "keeps same_files (fs_read S path)" "keeps same_files (fs_read_to_string S path)"
  by (simp_all add: keeps_def same_files_def println_def eprintln_def stdout_write_all_def fs_read_def
      fs_read_to_string_def Let_def)

lemma print_line_keeps: "keeps same_files (print_line S l)"
  by (cases l) (simp_all add: same_files_steps)

lemma lines_keep_files: "wo_files (snd (for_each (print_line S) ls w)) = wo_files w"
  using sf.keeps_for_each [of "print_line S" ls, OF print_line_keeps] by (simp add: keeps_def same_files_def)

lemma other_files_steps:
  "keeps (other_files (sys_file S path)) (file_create S e path)"
  "keeps (other_files (sys_file S path)) (file_append S path)"
  "keeps (other_files (Some f)) (write_all S f bs)"
  by (auto simp: keeps_def other_files_def file_create_def file_append_def write_all_def Let_def split: option.split)

lemma output_grows_steps:
  "keeps output_grows (println S line)" "keeps output_grows (eprintln S line)"
  "keeps output_grows (stdout_write_all S bs)" "keeps output_grows (fs_read S path)"
  "keeps output_grows (fs_read_to_string S path)" "keeps output_grows (file_create S e path)"
  "keeps output_grows (file_append S path)" "keeps output_grows (write_all S f bs)"
  by (auto simp: keeps_def output_grows_def println_def eprintln_def stdout_write_all_def fs_read_def
      fs_read_to_string_def file_create_def file_append_def write_all_def Let_def split: option.split)

text \<open>The file that is created is the one the path names.\<close>

lemma file_create_Ok:
  "file_create S e path w = (Ok f, w') \<longleftrightarrow>
     sys_file S path = Some f \<and> sys_writable S f \<and> w' = w\<lparr>wo_files := (wo_files w)(f := Some [])\<rparr>"
  by (auto simp: file_create_def split: option.split)

lemma file_append_Ok:
  "file_append S path w = (Ok f, w') \<longleftrightarrow>
     sys_file S path = Some f \<and> sys_writable S f \<and>
     w' = w\<lparr>wo_files := (wo_files w)(f := Some (case wo_files w f of Some bs \<Rightarrow> bs | None \<Rightarrow> []))\<rparr>"
  by (auto simp: file_append_def split: option.split)

lemma other_files_fs_write: "keeps (other_files (sys_file S path)) (fs_write S path bs)"
  unfolding keeps_def
proof
  fix w
  show "other_files (sys_file S path) w (snd (fs_write S path bs w))"
  proof (cases "sys_file S path")
    case (Some f)
    then show ?thesis
      by (auto simp: fs_write_def then_step_def file_create_def write_all_def other_files_def Let_def)
  qed (simp add: fs_write_def then_step_def file_create_def other_files_def)
qed

lemma fs_write_Ok:
  "fs_write S path bs w = (Ok (), w') \<longleftrightarrow>
     (\<exists>f. sys_file S path = Some f \<and> sys_writable S f \<and> length bs \<le> sys_room S f [] bs \<and>
       w' = w\<lparr>wo_files := (wo_files w)(f := Some bs)\<rparr>)"
  by (auto simp: fs_write_def step_simps file_create_Ok write_all_def Let_def split: if_splits)

end
