(* ===== verification/Device_List.thy ===== *)
theory Device_List
  imports World
begin

text \<open>
  Enumerating signing devices (\<open>list\<close> of \<open>src/signing_devices.rs\<close>, on a system that is neither macOS nor
  Windows). What the device library and the operating system answer is a record of their answers; the
  order of the calls, what is skipped, what is printed and what fails is the code's. Shown: exactly which
  devices are found and which lines are printed, and that one BitBox02 without a home directory hides all
  other devices.
\<close>

section \<open>Answers of the library and the system\<close>

datatype list_error = HidError | HomeNotSet | CacheDirError | CacheNotUtf8

datatype jade_state = Jade_Locked | Jade_Other

text \<open>
  \<open>with_network\<close> is the argument of the functions that give a device. \<open>jade_auth\<close> is the error of unlocking,
  as it is printed, if it fails; so is the left side of \<open>lib_jades\<close> for the enumeration.
\<close>

record ('h, 'x) jade_unit =
  jade_device :: "network \<Rightarrow> ('h, 'x) device"
  jade_info :: "network \<Rightarrow> jade_state option"
  jade_auth :: "network \<Rightarrow> bytes option"

record ('h, 'x, 'i, 'p, 'l) device_library =
  lib_specter_simulator :: "('h, 'x) device option"
  lib_specters :: "('h, 'x) device list option"
  lib_jades :: "bytes + ('h, 'x) jade_unit list"
  lib_ledger_simulator :: "('h, 'x) device option"
  lib_hid :: "'i list option"
  lib_is_bitbox :: "'i \<Rightarrow> bool"
  lib_open :: "'i \<Rightarrow> bool"
  lib_pair :: "'i \<Rightarrow> bytes \<Rightarrow> 'p option"
  lib_confirm :: "'p \<Rightarrow> (network \<Rightarrow> ('h, 'x) device) option"
  lib_vendor_id :: "'i \<Rightarrow> u16"
  lib_product_id :: "'i \<Rightarrow> u16"
  lib_coinkite_vid :: u16
  lib_ckcc_pid :: u16
  lib_serial_number :: "'i \<Rightarrow> bytes option"
  lib_coldcard_open :: "bytes \<Rightarrow> ('h, 'x) device option"
  lib_ledgers :: "'l list"
  lib_ledger_connect :: "'l \<Rightarrow> ('h, 'x) device option"

record environment =
  env_home :: "bytes option"
  env_create_dir_all :: "bytes \<Rightarrow> bool"

section \<open>Operations\<close>

definition home_dir :: "environment \<Rightarrow> (list_error, bytes) outcome" where
  "home_dir E = ok_or HomeNotSet (env_home E)"

definition bitbox_pairing_cache_dir :: "environment \<Rightarrow> (list_error, bytes) outcome" where
  "bitbox_pairing_cache_dir E = andThen (home_dir E) (\<lambda>home. Ok (path_push home (ascii ''.bip138'')))"

definition list_jade :: "network \<Rightarrow> ('h, 'x) jade_unit \<Rightarrow> ('h, 'x) device list" where
  "list_jade network jade =
     (case jade_info jade network of
        Some info \<Rightarrow>
          if info = Jade_Locked \<and> jade_auth jade network \<noteq> None then [] else [jade_device jade network]
      | None \<Rightarrow> [])"

text \<open>The part of the loop over HID devices that is about a BitBox02, and the one about a Coldcard.\<close>

definition list_bitbox ::
  "('h, 'x, 'i, 'p, 'l) device_library \<Rightarrow> environment \<Rightarrow> network \<Rightarrow> 'i \<Rightarrow> ('h, 'x) device list \<Rightarrow>
   (list_error, ('h, 'x) device list) outcome" where
  "list_bitbox L E network info hws =
     (if lib_is_bitbox L info \<and> lib_open L info then
        andThen (bitbox_pairing_cache_dir E) (\<lambda>cache_dir.
        andThen (guard (\<not> env_create_dir_all E cache_dir) CacheDirError) (\<lambda>_.
        andThen (guard (\<not> utf8_valid cache_dir) CacheNotUtf8) (\<lambda>_.
        Ok (case lib_pair L info cache_dir of
              Some pairing \<Rightarrow>
                (case lib_confirm L pairing of Some dev \<Rightarrow> hws @ [dev network] | None \<Rightarrow> hws)
            | None \<Rightarrow> hws))))
      else Ok hws)"

definition list_coldcard :: "('h, 'x, 'i, 'p, 'l) device_library \<Rightarrow> 'i \<Rightarrow> ('h, 'x) device list \<Rightarrow> ('h, 'x) device list" where
  "list_coldcard L info hws =
     (if lib_vendor_id L info = lib_coinkite_vid L \<and> lib_product_id L info = lib_ckcc_pid L then
        (case lib_serial_number L info of
           Some sn \<Rightarrow> (case lib_coldcard_open L sn of Some cc \<Rightarrow> hws @ [cc] | None \<Rightarrow> hws)
         | None \<Rightarrow> hws)
      else hws)"

fun list_hid ::
  "('h, 'x, 'i, 'p, 'l) device_library \<Rightarrow> environment \<Rightarrow> network \<Rightarrow> 'i list \<Rightarrow> ('h, 'x) device list \<Rightarrow>
   (list_error, ('h, 'x) device list) outcome" where
  "list_hid L E network [] hws = Ok hws"
| "list_hid L E network (info # infos) hws =
     andThen (list_bitbox L E network info hws) (\<lambda>hws. list_hid L E network infos (list_coldcard L info hws))"

fun list_ledgers ::
  "('h, 'x, 'i, 'p, 'l) device_library \<Rightarrow> 'l list \<Rightarrow> ('h, 'x) device list \<Rightarrow> ('h, 'x) device list" where
  "list_ledgers L [] hws = hws"
| "list_ledgers L (detected # ls) hws =
     list_ledgers L ls (case lib_ledger_connect L detected of Some dev \<Rightarrow> hws @ [dev] | None \<Rightarrow> hws)"

text \<open>What \<open>list\<close> returns when it gets that far; with what it prints on the way it follows below.\<close>

definition list_devices ::
  "('h, 'x, 'i, 'p, 'l) device_library \<Rightarrow> environment \<Rightarrow> network \<Rightarrow> (list_error, ('h, 'x) device list) outcome" where
  "list_devices L E network =
     (let hws = (case lib_specter_simulator L of Some dev \<Rightarrow> [dev] | None \<Rightarrow> []);
          hws = (case lib_specters L of Some devs \<Rightarrow> hws @ devs | None \<Rightarrow> hws);
          hws = (case lib_jades L of Inr jades \<Rightarrow> fold (\<lambda>jade hws. hws @ list_jade network jade) jades hws | Inl e \<Rightarrow> hws);
          hws = (case lib_ledger_simulator L of Some dev \<Rightarrow> hws @ [dev] | None \<Rightarrow> hws) in
      andThen (ok_or HidError (lib_hid L)) (\<lambda>infos.
      andThen (list_hid L E network infos hws) (\<lambda>hws.
      Ok (list_ledgers L (lib_ledgers L) hws))))"

text \<open>
  \<open>list\<close> with its output: the error of an enumeration of Jades goes to standard output, that of unlocking one
  to standard error. Only the printing can panic.
\<close>

definition list_jade_step :: "'f system \<Rightarrow> network \<Rightarrow> ('h, 'x) jade_unit \<Rightarrow> ('h, 'x) device list \<Rightarrow> ('f, ('h, 'x) device list) step" where
  "list_jade_step S network jade hws =
     (case jade_info jade network of
        Some info \<Rightarrow>
          if info = Jade_Locked then
            (case jade_auth jade network of
               Some e \<Rightarrow> then_step (eprintln S (ascii ''auth '' @ e)) (\<lambda>_. pure (Ok hws))
             | None \<Rightarrow> pure (Ok (hws @ [jade_device jade network])))
          else pure (Ok (hws @ [jade_device jade network]))
      | None \<Rightarrow> pure (Ok hws))"

fun list_jades :: "'f system \<Rightarrow> network \<Rightarrow> ('h, 'x) jade_unit list \<Rightarrow> ('h, 'x) device list \<Rightarrow> ('f, ('h, 'x) device list) step" where
  "list_jades S network [] hws = pure (Ok hws)"
| "list_jades S network (jade # jades) hws =
     then_step (list_jade_step S network jade hws) (\<lambda>hws. list_jades S network jades hws)"

definition list_devices_step ::
  "'f system \<Rightarrow> ('h, 'x, 'i, 'p, 'l) device_library \<Rightarrow> environment \<Rightarrow> network \<Rightarrow>
   ('f, (list_error, ('h, 'x) device list) outcome) step" where
  "list_devices_step S L E network =
     (let hws = (case lib_specter_simulator L of Some dev \<Rightarrow> [dev] | None \<Rightarrow> []);
          hws = (case lib_specters L of Some devs \<Rightarrow> hws @ devs | None \<Rightarrow> hws) in
      then_step (case lib_jades L of
          Inl e \<Rightarrow> then_step (println S e) (\<lambda>_. pure (Ok hws))
        | Inr jades \<Rightarrow> list_jades S network jades hws) (\<lambda>hws.
      let hws = (case lib_ledger_simulator L of Some dev \<Rightarrow> hws @ [dev] | None \<Rightarrow> hws) in
      pure (Ok (
        andThen (ok_or HidError (lib_hid L)) (\<lambda>infos.
        andThen (list_hid L E network infos hws) (\<lambda>hws.
        Ok (list_ledgers L (lib_ledgers L) hws)))))))"

text \<open>What the callers use: \<open>if let Ok(devices) = list(network)\<close>.\<close>

definition found_devices ::
  "('h, 'x, 'i, 'p, 'l) device_library \<Rightarrow> environment \<Rightarrow> network \<Rightarrow> ('h, 'x) device list option" where
  "found_devices L E network = (case list_devices L E network of Ok devices \<Rightarrow> Some devices | _ \<Rightarrow> None)"

section \<open>Which devices are found\<close>

text \<open>The cache directory as the loop gets it, and the devices an entry stands for, given that directory.\<close>

definition cache_dir :: "environment \<Rightarrow> (list_error, bytes) outcome" where
  "cache_dir E =
     andThen (bitbox_pairing_cache_dir E) (\<lambda>dir.
     if \<not> env_create_dir_all E dir then Err CacheDirError
     else if \<not> utf8_valid dir then Err CacheNotUtf8 else Ok dir)"

definition paired :: "('h, 'x, 'i, 'p, 'l) device_library \<Rightarrow> bytes \<Rightarrow> network \<Rightarrow> 'i \<Rightarrow> ('h, 'x) device list" where
  "paired L dir network info =
     (case Option.bind (lib_pair L info dir) (lib_confirm L) of Some dev \<Rightarrow> [dev network] | None \<Rightarrow> [])"

definition coldcard_at :: "('h, 'x, 'i, 'p, 'l) device_library \<Rightarrow> 'i \<Rightarrow> ('h, 'x) device list" where
  "coldcard_at L info =
     (case Option.bind (lib_serial_number L info) (lib_coldcard_open L) of
        Some cc \<Rightarrow> if (lib_vendor_id L info, lib_product_id L info) = (lib_coinkite_vid L, lib_ckcc_pid L) then [cc] else []
      | None \<Rightarrow> [])"

definition hid_devices ::
  "('h, 'x, 'i, 'p, 'l) device_library \<Rightarrow> environment \<Rightarrow> network \<Rightarrow> 'i \<Rightarrow> ('h, 'x) device list" where
  "hid_devices L E network info =
     (if lib_is_bitbox L info \<and> lib_open L info
      then (case cache_dir E of Ok dir \<Rightarrow> paired L dir network info | _ \<Rightarrow> []) else []) @
     coldcard_at L info"

lemma cache_dir_returns: "cache_dir E \<noteq> Panic" "cache_dir E \<noteq> Diverges"
  by (simp_all add: cache_dir_def bitbox_pairing_cache_dir_def home_dir_def outcome_simps)

lemma cache_dir_cases: obtains (ok) dir where "cache_dir E = Ok dir" | (err) e where "cache_dir E = Err e"
  using cache_dir_returns [of E] by (cases "cache_dir E") auto

lemma list_coldcard_eq: "list_coldcard L info hws = hws @ coldcard_at L info"
  by (simp add: list_coldcard_def coldcard_at_def split: option.split)

lemma list_bitbox_eq:
  "list_bitbox L E network info hws =
     (if lib_is_bitbox L info \<and> lib_open L info
      then andThen (cache_dir E) (\<lambda>dir. Ok (hws @ paired L dir network info)) else Ok hws)"
  by (cases "env_home E")
    (auto simp: list_bitbox_def cache_dir_def bitbox_pairing_cache_dir_def home_dir_def paired_def guard_def
      split: option.split)

lemma list_hid_eq:
  "list_hid L E network infos hws =
     (if (\<exists>info \<in> set infos. lib_is_bitbox L info \<and> lib_open L info) \<and> (\<exists>e. cache_dir E = Err e)
      then andThen (cache_dir E) (\<lambda>_. Ok []) else Ok (hws @ concat (map (hid_devices L E network) infos)))"
proof (induction infos arbitrary: hws)
  case (Cons info infos)
  show ?case
    by (cases rule: cache_dir_cases [of E])
      (simp_all add: list_bitbox_eq Cons.IH hid_devices_def [of L E network info] list_coldcard_eq)
qed simp

lemma list_ledgers_eq: "list_ledgers L ls hws = hws @ List.map_filter (lib_ledger_connect L) ls"
  by (induction ls arbitrary: hws) (simp_all add: map_filter_simps split: option.split)

lemma fold_collected: "fold (\<lambda>x acc. acc @ f x) xs acc = acc @ concat (map f xs)"
  by (induction xs arbitrary: acc) simp_all

text \<open>A Jade that can be used, and one that stays locked.\<close>

definition usable_jade :: "network \<Rightarrow> ('h, 'x) jade_unit \<Rightarrow> bool" where
  "usable_jade network jade \<longleftrightarrow>
     jade_info jade network = Some Jade_Other \<or>
     jade_info jade network = Some Jade_Locked \<and> jade_auth jade network = None"

definition refusing_jade :: "network \<Rightarrow> ('h, 'x) jade_unit \<Rightarrow> bool" where
  "refusing_jade network jade \<longleftrightarrow> jade_info jade network = Some Jade_Locked \<and> jade_auth jade network \<noteq> None"

definition early_devices :: "('h, 'x, 'i, 'p, 'l) device_library \<Rightarrow> network \<Rightarrow> ('h, 'x) device list" where
  "early_devices L network =
     (case lib_specter_simulator L of Some dev \<Rightarrow> [dev] | None \<Rightarrow> []) @
     (case lib_specters L of Some devs \<Rightarrow> devs | None \<Rightarrow> []) @
     (case lib_jades L of Inr jades \<Rightarrow> map (\<lambda>jade. jade_device jade network) (filter (usable_jade network) jades) | Inl e \<Rightarrow> []) @
     (case lib_ledger_simulator L of Some dev \<Rightarrow> [dev] | None \<Rightarrow> [])"

definition list_lines :: "('h, 'x, 'i, 'p, 'l) device_library \<Rightarrow> network \<Rightarrow> printed list" where
  "list_lines L network =
     (case lib_jades L of
        Inl e \<Rightarrow> [To_Stdout e]
      | Inr jades \<Rightarrow>
          map (\<lambda>jade. To_Stderr (ascii ''auth '' @ the (jade_auth jade network))) (filter (refusing_jade network) jades))"

lemma list_jade_eq: "list_jade network jade = (if usable_jade network jade then [jade_device jade network] else [])"
proof (cases "jade_info jade network")
  case (Some info)
  then show ?thesis by (cases info) (auto simp: list_jade_def usable_jade_def)
qed (simp add: list_jade_def usable_jade_def)

lemma concat_jades:
  "concat (map (list_jade network) jades) = map (\<lambda>jade. jade_device jade network) (filter (usable_jade network) jades)"
  by (induction jades) (simp_all add: list_jade_eq)

lemma list_jade_step_eq:
  "list_jade_step S network jade hws =
     (if refusing_jade network jade
      then then_step (eprintln S (ascii ''auth '' @ the (jade_auth jade network))) (\<lambda>_. pure (Ok hws))
      else pure (Ok (hws @ list_jade network jade)))"
  by (auto simp: list_jade_step_def list_jade_def refusing_jade_def split: option.split)

lemma refusing_unusable: "refusing_jade network jade \<Longrightarrow> list_jade network jade = []"
  by (auto simp: refusing_jade_def list_jade_def)

lemma list_jades_eq:
  "list_jades S network jades hws =
     then_step (for_each (print_line S)
         (map (\<lambda>jade. To_Stderr (ascii ''auth '' @ the (jade_auth jade network))) (filter (refusing_jade network) jades)))
       (\<lambda>_. pure (Ok (hws @ concat (map (list_jade network) jades))))"
  by (induction jades arbitrary: hws)
    (simp_all add: list_jade_step_eq refusing_unusable then_pure then_step_assoc del: pure_eq)

lemma list_devices_eq:
  "list_devices L E network =
     andThen (ok_or HidError (lib_hid L)) (\<lambda>infos.
     andThen (list_hid L E network infos (early_devices L network)) (\<lambda>hws.
     Ok (list_ledgers L (lib_ledgers L) hws)))"
  unfolding list_devices_def early_devices_def Let_def
  by (simp add: fold_collected concat_jades split: option.split sum.split)

lemma list_devices_step_eq:
  "list_devices_step S L E network =
     then_step (for_each (print_line S) (list_lines L network)) (\<lambda>_. pure (Ok (list_devices L E network)))"
  by (cases "lib_jades L")
    (simp_all add: list_devices_step_def list_devices_def list_lines_def list_jades_eq fold_collected then_pure
      then_step_assoc pure_then_pure Let_def del: pure_eq)

definition needs_cache :: "('h, 'x, 'i, 'p, 'l) device_library \<Rightarrow> 'i list \<Rightarrow> bool" where
  "needs_cache L infos = list_ex (\<lambda>info. lib_is_bitbox L info \<and> lib_open L info) infos"

text \<open>
  C20. Exactly these devices are found: the Specter simulator, the Specters, the Jades that tell their state
  and that are unlocked or can be, the Ledger simulator, then per HID entry a BitBox02 that pairs and, if
  both its vendor and its product are Coinkite's, a Coldcard that opens, and the Ledgers that connect, in
  this order; devices that refuse are skipped. The list fails without a HID interface, and also, for all
  devices, when there is a BitBox02 to open and no place for its pairing cache. Before that it prints: an
  enumeration of Jades that fails goes to standard output, every Jade that stays locked to standard
  error.
\<close>

theorem list_devices_exact:
  "list_devices_step S L E network =
     then_step (for_each (print_line S) (list_lines L network)) (\<lambda>_. pure (Ok (list_devices L E network))) \<and>
   list_devices L E network =
     andThen (ok_or HidError (lib_hid L)) (\<lambda>infos.
     andThen (if needs_cache L infos then cache_dir E else Ok []) (\<lambda>_.
     Ok (early_devices L network @ concat (map (hid_devices L E network) infos) @
       List.map_filter (lib_ledger_connect L) (lib_ledgers L))))"
proof
  show "list_devices L E network =
     andThen (ok_or HidError (lib_hid L)) (\<lambda>infos.
     andThen (if needs_cache L infos then cache_dir E else Ok []) (\<lambda>_.
     Ok (early_devices L network @ concat (map (hid_devices L E network) infos) @
       List.map_filter (lib_ledger_connect L) (lib_ledgers L))))"
  proof (cases "lib_hid L")
    case (Some infos)
    have n: "(\<exists>info \<in> set infos. lib_is_bitbox L info \<and> lib_open L info) \<longleftrightarrow> needs_cache L infos"
      by (simp add: needs_cache_def list_ex_iff)
    show ?thesis
      by (cases rule: cache_dir_cases [of E])
        (simp_all add: list_devices_eq list_hid_eq n list_ledgers_eq Some)
  qed (simp add: list_devices_eq)
qed (rule list_devices_step_eq)

text \<open>
  C21. One BitBox02 hides all devices when there is no home directory: the enumeration fails, and the
  callers, which take a failed enumeration for an empty one, collect nothing and report nothing, whatever
  else is plugged in.
\<close>

theorem bitbox_hides_devices:
  assumes "lib_hid L = Some infos" "info \<in> set infos" "lib_is_bitbox L info" "lib_open L info" "env_home E = None"
  shows "list_devices L E network = Err HomeNotSet \<and>
    collect_until c (found_devices L E network) K h = (Ok \<lparr>xc_xpubs = [], xc_warnings = []\<rparr>, h)"
proof -
  have "cache_dir E = Err HomeNotSet" using assms(5) by (simp add: cache_dir_def bitbox_pairing_cache_dir_def home_dir_def)
  moreover have "\<exists>info \<in> set infos. lib_is_bitbox L info \<and> lib_open L info" using assms(2-4) by blast
  ultimately have "list_devices L E network = Err HomeNotSet"
    using assms(1) by (simp add: list_devices_eq list_hid_eq)
  then show ?thesis by (simp add: found_devices_def collect_until_def)
qed

text \<open>A Ledger that answers, next to a BitBox02.\<close>

definition listed_ledger :: "(unit, u8) device" where
  "listed_ledger = \<lparr>dev_kind = Ledger, dev_display = (\<lambda>h b. h), dev_call = (\<lambda>h p limit. (Received (Ok 9), h)),
     dev_fingerprint = (\<lambda>h. (Ok 0, h)), dev_unexpected = (\<lambda>s. s)\<rparr>"

definition sample_library :: "(unit, u8, bool, unit, unit) device_library" where
  "sample_library =
     \<lparr>lib_specter_simulator = None, lib_specters = None, lib_jades = Inr [], lib_ledger_simulator = None,
      lib_hid = Some [True, False], lib_is_bitbox = (\<lambda>b. b), lib_open = (\<lambda>b. True), lib_pair = (\<lambda>i d. Some ()),
      lib_confirm = (\<lambda>p. Some (\<lambda>network. listed_ledger\<lparr>dev_kind := BitBox02\<rparr>)), lib_vendor_id = (\<lambda>i. 1),
      lib_product_id = (\<lambda>i. 1), lib_coinkite_vid = 2, lib_ckcc_pid = 2, lib_serial_number = (\<lambda>i. None),
      lib_coldcard_open = (\<lambda>s. None), lib_ledgers = [()], lib_ledger_connect = (\<lambda>l. Some listed_ledger)\<rparr>"

theorem bitbox_hides_devices_witness:
  "list_devices sample_library \<lparr>env_home = None, env_create_dir_all = (\<lambda>d. True)\<rparr> Bitcoin = Err HomeNotSet \<and>
   list_devices (sample_library\<lparr>lib_hid := Some []\<rparr>) \<lparr>env_home = None, env_create_dir_all = (\<lambda>d. True)\<rparr> Bitcoin =
     Ok [listed_ledger]"
proof
  show "list_devices sample_library \<lparr>env_home = None, env_create_dir_all = (\<lambda>d. True)\<rparr> Bitcoin = Err HomeNotSet"
    using bitbox_hides_devices [of sample_library "[True, False]" True] by (simp add: sample_library_def)
  show "list_devices (sample_library\<lparr>lib_hid := Some []\<rparr>) \<lparr>env_home = None, env_create_dir_all = (\<lambda>d. True)\<rparr> Bitcoin =
      Ok [listed_ledger]"
    by (simp add: list_devices_def sample_library_def)
qed

end
