(* ===== verification/Main_Command.thy ===== *)
theory Main_Command
  imports Device_List Decrypt_Threads
begin

text \<open>
  The program as a whole (\<open>parse_cli\<close> and \<open>main\<close> of \<open>src/bin/main.rs\<close>): arguments, default file names, what
  each command reads, prints and writes, in the order of the code. \<open>main_command\<close> is a build without
  signing devices; of a build with them, the decrypt command is a relation, since its threads may end in
  several ways, and the fetch command a function of what the device gave. Shown: what may happen to the
  files in a run that fails, that a written backup can be read back by the next run, and what the
  default names do.
\<close>

section \<open>Arguments\<close>

datatype command =
    Command_Encrypt "bytes option" "bytes option" "bytes option"
  | Command_Decrypt "bytes option" "bytes option"
  | Command_Inspect "bytes option"

record cli_args =
  ca_command :: command
  ca_output :: "bytes option"

text \<open>
  \<open>clap\<close> turns arguments into a command, or prints its message and exits, which is \<open>None\<close>. Arguments on
  standard input follow those of the command line.
\<close>

definition parse_cli ::
  "(bytes list \<Rightarrow> cli_args option) \<Rightarrow> bytes list \<Rightarrow> bool \<Rightarrow> bytes list cli option \<Rightarrow> cli_args option cli" where
  "parse_cli clap args is_terminal delivered =
     andThen (if is_terminal then Ok [] else read_args_within delivered) (\<lambda>piped.
     Ok (clap (args @ piped)))"

text \<open>Printers of other crates: paths, keys, the quoted form of a file name, JSON.\<close>

record ('pk, 'x) printers =
  pr_path :: "deriv_path \<Rightarrow> bytes"
  pr_dpk :: "('pk, 'x) dpk \<Rightarrow> bytes"
  pr_pk :: "'pk \<Rightarrow> bytes"
  pr_quoted :: "bytes \<Rightarrow> bytes"
  pr_json :: "inspection \<Rightarrow> bytes option"

section \<open>Parts of the commands\<close>

definition path_or_default :: "'f system \<Rightarrow> bytes option \<Rightarrow> string \<Rightarrow> bytes cli" where
  "path_or_default S given name =
     (case given of
        Some path \<Rightarrow> Ok path
      | None \<Rightarrow> andThen (ok_or CwdError (sys_cwd S)) (\<lambda>path. Ok (path_push path (ascii name))))"

fun warning_text :: "('pk, 'x) printers \<Rightarrow> ('pk, ('pk, 'x) dpk) warning \<Rightarrow> bytes" where
  "warning_text T (DisallowedKeyExpression k) =
     ascii ''warning: disallowed key expression excluded from encryption-key set: '' @ pr_dpk T k @
     ascii ''; the cosigner holding this key cannot decrypt the backup with their key''"
| "warning_text T (NumsKey k) =
     ascii ''warning: BIP341 NUMS key excluded from encryption-key set: '' @ pr_dpk T k"
| "warning_text T (ExposedRoot k) =
     ascii ''warning: key root exposed on chain by a literal key or bare xpub, excluded from encryption-key set: '' @
     pr_pk T k @ ascii ''; its holder cannot decrypt the backup with this key''"

definition print_warnings ::
  "'f system \<Rightarrow> ('pk, 'x) printers \<Rightarrow> ('pk, ('pk, 'x) dpk) warning list \<Rightarrow> ('f, unit) step" where
  "print_warnings S T warnings = for_each (\<lambda>w. eprintln S (warning_text T w)) warnings"

text \<open>What encrypt does with the bytes of a backup.\<close>

definition write_backup :: "'f system \<Rightarrow> ('pk, 'x) printers \<Rightarrow> bytes \<Rightarrow> bytes \<Rightarrow> ('f, unit) step" where
  "write_backup S T output_path bs =
     then_step (file_create S CreateError output_path) (\<lambda>output.
     then_step (write_all S output bs) (\<lambda>_.
     println S (ascii ''descriptor written to '' @ pr_quoted T output_path)))"

text \<open>What decrypt does with a document.\<close>

definition write_document :: "'f system \<Rightarrow> ('pk, 'x) printers \<Rightarrow> bytes option \<Rightarrow> bytes \<Rightarrow> ('f, unit) step" where
  "write_document S T output document =
     (case output of
        Some path \<Rightarrow>
          then_step (fs_write S path document) (\<lambda>_.
          println S (ascii ''descriptor written to '' @ pr_quoted T path))
      | None \<Rightarrow> stdout_write_all S document)"

definition write_json :: "'f system \<Rightarrow> bytes option \<Rightarrow> bytes \<Rightarrow> ('f, unit) step" where
  "write_json S output json =
     (case output of
        Some path \<Rightarrow> fs_write S path (json @ [0x0A])
      | None \<Rightarrow> println S json)"

section \<open>Encrypting to levels\<close>

text \<open>Each level prints the warnings of its backup before it is encrypted.\<close>

definition encrypt_to_level_keys ::
  "('pk::linorder, 'x::linorder, 'd, 'v) cli_externals \<Rightarrow> ('pk, 'x) key_parser \<Rightarrow> ('pk, 'x) printers \<Rightarrow> 'f system \<Rightarrow>
   's rng \<Rightarrow> 's \<Rightarrow> ('pk, 'x) wrap_level \<Rightarrow> ('pk, ('pk, 'x) dpk) to_payload list \<Rightarrow>
   ('f, ('pk, ('pk, 'x) dpk) encrypted \<times> 's) step" where
  "encrypt_to_level_keys X K T S fill s level payloads =
     (let ks = wrap_level_public_keys (ext_backend X) K level;
          paths = wrap_level_derivation_paths level in
      if ks = [] then pure (Err NoKeys)
      else
        then_step (pure (map_err FailedToEncrypt (set_payloads (ext_backend X) payloads eb_new))) (\<lambda>b.
        let backup = set_keys (ext_backend X) ks (set_derivation_paths paths b) in
        then_step (print_warnings S T (eb_warnings backup)) (\<lambda>_.
        pure (map_err FailedToEncrypt (encrypt X fill s backup)))))"

definition encrypt_descriptor_level ::
  "('pk::linorder, 'x::linorder, 'd, 'v) cli_externals \<Rightarrow> ('pk, 'x) key_parser \<Rightarrow> ('pk, 'x) printers \<Rightarrow> 'f system \<Rightarrow>
   's rng \<Rightarrow> 's \<Rightarrow> ('pk, 'x) wrap_level \<Rightarrow> bytes option \<Rightarrow> 'd \<Rightarrow> ('f, ('pk, ('pk, 'x) dpk) encrypted \<times> 's) step" where
  "encrypt_descriptor_level X K T S fill s level msg descriptor =
     encrypt_to_level_keys X K T S fill s level
       (msg_item (wl_msg level) @ msg_item msg @ [descriptor_item (ext_backend X) descriptor])"

definition encrypt_wrap_level ::
  "('pk::linorder, 'x::linorder, 'd, 'v) cli_externals \<Rightarrow> ('pk, 'x) key_parser \<Rightarrow> ('pk, 'x) printers \<Rightarrow> 'f system \<Rightarrow>
   's rng \<Rightarrow> 's \<Rightarrow> ('pk, 'x) wrap_level \<Rightarrow> bytes \<Rightarrow> ('f, ('pk, ('pk, 'x) dpk) encrypted \<times> 's) step" where
  "encrypt_wrap_level X K T S fill s level bs =
     encrypt_to_level_keys X K T S fill s level (msg_item (wl_msg level) @ [bip138_item (Bip138 bs)])"

text \<open>The loop over the outer levels, innermost first.\<close>

fun wrap_outer ::
  "('pk::linorder, 'x::linorder, 'd, 'v) cli_externals \<Rightarrow> ('pk, 'x) key_parser \<Rightarrow> ('pk, 'x) printers \<Rightarrow> 'f system \<Rightarrow>
   's rng \<Rightarrow> 's \<Rightarrow> ('pk, 'x) wrap_level list \<Rightarrow> ('pk, ('pk, 'x) dpk) encrypted \<Rightarrow>
   ('f, ('pk, ('pk, 'x) dpk) encrypted \<times> 's) step" where
  "wrap_outer X K T S fill s [] encrypted = pure (Ok (encrypted, s))"
| "wrap_outer X K T S fill s (level # levels) encrypted =
     then_step (encrypt_wrap_level X K T S fill s level (enc_bytes encrypted)) (\<lambda>(encrypted, s).
     wrap_outer X K T S fill s levels encrypted)"

section \<open>The commands\<close>

definition encrypt_main ::
  "('pk::linorder, 'x::linorder, 'd, 'v) cli_externals \<Rightarrow> ('pk, 'x) key_parser \<Rightarrow> ('pk, 'x) printers \<Rightarrow> 'f system \<Rightarrow>
   's rng \<Rightarrow> 's \<Rightarrow> bytes option \<Rightarrow> bytes option \<Rightarrow> bytes option \<Rightarrow> bytes option \<Rightarrow> ('f, unit) step" where
  "encrypt_main X K T S fill s file msg key_path out =
     then_step (pure (path_or_default S file ''descriptor.txt'')) (\<lambda>input_path.
     then_step (pure (path_or_default S out ''descriptor.bin'')) (\<lambda>output_path.
     then_step (fs_read_to_string S input_path) (\<lambda>data.
     then_step (case key_path of
         Some path \<Rightarrow> then_step (fs_read_to_string S path) (\<lambda>t. pure (parse_wrap_keys K t))
       | None \<Rightarrow> pure (Ok [])) (\<lambda>wrap_levels.
     then_step (pure (ok_or CantConvertToDescriptor (parse_descriptor (ext_backend X) (trim data)))) (\<lambda>descriptor.
     if wrap_levels \<noteq> [] then
       then_step (encrypt_descriptor_level X K T S fill s (last wrap_levels) msg descriptor) (\<lambda>(encrypted, s).
       then_step (wrap_outer X K T S fill s (rev (butlast wrap_levels)) encrypted) (\<lambda>(encrypted, s).
       write_backup S T output_path (enc_bytes encrypted)))
     else
       then_step (pure (descriptor_backup X msg descriptor)) (\<lambda>backup.
       then_step (for_each (\<lambda>path. println S (ascii ''using derivation path '' @ pr_path T path))
         (eb_derivation_paths backup)) (\<lambda>_.
       then_step (print_warnings S T (eb_warnings backup)) (\<lambda>_.
       then_step (pure (map_err FailedToEncrypt (encrypt X fill s backup))) (\<lambda>(encrypted, s).
       write_backup S T output_path (enc_bytes encrypted))))))))))"

definition decrypt_main ::
  "('pk::linorder, 'x::linorder, 'd, 'v) cli_externals \<Rightarrow> ('pk, 'x) key_parser \<Rightarrow> ('pk, 'x) printers \<Rightarrow> 'f system \<Rightarrow>
   bytes option \<Rightarrow> bytes option \<Rightarrow> bytes option \<Rightarrow> ('f, unit) step" where
  "decrypt_main X K T S file key out =
     then_step (pure (path_or_default S file ''descriptor.txt'')) (\<lambda>input_path.
     then_step (pure (path_or_default S key ''xpub.txt'')) (\<lambda>key_path.
     then_step (\<lambda>w. (decrypt_command X K (contents S w key_path) (key \<noteq> None) (contents S w input_path), w)) (\<lambda>document.
     write_document S T out document)))"

definition inspect_main ::
  "('pk::linorder, 'x::linorder, 'd, 'v) cli_externals \<Rightarrow> ('pk, 'x) printers \<Rightarrow> 'f system \<Rightarrow>
   bytes option \<Rightarrow> bytes option \<Rightarrow> ('f, unit) step" where
  "inspect_main X T S file out =
     then_step (pure (path_or_default S file ''descriptor.bin'')) (\<lambda>input_path.
     then_step (\<lambda>w. (inspect_command X (contents S w input_path), w)) (\<lambda>json.
     then_step (pure (ok_or JsonError (pr_json T json))) (\<lambda>json.
     write_json S out json)))"

definition main_command ::
  "('pk::linorder, 'x::linorder, 'd, 'v) cli_externals \<Rightarrow> ('pk, 'x) key_parser \<Rightarrow> ('pk, 'x) printers \<Rightarrow> 'f system \<Rightarrow>
   's rng \<Rightarrow> 's \<Rightarrow> cli_args option cli \<Rightarrow> ('f, unit) step" where
  "main_command X K T S fill s parsed =
     then_step (pure parsed) (\<lambda>cli.
     case cli of
       None \<Rightarrow> pure (Ok ())
     | Some cli \<Rightarrow>
         (case ca_command cli of
            Command_Encrypt file msg ks \<Rightarrow> encrypt_main X K T S fill s file msg ks (ca_output cli)
          | Command_Decrypt file key \<Rightarrow> decrypt_main X K T S file key (ca_output cli)
          | Command_Inspect file \<Rightarrow> inspect_main X T S file (ca_output cli)))"

text \<open>
  With signing devices: the threads of decrypt work on what was read and on the devices that \<open>list\<close> finds,
  and the document is what the main thread ends with. The fetcher prints while the main thread goes on:
  first the lines of \<open>list\<close>, and if there is a device, log lines and warnings on standard error. A line is
  printed in one piece, so the lines come before or after what the main thread writes, or are lost when
  the process ends first. A line that cannot be printed ends the fetcher, in the middle of \<open>list\<close> without
  any device.
\<close>

inductive decrypt_device_main ::
  "('pk::linorder, 'x::linorder, 'd, 'v) cli_externals \<Rightarrow> ('pk, 'x) key_parser \<Rightarrow> ('pk, 'x) printers \<Rightarrow> 'f system \<Rightarrow>
   ('h, 'y, 'i, 'p, 'l) device_library \<Rightarrow> environment \<Rightarrow> ('y \<Rightarrow> 'pk) \<Rightarrow> 'h \<Rightarrow>
   bytes option \<Rightarrow> bytes option \<Rightarrow> bool \<Rightarrow> bool \<Rightarrow> bytes option \<Rightarrow>
   'f world \<Rightarrow> unit cli \<Rightarrow> 'f world \<Rightarrow> bool"
  for X K T S L E public_key h "file" key testnet "prompt" out w where
  device_main_early:
    "andThen (path_or_default S file ''descriptor.txt'') (\<lambda>input_path.
     andThen (path_or_default S key ''xpub.txt'') (\<lambda>key_path.
     decrypt_prepare X K (contents S w key_path) (key \<noteq> None) (contents S w input_path))) = Err e \<Longrightarrow>
    decrypt_device_main X K T S L E public_key h file key testnet prompt out w (Err e) w"
| device_main_end:
    "andThen (path_or_default S file ''descriptor.txt'') (\<lambda>input_path.
     andThen (path_or_default S key ''xpub.txt'') (\<lambda>key_path.
     decrypt_prepare X K (contents S w key_path) (key \<noteq> None) (contents S w input_path))) = Ok (backup, pk) \<Longrightarrow>
    network = (if testnet then Testnet else Bitcoin) \<Longrightarrow>
    devices = found_devices L E network \<or>
      devices = None \<and> (\<exists>v. fst (for_each (print_line S) (list_lines L network) v) \<noteq> Ok ()) \<Longrightarrow>
    thread_run X \<lparr>su_backup = backup, su_collector = decrypt_collector backup testnet prompt,
        su_devices = devices, su_public_key = public_key\<rparr> n (threads_start pk h) st \<Longrightarrow>
    th_main st = Main_Done message \<Longrightarrow>
    early @ late @ lost = list_lines L network @ (if devices = None \<or> devices = Some [] then [] else map To_Stderr logged) \<Longrightarrow>
    for_each (print_line S) early w = (printed, w1) \<Longrightarrow>
    printed = Ok () \<or> late = [] \<Longrightarrow>
    then_step (pure (decrypt_output message)) (write_document S T out) w1 = (r, w2) \<Longrightarrow>
    w' = snd (for_each (print_line S) late w2) \<Longrightarrow>
    decrypt_device_main X K T S L E public_key h file key testnet prompt out w r w'"

text \<open>The fetch command, on the line it made; \<open>writeln!\<close> writes the line and its end one after the other.\<close>

definition append_to_file :: "'f system \<Rightarrow> bytes \<Rightarrow> bytes \<Rightarrow> ('f, unit) step" where
  "append_to_file S path line =
     then_step (file_append S path) (\<lambda>file.
     then_step (write_all S file line) (\<lambda>_. write_all S file [0x0A]))"

definition fetch_main :: "'f system \<Rightarrow> bytes cli \<Rightarrow> bytes option \<Rightarrow> ('f, unit) step" where
  "fetch_main S fetched out =
     then_step (pure fetched) (\<lambda>xpub.
     case out of
       Some path \<Rightarrow> append_to_file S path xpub
     | None \<Rightarrow> println S xpub)"

section \<open>Files in a run that fails\<close>

text \<open>The file a command writes to, if it has one.\<close>

definition output_file :: "'f system \<Rightarrow> cli_args \<Rightarrow> 'f option" where
  "output_file S cli =
     (case ca_output cli of
        Some path \<Rightarrow> sys_file S path
      | None \<Rightarrow>
          (case ca_command cli of
             Command_Encrypt file msg ks \<Rightarrow>
               (case sys_cwd S of Some cwd \<Rightarrow> sys_file S (path_push cwd (ascii ''descriptor.bin'')) | None \<Rightarrow> None)
           | _ \<Rightarrow> None))"

text \<open>Only a write that stops half way leaves a trace: a part of what was to be written.\<close>

definition cut_short :: "'f system \<Rightarrow> 'f option \<Rightarrow> 'f world \<Rightarrow> 'f world \<Rightarrow> bool" where
  "cut_short S t w w' \<longleftrightarrow>
     (\<exists>f bs n. t = Some f \<and> sys_writable S f \<and> n < length bs \<and> wo_files w' = (wo_files w)(f := Some (take n bs)))"

definition clean_errors :: "'f system \<Rightarrow> 'f option \<Rightarrow> ('f, 'a) step \<Rightarrow> bool" where
  "clean_errors S t m \<longleftrightarrow>
     (\<forall>w e w'. m w = (Err e, w') \<longrightarrow> wo_files w' = wo_files w \<or> e = WriteError \<and> cut_short S t w w')"

lemma clean_keeps: "keeps same_files m \<Longrightarrow> clean_errors S t m"
  unfolding keeps_def same_files_def clean_errors_def by (metis snd_conv)

lemma clean_then:
  assumes "keeps same_files m" "\<And>x. clean_errors S t (f x)"
  shows "clean_errors S t (then_step m f)"
  unfolding clean_errors_def
proof (intro allI impI)
  fix w e w'
  assume r: "then_step m f w = (Err e, w')"
  obtain q v where m: "m w = (q, v)" by fastforce
  with assms(1) have v: "wo_files v = wo_files w" unfolding keeps_def same_files_def by (metis snd_conv)
  then have c: "cut_short S t v w' = cut_short S t w w'" by (simp add: cut_short_def)
  from r m have "q = Err e \<and> v = w' \<or> (\<exists>x. q = Ok x \<and> f x v = (Err e, w'))"
    by (cases q) (simp_all add: then_step_def)
  then show "wo_files w' = wo_files w \<or> e = WriteError \<and> cut_short S t w w'"
    using v c assms(2) unfolding clean_errors_def by metis
qed

text \<open>A file that is created and then written to.\<close>

lemma clean_create_write:
  assumes "\<And>e v. fst (g v) \<noteq> Err e"
  shows "clean_errors S (sys_file S path)
    (then_step (file_create S e path) (\<lambda>f. then_step (write_all S f bs) (\<lambda>_. g)))"
  unfolding clean_errors_def
proof (intro allI impI)
  fix w e' w'
  assume r: "then_step (file_create S e path) (\<lambda>f. then_step (write_all S f bs) (\<lambda>_. g)) w = (Err e', w')"
  show "wo_files w' = wo_files w \<or> e' = WriteError \<and> cut_short S (sys_file S path) w w'"
  proof (cases "sys_file S path")
    case (Some f)
    show ?thesis
    proof (cases "sys_writable S f \<and> sys_room S f [] bs < length bs")
      case True
      with r Some have "e' = WriteError"
        "wo_files w' = (wo_files w)(f := Some (take (sys_room S f [] bs) bs))"
        by (auto simp: then_step_def file_create_def write_all_def Let_def)
      with True Some show ?thesis by (auto simp: cut_short_def)
    next
      case False
      with r Some assms show ?thesis
        by (auto simp: then_step_def file_create_def write_all_def Let_def split: if_splits) (metis fst_conv)+
    qed
  qed (use r in \<open>simp add: then_step_def file_create_def\<close>)
qed

lemma println_no_Err: "fst (println S line v) \<noteq> Err e"
  by (simp add: println_def Let_def)

lemma clean_fs_write: "clean_errors S (sys_file S path) (fs_write S path bs)"
proof -
  have "then_step m (\<lambda>_. pure (Ok ())) = m" for m :: "('a, unit) step" using pure_then_pure [of m] by simp
  then show ?thesis
    using clean_create_write [of "pure (Ok ())" S path WriteError bs] by (simp add: fs_write_def)
qed

lemma clean_write_backup: "clean_errors S (sys_file S path) (write_backup S T path bs)"
  unfolding write_backup_def by (intro clean_create_write println_no_Err)

lemma clean_write_document:
  "clean_errors S (case out of Some path \<Rightarrow> sys_file S path | None \<Rightarrow> None) (write_document S T out bs)"
proof (cases out)
  case (Some path)
  then show ?thesis
    using clean_create_write [OF println_no_Err, of S path WriteError bs]
    by (simp add: write_document_def fs_write_def then_step_assoc)
qed (simp add: write_document_def clean_keeps same_files_steps)

lemma clean_write_json:
  "clean_errors S (case out of Some path \<Rightarrow> sys_file S path | None \<Rightarrow> None) (write_json S out bs)"
  by (cases out) (simp_all add: write_json_def clean_fs_write clean_keeps same_files_steps)

lemma other_write_backup: "keeps (other_files (sys_file S path)) (write_backup S T path bs)"
  unfolding keeps_def
proof
  fix w
  show "other_files (sys_file S path) w (snd (write_backup S T path bs w))"
    by (cases "sys_file S path")
      (auto simp: write_backup_def then_step_def file_create_def write_all_def println_def other_files_def Let_def)
qed

lemma other_write_document:
  "keeps (other_files (case out of Some path \<Rightarrow> sys_file S path | None \<Rightarrow> None)) (write_document S T out bs)"
  by (cases out)
    (simp_all add: write_document_def same_other same_files_steps ot.keeps_then other_files_fs_write)

lemma other_write_json:
  "keeps (other_files (case out of Some path \<Rightarrow> sys_file S path | None \<Rightarrow> None)) (write_json S out bs)"
  by (cases out) (auto simp: write_json_def intro!: other_files_fs_write same_other same_files_steps)

lemma reading_keeps: "keeps same_files (\<lambda>w. (r w, w))" "keeps output_grows (\<lambda>w. (r w, w))"
  by (simp_all add: keeps_def same_files_def output_grows_def)

lemma print_warnings_keeps:
  "keeps same_files (print_warnings S T ws)" "keeps output_grows (print_warnings S T ws)"
  by (auto simp: print_warnings_def intro!: sf.keeps_for_each og.keeps_for_each same_files_steps output_grows_steps)

section \<open>The shape of the commands\<close>

text \<open>Once the names are known, a command reads, prints and computes, and then writes to one file.\<close>

definition encrypt_rest ::
  "('pk::linorder, 'x::linorder, 'd, 'v) cli_externals \<Rightarrow> ('pk, 'x) key_parser \<Rightarrow> ('pk, 'x) printers \<Rightarrow> 'f system \<Rightarrow>
   's rng \<Rightarrow> 's \<Rightarrow> bytes option \<Rightarrow> ('pk, 'x) wrap_level list \<Rightarrow> 'd \<Rightarrow> bytes \<Rightarrow> ('f, unit) step" where
  "encrypt_rest X K T S fill s msg wrap_levels descriptor output_path =
     (if wrap_levels \<noteq> [] then
       then_step (encrypt_descriptor_level X K T S fill s (last wrap_levels) msg descriptor) (\<lambda>(encrypted, s).
       then_step (wrap_outer X K T S fill s (rev (butlast wrap_levels)) encrypted) (\<lambda>(encrypted, s).
       write_backup S T output_path (enc_bytes encrypted)))
     else
       then_step (pure (descriptor_backup X msg descriptor)) (\<lambda>backup.
       then_step (for_each (\<lambda>path. println S (ascii ''using derivation path '' @ pr_path T path))
         (eb_derivation_paths backup)) (\<lambda>_.
       then_step (print_warnings S T (eb_warnings backup)) (\<lambda>_.
       then_step (pure (map_err FailedToEncrypt (encrypt X fill s backup))) (\<lambda>(encrypted, s).
       write_backup S T output_path (enc_bytes encrypted))))))"

lemma encrypt_main_rest:
  "encrypt_main X K T S fill s file msg key_path out =
     then_step (pure (path_or_default S file ''descriptor.txt'')) (\<lambda>input_path.
     then_step (pure (path_or_default S out ''descriptor.bin'')) (\<lambda>output_path.
     then_step (fs_read_to_string S input_path) (\<lambda>data.
     then_step (case key_path of
         Some path \<Rightarrow> then_step (fs_read_to_string S path) (\<lambda>t. pure (parse_wrap_keys K t))
       | None \<Rightarrow> pure (Ok [])) (\<lambda>wrap_levels.
     then_step (pure (ok_or CantConvertToDescriptor (parse_descriptor (ext_backend X) (trim data)))) (\<lambda>descriptor.
     encrypt_rest X K T S fill s msg wrap_levels descriptor output_path)))))"
  by (simp add: encrypt_main_def encrypt_rest_def)

lemma output_file_default:
  "path_or_default S out ''descriptor.bin'' = Ok path \<Longrightarrow>
     output_file S \<lparr>ca_command = Command_Encrypt file msg ks, ca_output = out\<rparr> = sys_file S path"
  by (cases out) (auto simp: output_file_def path_or_default_def outcome_simps)

lemma level_keeps:
  "keeps same_files (encrypt_to_level_keys X K T S fill s level payloads)"
  "keeps same_files (encrypt_descriptor_level X K T S fill s level msg d)"
  "keeps same_files (encrypt_wrap_level X K T S fill s level bs)"
  "keeps same_files (wrap_outer X K T S fill s levels e)"
proof -
  show k: "keeps same_files (encrypt_to_level_keys X K T S fill s level payloads)" for s level payloads
    by (auto simp: encrypt_to_level_keys_def Let_def intro!: sf.keeps_chain print_warnings_keeps(1))
  then show "keeps same_files (encrypt_descriptor_level X K T S fill s level msg d)"
    by (simp add: encrypt_descriptor_level_def)
  from k show w: "keeps same_files (encrypt_wrap_level X K T S fill s level bs)" for s level bs
    by (simp add: encrypt_wrap_level_def)
  show "keeps same_files (wrap_outer X K T S fill s levels e)"
    by (induction levels arbitrary: s e) (auto intro!: sf.keeps_pure sf.keeps_then w)
qed

text \<open>A level that is encrypted is encrypted to its value, and its warnings are on standard error.\<close>

definition warned :: "('pk, 'x) printers \<Rightarrow> ('pk, ('pk, 'x) dpk) warning list \<Rightarrow> 'f world \<Rightarrow> 'f world" where
  "warned T ws w = w\<lparr>wo_stderr := wo_stderr w @ text_lines (map (warning_text T) ws)\<rparr>"

lemma warned_fields [simp]:
  "wo_files (warned T ws w) = wo_files w" "wo_stdout (warned T ws w) = wo_stdout w"
  "wo_stderr (warned T ws w) = wo_stderr w @ text_lines (map (warning_text T) ws)" "warned T [] w = w"
  by (simp_all add: warned_def)

lemma print_warnings_Ok: "print_warnings S T ws w = (Ok (), w') \<Longrightarrow> w' = warned T ws w"
  by (simp add: print_warnings_def warned_def eprintln_all)

lemma encrypt_to_level_keys_Ok:
  assumes "encrypt_to_level_keys X K T S fill s level payloads w = (Ok (e, s'), w')"
  shows "level_value X K fill s level payloads = Ok (e, s') \<and> w' = warned T (enc_warnings e) w"
proof -
  let ?ks = "wrap_level_public_keys (ext_backend X) K level"
  let ?backup = "\<lambda>b. set_keys (ext_backend X) ?ks (set_derivation_paths (wrap_level_derivation_paths level) b)"
  from assms obtain b where b: "?ks \<noteq> []" "set_payloads (ext_backend X) payloads eb_new = Ok b"
    "print_warnings S T (eb_warnings (?backup b)) w = (Ok (), w')" "encrypt X fill s (?backup b) = Ok (e, s')"
    by (auto simp: encrypt_to_level_keys_def Let_def step_simps outcome_simps split: if_splits)
  then have "enc_warnings e = eb_warnings (?backup b)" by (simp add: encrypt_Ok)
  with b print_warnings_Ok [OF b(3)] show ?thesis by (simp add: level_value_def Let_def)
qed

lemma encrypt_descriptor_level_Ok:
  "encrypt_descriptor_level X K T S fill s level msg d w = (Ok (e, s'), w') \<Longrightarrow>
   descriptor_level_value X K fill s level msg d = Ok (e, s') \<and> w' = warned T (enc_warnings e) w"
  by (simp add: encrypt_descriptor_level_def descriptor_level_value_def encrypt_to_level_keys_Ok)

lemma encrypt_wrap_level_Ok:
  assumes "encrypt_wrap_level X K T S fill s level bs w = (Ok (e, s'), w')"
  shows "wrap_level_value X K fill s level bs = Ok (e, s') \<and> w' = w"
proof -
  have v: "wrap_level_value X K fill s level bs = Ok (e, s') \<and> w' = warned T (enc_warnings e) w"
    using assms by (simp add: encrypt_wrap_level_def wrap_level_value_def encrypt_to_level_keys_Ok)
  then have "enc_warnings e = []" using wrap_level_value_Ok [OF conjunct1 [OF v]] by blast
  with v show ?thesis by simp
qed

lemma wrap_outer_Ok:
  "wrap_outer X K T S fill s levels e w = (Ok (e', s'), w') \<Longrightarrow> wrap_value X K fill s levels e = Ok (e', s') \<and> w' = w"
proof (induction levels arbitrary: s e w)
  case (Cons level levels)
  then obtain e1 s1 v where v: "encrypt_wrap_level X K T S fill s level (enc_bytes e) w = (Ok (e1, s1), v)"
    "wrap_outer X K T S fill s1 levels e1 v = (Ok (e', s'), w')" by (auto simp: step_simps)
  with Cons.IH [OF v(2)] encrypt_wrap_level_Ok [OF v(1)] show ?case by simp
qed simp

lemma encrypt_rest_other: "keeps (other_files (sys_file S path)) (encrypt_rest X K T S fill s msg levels d path)"
  unfolding encrypt_rest_def
  by (auto intro!: ot.keeps_pure_then ot.keeps_then ot.keeps_for_each other_write_backup
      same_other [OF same_files_steps(1)] same_other [OF print_warnings_keeps(1)]
      same_other [OF level_keeps(2)] same_other [OF level_keeps(4)])

lemma encrypt_rest_clean: "clean_errors S (sys_file S path) (encrypt_rest X K T S fill s msg levels d path)"
  unfolding encrypt_rest_def
  by (auto intro!: clean_then sf.keeps_pure sf.keeps_for_each clean_write_backup same_files_steps
      print_warnings_keeps(1) level_keeps)

lemma key_file_keeps:
  "keeps same_files (case key_path of
       Some path \<Rightarrow> then_step (fs_read_to_string S path) (\<lambda>t. pure (parse_wrap_keys K t))
     | None \<Rightarrow> pure (Ok []))"
  by (auto intro!: sf.keeps_chain same_files_steps split: option.split)

lemma encrypt_main_other:
  "keeps (other_files (output_file S \<lparr>ca_command = Command_Encrypt file msg ks, ca_output = out\<rparr>))
     (encrypt_main X K T S fill s file msg ks out)"
proof -
  let ?t = "output_file S \<lparr>ca_command = Command_Encrypt file msg ks, ca_output = out\<rparr>"
  have "keeps (other_files ?t) (encrypt_rest X K T S fill s msg levels d path)"
    if "path_or_default S out ''descriptor.bin'' = Ok path" for levels d path
    using encrypt_rest_other output_file_default [OF that] by metis
  then show ?thesis
    unfolding encrypt_main_rest
    by (intro ot.keeps_pure_then ot.keeps_then same_other [OF same_files_steps(5)] same_other [OF key_file_keeps]) auto
qed

lemma clean_pure_then: "(\<And>x. r = Ok x \<Longrightarrow> clean_errors S t (f x)) \<Longrightarrow> clean_errors S t (then_step (pure r) f)"
  by (cases r) (simp_all add: clean_errors_def then_step_def)

lemma encrypt_main_clean:
  "clean_errors S (output_file S \<lparr>ca_command = Command_Encrypt file msg ks, ca_output = out\<rparr>)
     (encrypt_main X K T S fill s file msg ks out)"
proof -
  let ?t = "output_file S \<lparr>ca_command = Command_Encrypt file msg ks, ca_output = out\<rparr>"
  have "clean_errors S ?t (encrypt_rest X K T S fill s msg levels d path)"
    if "path_or_default S out ''descriptor.bin'' = Ok path" for levels d path
    using encrypt_rest_clean output_file_default [OF that] by metis
  then show ?thesis
    unfolding encrypt_main_rest by (intro clean_pure_then clean_then same_files_steps key_file_keeps) auto
qed

lemma decrypt_main_other:
  "keeps (other_files (output_file S \<lparr>ca_command = Command_Decrypt file key, ca_output = out\<rparr>))
     (decrypt_main X K T S file key out)"
proof -
  have t: "output_file S \<lparr>ca_command = Command_Decrypt file key, ca_output = out\<rparr> =
      (case out of Some path \<Rightarrow> sys_file S path | None \<Rightarrow> None)" by (simp add: output_file_def split: option.split)
  show ?thesis
    unfolding decrypt_main_def t
    by (intro ot.keeps_pure_then ot.keeps_then same_other [OF reading_keeps(1)] other_write_document)
qed

lemma decrypt_main_clean:
  "clean_errors S (output_file S \<lparr>ca_command = Command_Decrypt file key, ca_output = out\<rparr>) (decrypt_main X K T S file key out)"
proof -
  have t: "output_file S \<lparr>ca_command = Command_Decrypt file key, ca_output = out\<rparr> =
      (case out of Some path \<Rightarrow> sys_file S path | None \<Rightarrow> None)" by (simp add: output_file_def split: option.split)
  show ?thesis
    unfolding decrypt_main_def t by (intro clean_then sf.keeps_pure reading_keeps(1) clean_write_document)
qed

lemma inspect_main_other:
  "keeps (other_files (output_file S \<lparr>ca_command = Command_Inspect file, ca_output = out\<rparr>))
     (inspect_main X T S file out)"
proof -
  have t: "output_file S \<lparr>ca_command = Command_Inspect file, ca_output = out\<rparr> =
      (case out of Some path \<Rightarrow> sys_file S path | None \<Rightarrow> None)" by (simp add: output_file_def split: option.split)
  show ?thesis
    unfolding inspect_main_def t
    by (intro ot.keeps_pure_then ot.keeps_then same_other [OF reading_keeps(1)] other_write_json)
qed

lemma inspect_main_clean:
  "clean_errors S (output_file S \<lparr>ca_command = Command_Inspect file, ca_output = out\<rparr>) (inspect_main X T S file out)"
proof -
  have t: "output_file S \<lparr>ca_command = Command_Inspect file, ca_output = out\<rparr> =
      (case out of Some path \<Rightarrow> sys_file S path | None \<Rightarrow> None)" by (simp add: output_file_def split: option.split)
  show ?thesis
    unfolding inspect_main_def t by (intro clean_then sf.keeps_pure reading_keeps(1) clean_write_json)
qed

lemma main_command_Some [simp]:
  "main_command X K T S fill s (Ok (Some cli)) =
     (case ca_command cli of
        Command_Encrypt file msg ks \<Rightarrow> encrypt_main X K T S fill s file msg ks (ca_output cli)
      | Command_Decrypt file key \<Rightarrow> decrypt_main X K T S file key (ca_output cli)
      | Command_Inspect file \<Rightarrow> inspect_main X T S file (ca_output cli))"
  by (rule ext) (simp add: main_command_def)

lemma main_command_other: "keeps (other_files (output_file S cli)) (main_command X K T S fill s (Ok (Some cli)))"
  by (cases cli; cases "ca_command cli") (simp_all add: encrypt_main_other decrypt_main_other inspect_main_other)

lemma main_command_clean: "clean_errors S (output_file S cli) (main_command X K T S fill s (Ok (Some cli)))"
  by (cases cli; cases "ca_command cli") (simp_all add: encrypt_main_clean decrypt_main_clean inspect_main_clean)

section \<open>Writing a backup and reading it\<close>

lemma println_Ok: "println S line w = (Ok u, w') \<Longrightarrow> wo_files w' = wo_files w"
  by (simp add: println_def Let_def) auto

lemma keeps_files_Ok: "keeps same_files m \<Longrightarrow> m w = (r, w') \<Longrightarrow> wo_files w' = wo_files w"
  unfolding keeps_def same_files_def by (metis snd_conv)

lemma write_backup_Ok:
  assumes "write_backup S T path bs w = (Ok (), w')"
  shows "\<exists>f. sys_file S path = Some f \<and>
    w' = w\<lparr>wo_files := (wo_files w)(f := Some bs),
      wo_stdout := wo_stdout w @ text_lines [ascii ''descriptor written to '' @ pr_quoted T path]\<rparr>"
  using assms
  by (auto simp: write_backup_def step_simps file_create_Ok write_all_def Let_def println_Ok_iff split: if_splits)

text \<open>What a run of encrypt without a key file went through, when it succeeds.\<close>

lemma encrypt_main_Ok:
  assumes "encrypt_main X K T S fill s file msg None out w = (Ok (), w')"
  shows "\<exists>input_path output_path data descriptor b e s' f.
    path_or_default S file ''descriptor.txt'' = Ok input_path \<and> path_or_default S out ''descriptor.bin'' = Ok output_path \<and>
    read_to_string (contents S w input_path) = Some data \<and>
    parse_descriptor (ext_backend X) (trim data) = Some descriptor \<and> descriptor_backup X msg descriptor = Ok b \<and>
    encrypt X fill s b = Ok (e, s') \<and> sys_file S output_path = Some f \<and>
    wo_files w' = (wo_files w)(f := Some (enc_bytes e))"
proof -
  from assms obtain input_path output_path data descriptor where
    p: "path_or_default S file ''descriptor.txt'' = Ok input_path" "path_or_default S out ''descriptor.bin'' = Ok output_path"
    and d: "read_to_string (contents S w input_path) = Some data"
      "parse_descriptor (ext_backend X) (trim data) = Some descriptor"
    and r: "encrypt_rest X K T S fill s msg [] descriptor output_path w = (Ok (), w')"
    by (auto simp: encrypt_main_rest step_simps fs_read_to_string_def outcome_simps)
  from r obtain b v1 v2 e s' where b: "descriptor_backup X msg descriptor = Ok b"
    and v1: "for_each (\<lambda>path. println S (ascii ''using derivation path '' @ pr_path T path)) (eb_derivation_paths b) w = (Ok (), v1)"
    and v2: "print_warnings S T (eb_warnings b) v1 = (Ok (), v2)"
    and e: "encrypt X fill s b = Ok (e, s')" "write_backup S T output_path (enc_bytes e) v2 = (Ok (), w')"
    by (auto simp: encrypt_rest_def step_simps outcome_simps)
  have "wo_files v1 = wo_files w"
    by (rule keeps_files_Ok [OF sf.keeps_for_each v1]) (rule same_files_steps)
  moreover have "wo_files v2 = wo_files v1" by (rule keeps_files_Ok [OF print_warnings_keeps(1) v2])
  ultimately show ?thesis using p d b e(1) write_backup_Ok [OF e(2)] by fastforce
qed

lemma encrypt_main_writes:
  assumes "encrypt_main X K T S fill s (Some input) msg None (Some path) w = (Ok (), w')"
    and "read_to_string (contents S w input) = Some data"
    and "parse_descriptor (ext_backend X) (trim data) = Some descriptor" "descriptor_backup X msg descriptor = Ok b"
    and "sys_file S path = Some f"
  shows "\<exists>e s'. encrypt X fill s b = Ok (e, s') \<and> wo_files w' = (wo_files w)(f := Some (enc_bytes e))"
  using encrypt_main_Ok [OF assms(1)] assms(2-) by (simp add: path_or_default_def)

text \<open>The document a descriptor with a note comes back as.\<close>

definition note_document :: "('pk, 'dk, 'd) backend \<Rightarrow> bytes option \<Rightarrow> 'd \<Rightarrow> bytes" where
  "note_document B msg descriptor =
     (case msg of Some m \<Rightarrow> if m = [] then [] else m @ [0x0A] | None \<Rightarrow> []) @ show_descriptor B descriptor"

lemma decrypted_note_document:
  "decrypted_to_document X ((case msg of None \<Rightarrow> [] | Some m \<Rightarrow> [Dec_String m]) @ [Dec_Descriptor descriptor]) =
     Ok (note_document (ext_backend X) msg descriptor)"
  by (cases msg) (simp_all add: decrypted_to_document_def note_document_def)

lemma decrypt_command_note:
  assumes "read_key_file K kf given = Ok (Some k)" "dpk_to_root_pk (ext_backend X) k = Ok pk"
    and "set_encrypted_payload X data eb_new = Ok r"
    and "decrypt X (set_keys (ext_backend X) [pk] r) =
      Ok ((case msg of None \<Rightarrow> [] | Some m \<Rightarrow> [Dec_String m]) @ [Dec_Descriptor descriptor])"
  shows "decrypt_command X K kf given (Some data) = Ok (note_document (ext_backend X) msg descriptor @ [0x0A])"
  using assms by (simp add: decrypt_command_def decrypted_note_document)

section \<open>A build with signing devices, none plugged in\<close>

lemma threads_reply:
  assumes "externals_return X" "steady_setup P ans"
    and "thread_run X P n (threads_start key h) s" "th_main s = Main_Done r"
  shows "possible_reply X P key ans r"
proof -
  have "threads_inv X P key ans s" by (rule run_inv [OF assms(3) externals_reply [OF assms(1)] assms(2)])
  with assms(4) show ?thesis by (simp add: threads_inv_def messages_def)
qed

lemma reply_without_device:
  assumes "possible_reply X P key ans r" "su_devices P = None \<or> su_devices P = Some []"
  shows "r = (case key of
      None \<Rightarrow> Err NoKeys
    | Some k \<Rightarrow> if missed (attempt X P k) then Err (FailedToDecrypt B_WrongKey) else worker_message X (attempt X P k))"
proof -
  have d: "device_keys P ans = []" "device_failure P ans = None"
    using assms(2) by (auto simp: device_keys_def device_failure_def)
  show ?thesis
    using assms(1) by (cases key) (auto simp: possible_reply_def offered_keys_def d settling_def)
qed

lemma run_without_device:
  assumes "externals_return X" "su_devices P = None \<or> su_devices P = Some []"
    and "thread_run X P n (threads_start key h) s" "th_main s = Main_Done r"
  shows "r = (case key of
      None \<Rightarrow> Err NoKeys
    | Some k \<Rightarrow> if missed (attempt X P k) then Err (FailedToDecrypt B_WrongKey) else worker_message X (attempt X P k))"
proof -
  have "steady_setup P ans" for ans using assms(2) by (auto simp: steady_setup_def)
  from reply_without_device [OF threads_reply [OF assms(1) this assms(3,4)] assms(2)] show ?thesis .
qed

lemma decrypt_command_prepare:
  "decrypt_command X K key_file given input =
     andThen (decrypt_prepare X K key_file given input) (\<lambda>(backup, pk).
     case pk of
       None \<Rightarrow> Err NoKeys
     | Some pk \<Rightarrow> decrypt_output (worker_message X (decrypt X (set_keys (ext_backend X) [pk] backup))))"
proof -
  have w: "andThen (map_err FailedToDecrypt r) (\<lambda>d. andThen (decrypted_to_document X d) (\<lambda>document. Ok (document @ [0x0A]))) =
      decrypt_output (worker_message X r)" for r
    by (cases r) (simp_all add: decrypt_output_def)
  show ?thesis
  proof (cases "andThen (read_key_file K key_file given) (\<lambda>key. andThen (ok_or ReadError input) (\<lambda>data.
      andThen (map_err FailedToDecrypt (set_encrypted_payload X data eb_new)) (\<lambda>backup. Ok (key, backup))))")
    case (Ok p)
    then show ?thesis
      by (cases "fst p")
        (auto simp: decrypt_command_def decrypt_prepare_def outcome_simps andThen_assoc w)
  qed (auto simp: decrypt_command_def decrypt_prepare_def outcome_simps)
qed

section \<open>Collecting the lines of several fetches\<close>

text \<open>What is in the file, nothing if there is none: the code appends to a file that it creates if needed.\<close>

definition text_of :: "'f world \<Rightarrow> 'f \<Rightarrow> bytes" where
  "text_of w f = (case wo_files w f of Some bs \<Rightarrow> bs | None \<Rightarrow> [])"

lemma append_to_file_Ok:
  assumes "append_to_file S path line w = (Ok (), w')" "sys_file S path = Some f"
  shows "wo_files w' = (wo_files w)(f := Some (append_line (wo_files w f) line))"
  using assms
  by (auto simp: append_to_file_def step_simps file_append_Ok write_all_def append_line_def Let_def split: if_splits)

lemma fetch_main_appends:
  assumes "fetch_main S (Ok line) (Some path) w = (Ok (), w')" "sys_file S path = Some f"
    and "whole_lines (text_of w f)" "line_text line"
  shows "lines_of (text_of w' f) = lines_of (text_of w f) @ [line]" "whole_lines (text_of w' f)"
proof -
  have "text_of w' f = text_of w f @ line @ [0x0A]"
    using append_to_file_Ok [of S path line w w' f] assms(1,2)
    by (simp add: fetch_main_def text_of_def append_line_def split: option.split)
  with lines_of_snoc [OF assms(3,4)] show "lines_of (text_of w' f) = lines_of (text_of w f) @ [line]"
    "whole_lines (text_of w' f)" by simp_all
qed

lemma fetches_append:
  assumes "for_each (\<lambda>line. fetch_main S (Ok line) (Some path)) ls w = (Ok (), w')" "sys_file S path = Some f"
    and "whole_lines (text_of w f)" "list_all line_text ls"
  shows "lines_of (text_of w' f) = lines_of (text_of w f) @ ls"
  using assms
proof (induction ls arbitrary: w)
  case (Cons l ls)
  from Cons.prems(1) obtain v where v: "fetch_main S (Ok l) (Some path) w = (Ok (), v)"
    and r: "for_each (\<lambda>line. fetch_main S (Ok line) (Some path)) ls v = (Ok (), w')" by (auto simp: step_simps)
  from Cons.prems(4) have l: "line_text l" "list_all line_text ls" by simp_all
  from fetch_main_appends [OF v Cons.prems(2,3) l(1)] Cons.IH [OF r Cons.prems(2) _ l(2)] show ?case by simp
qed simp

end
