(* ===== verification/Runs.thy ===== *)
theory Runs
  imports Main_Command Sample_Wallet
begin

text \<open>
  Runs of the program: what a run leaves behind, one run that reads what another wrote, and the same
  command with and without an output file or a signing device. With a concrete system to run on.
\<close>

section \<open>A system to run on\<close>

definition sample_system :: "bytes system" where
  "sample_system = \<lparr>sys_cwd = Some [47], sys_file = Some, sys_readable = (\<lambda>f. True), sys_writable = (\<lambda>f. True),
     sys_room = (\<lambda>f old bs. length bs), sys_stdout = (\<lambda>out bs. length bs), sys_stderr = (\<lambda>err bs. length bs)\<rparr>"

text \<open>A descriptor under the default name, and a key file.\<close>

definition sample_world :: "bytes world" where
  "sample_world = \<lparr>wo_files = [path_push [47] (ascii ''descriptor.txt'') \<mapsto> [100], [107] \<mapsto> [3]],
     wo_stdout = [], wo_stderr = []\<rparr>"

definition sample_printers :: "(u8, u8) printers" where
  "sample_printers = \<lparr>pr_path = (\<lambda>p. []), pr_dpk = (\<lambda>k. []), pr_pk = (\<lambda>k. []), pr_quoted = (\<lambda>p. p), pr_json = (\<lambda>i. Some [])\<rparr>"

lemma sample_system_simps [simp]:
  "sys_cwd sample_system = Some [47]" "sys_file sample_system = Some" "sys_readable sample_system f"
  "sys_writable sample_system f" "sys_room sample_system f old bs = length bs"
  "sys_stdout sample_system out bs = length bs" "sys_stderr sample_system err bs = length bs"
  by (simp_all add: sample_system_def)

lemma sample_for_each:
  "(\<And>x w. \<exists>w'. f x w = (Ok (), w')) \<Longrightarrow> \<exists>w'. for_each f xs w = (Ok (), w')"
proof (induction xs arbitrary: w)
  case (Cons x xs)
  from Cons.prems obtain v where v: "f x w = (Ok (), v)" by blast
  from Cons obtain w' where "for_each f xs v = (Ok (), w')" by blast
  with v show ?case by auto
qed simp

lemma sample_println: "\<exists>w'. println sample_system line w = (Ok (), w')"
  by (simp add: println_def Let_def)

lemma sample_eprintln: "\<exists>w'. eprintln sample_system line w = (Ok (), w')"
  by (simp add: eprintln_def Let_def)

lemma sample_write_backup: "\<exists>w'. write_backup sample_system T path bs w = (Ok (), w')"
  by (simp add: write_backup_def then_step_def file_create_def write_all_def println_def Let_def)

lemma sample_wallet_request:
  "request_ok sample_crypto [DerivationPath [48], DerivationPath [48]] False [sample_key 2, sample_key 3]"
proof -
  have "card (recipients [sample_key 2, sample_key 3]) = 2" by code_simp
  moreover have "ZERO_SECRET \<notin> set (real_secrets sample_crypto [sample_key 2, sample_key 3])" by code_simp
  moreover have "stored_paths False [DerivationPath [48], DerivationPath [48]] \<subseteq> {DerivationPath [48]}"
    by (auto simp: stored_paths_def)
  then have "card (stored_paths False [DerivationPath [48], DerivationPath [48]]) \<le> 1"
    and "\<forall>p \<in> stored_paths False [DerivationPath [48], DerivationPath [48]]. path_ok p"
    using card_mono [of "{DerivationPath [48]}"] by (auto simp: path_ok_def path_len_def)
  ultimately show ?thesis by (simp add: request_ok_def)
qed

definition sample_wallet_builder :: "(u8, sample_dpk) encrypted_backup" where
  "sample_wallet_builder =
     \<lparr>eb_version = V1, eb_content = Content_Bip380, eb_encryption = ChaCha20Poly1305,
       eb_derivation_paths = [DerivationPath [48], DerivationPath [48]], eb_keys = [2, 3],
       eb_exposed_keys = [sample_key 4], eb_key_paths = [(2, DerivationPath [48]), (3, DerivationPath [48])],
       eb_payload = Payload_Encrypt [100], eb_warnings = [DisallowedKeyExpression (DSingle None (XOnlyKey (sample_key 4)))],
       eb_padding = Padding_None, eb_store_common_paths = False\<rparr>"

lemma sample_wallet_encrypts:
  "\<exists>e s'. encrypt sample_externals sample_fill 1 sample_wallet_builder = Ok (e, s') \<and> rust_slice (enc_bytes e @ [])"
proof -
  from sample_backup [OF sample_wallet_request sample_descriptor_payload, of 1] obtain bs s' where
    e: "encrypt_chacha20_poly1305_v1_items sample_crypto sample_fill 1 [DerivationPath [48], DerivationPath [48]] False
      [(Content_Bip380, [100])] [sample_key 2, sample_key 3] Padding_None = Ok (bs, s')"
    and l: "rust_slice (bs @ [10])" by auto
  have "encrypt sample_externals sample_fill 1 sample_wallet_builder =
      Ok (\<lparr>enc_bytes = bs, enc_warnings = eb_warnings sample_wallet_builder\<rparr>, s')"
    using e by (simp add: encrypt_Ok sample_wallet_builder_def)
  with l show ?thesis by (auto simp: rust_slice_def)
qed

lemma sample_backend_text:
  "parse_descriptor sample_backend [100] = Some sample_descriptor" "show_descriptor sample_backend d = [100]"
  by (simp_all add: sample_backend_def)

lemma sample_wallet_opens:
  assumes e: "encrypt sample_externals sample_fill 1 sample_wallet_builder = Ok (e, u)"
  shows "\<exists>r. set_encrypted_payload sample_externals (enc_bytes e) eb_new = Ok r \<and>
    decrypt sample_externals (set_keys sample_backend [3] r) = Ok [Dec_Descriptor sample_descriptor]"
proof -
  have t: "utf8_valid [100]" "sample_key 3 \<noteq> NUMS_XONLY" by code_simp+
  from sample_wallet_encrypts e have l: "rust_slice (enc_bytes e @ [])" by auto
  have k: "3 \<in> set (eb_keys sample_wallet_builder)" by (simp add: sample_wallet_builder_def)
  from descriptor_decrypts [OF sample_externals_laws sample_descriptor_backup [folded sample_wallet_builder_def]
      refl refl e l _ _ _ k] show ?thesis
    using t by (simp add: sample_backend_text sample_agrees)
qed

lemma sample_input: "contents sample_system sample_world (path_push [47] (ascii ''descriptor.txt'')) = Some [100]"
  by (simp add: contents_def sample_world_def path_push_def ascii_def)

lemma sample_input_path:
  "path_or_default sample_system None ''descriptor.txt'' = Ok (path_push [47] (ascii ''descriptor.txt''))"
  by (simp add: path_or_default_def)

text \<open>\<open>encrypt\<close> with nothing but defaults.\<close>

lemma sample_encrypt_run:
  "\<exists>w'. main_command sample_externals sample_parser sample_printers sample_system sample_fill 1
    (Ok (Some \<lparr>ca_command = Command_Encrypt None None None, ca_output = out\<rparr>)) sample_world = (Ok (), w')"
proof -
  have t: "trim [100] = [100]" "utf8_valid [100]" by code_simp+
  obtain e s' where e: "encrypt sample_externals sample_fill 1 sample_wallet_builder = Ok (e, s')"
    using sample_wallet_encrypts by blast
  let ?paths = "for_each (\<lambda>path. println sample_system (ascii ''using derivation path '' @ pr_path sample_printers path))
    (eb_derivation_paths sample_wallet_builder)"
  obtain v1 where v1: "?paths sample_world = (Ok (), v1)" using sample_for_each sample_println by metis
  obtain v2 where v2: "print_warnings sample_system sample_printers (eb_warnings sample_wallet_builder) v1 = (Ok (), v2)"
    unfolding print_warnings_def using sample_for_each sample_eprintln by metis
  obtain path where p: "path_or_default sample_system out ''descriptor.bin'' = Ok path"
    by (cases out) (auto simp: path_or_default_def)
  obtain w' where w': "write_backup sample_system sample_printers path (enc_bytes e) v2 = (Ok (), w')"
    using sample_write_backup by blast
  have "encrypt_rest sample_externals sample_parser sample_printers sample_system sample_fill 1 None [] sample_descriptor
      path sample_world = (Ok (), w')"
    using e v1 v2 w'
    by (simp add: encrypt_rest_def sample_descriptor_backup [folded sample_wallet_builder_def])
  then have "main_command sample_externals sample_parser sample_printers sample_system sample_fill 1
    (Ok (Some \<lparr>ca_command = Command_Encrypt None None None, ca_output = out\<rparr>)) sample_world = (Ok (), w')"
    by (simp add: encrypt_main_rest p sample_input_path fs_read_to_string_def sample_input read_to_string_def t
        sample_backend_def)
  then show ?thesis by blast
qed

text \<open>A level that can be wrapped is wrapped by a run: the terminal takes every warning.\<close>

lemma sample_wrap_runs:
  assumes "wrap_level_value sample_externals sample_parser sample_fill s level bs = Ok r"
  shows "\<exists>w'. encrypt_wrap_level sample_externals sample_parser sample_printers sample_system sample_fill s level bs w = (Ok r, w')"
proof -
  have "\<exists>w'. print_warnings sample_system sample_printers ws w = (Ok (), w')" for ws
    unfolding print_warnings_def using sample_for_each sample_eprintln by metis
  then obtain f where f: "print_warnings sample_system sample_printers ws w = (Ok (), f ws)" for ws by metis
  show ?thesis
    using assms
    by (auto simp: wrap_level_value_def level_value_def encrypt_wrap_level_def encrypt_to_level_keys_def Let_def
        outcome_simps step_simps f split: if_splits)
qed

section \<open>What a run leaves behind\<close>

text \<open>
  C10. A run changes no file but the one it writes to. A run that ends in an error leaves that one alone
  too, unless the writing itself was cut short: then the error says so, and the file, which could be opened
  for writing, holds a part of what was to be written. An input that cannot be read, a key that does not
  fit, an encryption that is refused or an output that cannot be created never costs an existing file.
\<close>

theorem failed_runs_keep_files:
  assumes "main_command X K T S fill s (Ok (Some cli)) w = (r, w')"
  shows "(\<forall>f. Some f \<noteq> output_file S cli \<longrightarrow> wo_files w' f = wo_files w f) \<and>
    (\<forall>e. r = Err e \<longrightarrow> wo_files w' = wo_files w \<or>
      e = WriteError \<and>
      (\<exists>f bs n. output_file S cli = Some f \<and> sys_writable S f \<and> n < length bs \<and>
         wo_files w' = (wo_files w)(f := Some (take n bs))))"
proof
  have "other_files (output_file S cli) w (snd (main_command X K T S fill s (Ok (Some cli)) w))"
    by (rule main_command_other [unfolded keeps_def, THEN spec])
  then show "\<forall>f. Some f \<noteq> output_file S cli \<longrightarrow> wo_files w' f = wo_files w f"
    by (simp only: assms snd_conv other_files_def)
  from main_command_clean [unfolded clean_errors_def cut_short_def, THEN spec, THEN spec, THEN spec,
      of X K T S fill s cli w _ w'] assms
  show "\<forall>e. r = Err e \<longrightarrow> wo_files w' = wo_files w \<or>
      e = WriteError \<and>
      (\<exists>f bs n. output_file S cli = Some f \<and> sys_writable S f \<and> n < length bs \<and>
         wo_files w' = (wo_files w)(f := Some (take n bs)))" by blast
qed

theorem failed_runs_keep_files_witness:
  "\<exists>w'. main_command sample_externals sample_parser sample_printers sample_system sample_fill 1
      (Ok (Some \<lparr>ca_command = Command_Inspect None, ca_output = Some [107]\<rparr>)) sample_world = (Err ReadError, w') \<and>
    wo_files w' [107] = Some [3]"
proof -
  have "contents sample_system sample_world (path_push [47] (ascii ''descriptor.bin'')) = None"
    by (simp add: contents_def sample_world_def path_push_def ascii_def)
  then have r: "main_command sample_externals sample_parser sample_printers sample_system sample_fill 1
      (Ok (Some \<lparr>ca_command = Command_Inspect None, ca_output = Some [107]\<rparr>)) sample_world = (Err ReadError, sample_world)"
    by (simp add: inspect_main_def path_or_default_def inspect_command_def then_step_def)
  from failed_runs_keep_files [OF r] have "wo_files sample_world = wo_files sample_world" by blast
  with r show ?thesis by (auto simp: sample_world_def path_push_def ascii_def)
qed

section \<open>One run reads what another wrote\<close>



section \<open>Default names\<close>

lemma not_a_backup:
  assumes "\<not> starts_with data MAGIC" "\<not> starts_with data V0_MAGIC" "ext_base64_decode X (trim data) = None"
  shows "set_encrypted_payload X data eb_new = Err B_Base64"
  using assms by (simp add: set_encrypted_payload_def base64_text_def)

lemma sample_key_file_kept:
  assumes "main_command sample_externals sample_parser sample_printers sample_system sample_fill 1
      (Ok (Some \<lparr>ca_command = Command_Encrypt None None None, ca_output = None\<rparr>)) sample_world = (r, w1)"
  shows "contents sample_system w1 [107] = Some [3]"
proof -
  let ?cli = "\<lparr>ca_command = Command_Encrypt None None None, ca_output = None\<rparr>"
  have "keeps (other_files (output_file sample_system ?cli))
      (main_command sample_externals sample_parser sample_printers sample_system sample_fill 1 (Ok (Some ?cli)))"
    by (rule main_command_other)
  with assms have "other_files (output_file sample_system ?cli) sample_world w1"
    unfolding keeps_def by (metis snd_conv)
  then show ?thesis
    by (simp add: other_files_def output_file_def contents_def sample_world_def path_push_def ascii_def)
qed

text \<open>
  C19. The default names do not fit together: encrypt reads \<open>descriptor.txt\<close> and writes \<open>descriptor.bin\<close>,
  decrypt reads \<open>descriptor.txt\<close>. So after a successful run of encrypt without file names, a run of decrypt
  without an input name is given the descriptor in clear, and fails as soon as that text is no base64,
  whatever the key.
\<close>

theorem default_names_do_not_fit:
  assumes "main_command X K T S fill s
      (Ok (Some \<lparr>ca_command = Command_Encrypt None msg None, ca_output = None\<rparr>)) w = (Ok (), w1)"
    and "sys_cwd S = Some cwd" "contents S w (path_push cwd (ascii ''descriptor.txt'')) = Some data"
    and "sys_file S (path_push cwd (ascii ''descriptor.txt'')) \<noteq> sys_file S (path_push cwd (ascii ''descriptor.bin''))"
    and "\<not> starts_with data MAGIC" "\<not> starts_with data V0_MAGIC" "ext_base64_decode X (trim data) = None"
    and "read_key_file K (contents S w1 key) True = Ok k"
  shows "main_command X K T S fill s'
      (Ok (Some \<lparr>ca_command = Command_Decrypt None (Some key), ca_output = out\<rparr>)) w1 =
    (Err (FailedToDecrypt B_Base64), w1)"
proof -
  let ?cli = "\<lparr>ca_command = Command_Encrypt None msg None, ca_output = None\<rparr>"
  let ?in = "path_push cwd (ascii ''descriptor.txt'')"
  have "keeps (other_files (output_file S ?cli)) (main_command X K T S fill s (Ok (Some ?cli)))"
    by (rule main_command_other)
  with assms(1) have o: "other_files (output_file S ?cli) w w1" unfolding keeps_def by (metis snd_conv)
  have "output_file S ?cli = sys_file S (path_push cwd (ascii ''descriptor.bin''))"
    using assms(2) by (simp add: output_file_def)
  with o assms(3,4) have "contents S w1 ?in = Some data"
    by (auto simp: contents_def other_files_def split: option.splits if_splits)
  then have "decrypt_command X K (contents S w1 key) True (contents S w1 ?in) = Err (FailedToDecrypt B_Base64)"
    using assms(5-8) by (simp add: decrypt_command_def not_a_backup)
  then show ?thesis
    by (simp add: decrypt_main_def path_or_default_def assms(2) then_step_def)
qed

theorem default_names_do_not_fit_witness:
  "\<exists>w1. main_command sample_externals sample_parser sample_printers sample_system sample_fill 1
      (Ok (Some \<lparr>ca_command = Command_Encrypt None None None, ca_output = None\<rparr>)) sample_world = (Ok (), w1) \<and>
    main_command sample_externals sample_parser sample_printers sample_system sample_fill 1
      (Ok (Some \<lparr>ca_command = Command_Decrypt None (Some [107]), ca_output = None\<rparr>)) w1 =
    (Err (FailedToDecrypt B_Base64), w1)"
proof -
  obtain w1 where r: "main_command sample_externals sample_parser sample_printers sample_system sample_fill 1
      (Ok (Some \<lparr>ca_command = Command_Encrypt None None None, ca_output = None\<rparr>)) sample_world = (Ok (), w1)"
    using sample_encrypt_run by blast
  have t: "trim [3] = [3]" "utf8_valid [3]" "\<not> starts_with [100] MAGIC" "\<not> starts_with [100] V0_MAGIC"
    "path_push [47] (ascii ''descriptor.txt'') \<noteq> path_push [47] (ascii ''descriptor.bin'')" by code_simp+
  from sample_key_file_kept [OF r] have k: "contents sample_system w1 [107] = Some [3]" .
  have "read_key_file sample_parser (contents sample_system w1 [107]) True =
      Ok (Some (DXPub (Some (0, DerivationPath [48])) 3 (DerivationPath []) Wildcard_None))"
    using t by (simp add: read_key_file_def k read_to_string_def sample_parser_def)
  from default_names_do_not_fit [OF r _ sample_input _ _ _ _ this] t r show ?thesis
    by (auto simp: sample_externals_def)
qed

section \<open>With and without an output file\<close>

lemma write_document_stdout:
  "write_document S T None bs w = (Ok (), w') \<Longrightarrow> wo_stdout w' = wo_stdout w @ bs"
  by (simp add: write_document_def stdout_write_all_def Let_def split: if_splits) auto

lemma write_document_file:
  "write_document S T (Some path) bs w = (Ok (), w') \<Longrightarrow> sys_file S path = Some f \<Longrightarrow> wo_files w' f = Some bs"
  by (auto simp: write_document_def step_simps fs_write_Ok dest!: println_Ok)

lemma write_json_stdout:
  "write_json S None json w = (Ok (), w') \<Longrightarrow> wo_stdout w' = wo_stdout w @ json @ [0x0A]"
  by (simp add: write_json_def println_def Let_def split: if_splits) auto

lemma write_json_file:
  "write_json S (Some path) json w = (Ok (), w') \<Longrightarrow> sys_file S path = Some f \<Longrightarrow> wo_files w' f = Some (json @ [0x0A])"
  by (auto simp: write_json_def fs_write_Ok)

lemma decrypt_main_writes:
  "decrypt_main X K T S file key out w = (Ok (), w') \<Longrightarrow>
     \<exists>document. write_document S T out document w = (Ok (), w') \<and>
       (\<forall>out v. decrypt_main X K T S file key out w = (Ok (), v) \<longrightarrow> write_document S T out document w = (Ok (), v))"
  by (auto simp: decrypt_main_def step_simps)

lemma inspect_main_writes:
  "inspect_main X T S file out w = (Ok (), w') \<Longrightarrow>
     \<exists>json. write_json S out json w = (Ok (), w') \<and>
       (\<forall>out v. inspect_main X T S file out w = (Ok (), v) \<longrightarrow> write_json S out json w = (Ok (), v))"
  by (auto simp: inspect_main_def step_simps)

text \<open>
  The output file of decrypt and inspect gets, byte for byte, what standard output would have got,
  the last newline included.
\<close>

theorem output_file_as_stdout:
  assumes "c = Command_Decrypt file key \<or> c = Command_Inspect file"
    and "main_command X K T S fill s (Ok (Some \<lparr>ca_command = c, ca_output = None\<rparr>)) w = (Ok (), w1)"
    and "main_command X K T S fill s (Ok (Some \<lparr>ca_command = c, ca_output = Some path\<rparr>)) w = (Ok (), w2)"
    and "sys_file S path = Some f"
  shows "\<exists>bs. wo_stdout w1 = wo_stdout w @ bs \<and> wo_files w2 f = Some bs"
  using assms(1)
proof
  assume c: "c = Command_Decrypt file key"
  from assms(2) have "decrypt_main X K T S file key None w = (Ok (), w1)" by (simp add: c)
  from decrypt_main_writes [OF this] assms(3) obtain document where
    o: "write_document S T None document w = (Ok (), w1)" and f: "write_document S T (Some path) document w = (Ok (), w2)"
    by (auto simp: c)
  from write_document_stdout [OF o] write_document_file [OF f assms(4)] show ?thesis by simp
next
  assume c: "c = Command_Inspect file"
  from assms(2) have "inspect_main X T S file None w = (Ok (), w1)" by (simp add: c)
  from inspect_main_writes [OF this] assms(3) obtain json where
    o: "write_json S None json w = (Ok (), w1)" and f: "write_json S (Some path) json w = (Ok (), w2)"
    by (auto simp: c)
  from write_json_stdout [OF o] write_json_file [OF f assms(4)] show ?thesis by simp
qed

theorem output_file_as_stdout_witness:
  "\<exists>w1 w2 w3 bs. main_command sample_externals sample_parser sample_printers sample_system sample_fill 1
      (Ok (Some \<lparr>ca_command = Command_Decrypt (Some [98]) (Some [107]), ca_output = None\<rparr>)) w1 = (Ok (), w2) \<and>
    main_command sample_externals sample_parser sample_printers sample_system sample_fill 1
      (Ok (Some \<lparr>ca_command = Command_Decrypt (Some [98]) (Some [107]), ca_output = Some [111]\<rparr>)) w1 = (Ok (), w3) \<and>
    wo_stdout w2 = wo_stdout w1 @ bs \<and> wo_files w3 [111] = Some bs"
proof -
  let ?m = "\<lambda>out. main_command sample_externals sample_parser sample_printers sample_system sample_fill 1
      (Ok (Some \<lparr>ca_command = Command_Decrypt (Some [98]) (Some [107]), ca_output = out\<rparr>))"
  have t: "trim [100] = [100]" "utf8_valid [100]" "trim [3] = [3]" "utf8_valid [3]" "sample_key 3 \<noteq> NUMS_XONLY" by code_simp+
  obtain e u where e: "encrypt sample_externals sample_fill 1 sample_wallet_builder = Ok (e, u)"
    and l: "rust_slice (enc_bytes e @ [])" using sample_wallet_encrypts by blast
  define w1 where "w1 = sample_world\<lparr>wo_files := [[98] \<mapsto> enc_bytes e, [107] \<mapsto> [3]]\<rparr>"
  from sample_wallet_opens [OF e] obtain r where
    r: "set_encrypted_payload sample_externals (enc_bytes e) eb_new = Ok r"
      "decrypt sample_externals (set_keys sample_backend [3] r) = Ok [Dec_Descriptor sample_descriptor]" by blast
  have d: "decrypt_command sample_externals sample_parser (Some [3]) True (Some (enc_bytes e)) = Ok [100, 10]"
    using t r by (simp add: decrypt_command_def read_key_file_def read_to_string_def sample_parser_def
        dpk_to_root_pk_def decrypted_to_document_def) (simp add: sample_backend_def decrypted_to_document_def)
  have c: "contents sample_system w1 [107] = Some [3]" "contents sample_system w1 [98] = Some (enc_bytes e)"
    by (simp_all add: contents_def w1_def)
  have m: "?m out w1 = write_document sample_system sample_printers out [100, 10] w1" for out
    by (simp add: decrypt_main_def path_or_default_def c d)
  have "\<exists>v. write_document sample_system sample_printers out [100, 10] w1 = (Ok (), v)" for out
    by (cases out) (simp_all add: write_document_def stdout_write_all_def fs_write_def then_step_def file_create_def
        write_all_def println_def Let_def)
  then obtain w2 w3 where a: "?m None w1 = (Ok (), w2)" and b: "?m (Some [111]) w1 = (Ok (), w3)"
    unfolding m by meson
  from output_file_as_stdout [OF disjI1 [OF refl] a b] obtain bs where
    "wo_stdout w2 = wo_stdout w1 @ bs" "wo_files w3 [111] = Some bs" by auto
  with a b show ?thesis by blast
qed

section \<open>With and without signing devices\<close>

text \<open>What the threads settle on, written out: what the build without devices does, on the same files.\<close>

lemma quiet_build_agrees:
  assumes "externals_return X"
    and prep: "andThen (path_or_default S file ''descriptor.txt'') (\<lambda>input_path.
     andThen (path_or_default S key ''xpub.txt'') (\<lambda>key_path.
     decrypt_prepare X K (contents S w key_path) (key \<noteq> None) (contents S w input_path))) = Ok (backup, pk)"
    and d: "su_devices P = None \<or> su_devices P = Some []"
    and run: "thread_run X P n (threads_start pk h) st" "th_main st = Main_Done message"
    and out: "then_step (pure (decrypt_output message)) (write_document S T out) w = (r, w')"
    and b: "su_backup P = backup"
  shows "decrypt_main X K T S file key out w = (r, w') \<or>
    (decrypt_main X K T S file key out w = (Err (FailedToDecrypt B_NoKey), w) \<and>
     (r, w') = (Err (FailedToDecrypt B_WrongKey), w))"
proof -
  from prep obtain input_path key_path where
    p: "path_or_default S file ''descriptor.txt'' = Ok input_path" "path_or_default S key ''xpub.txt'' = Ok key_path"
    "decrypt_prepare X K (contents S w key_path) (key \<noteq> None) (contents S w input_path) = Ok (backup, pk)"
    by (auto simp: outcome_simps)
  note m = run_without_device [OF assms(1) d run]
  have c: "decrypt_main X K T S file key out w = then_step (pure (decrypt_command X K (contents S w key_path) (key \<noteq> None)
      (contents S w input_path))) (write_document S T out) w"
    by (simp add: decrypt_main_def p then_step_def)
  show ?thesis
  proof (cases pk)
    case None
    with m c p(3) out show ?thesis
      by (simp add: decrypt_command_prepare decrypt_output_def)
  next
    case (Some k)
    let ?a = "decrypt X (set_keys (ext_backend X) [k] backup)"
    have e: "decrypt_command X K (contents S w key_path) (key \<noteq> None) (contents S w input_path) =
        decrypt_output (worker_message X ?a)" using p(3) Some by (simp add: decrypt_command_prepare)
    have "missed ?a \<Longrightarrow> ?a = Err B_WrongKey \<or> ?a = Err B_NoKey" by (cases ?a) auto
    with m Some c e out b show ?thesis
      by (cases "missed ?a") (auto simp: decrypt_output_def then_step_def)
  qed
qed

lemma lines_keep_contents: "contents S (snd (for_each (print_line S) ls w)) path = contents S w path"
  unfolding contents_def lines_keep_files by (rule refl)

text \<open>
  C18. The two builds of decrypt agree when no device is found, up to the lines that looking for one prints:
  a build with signing devices ends, whatever the schedule of its threads, as the build without them ends
  between two parts of those lines, with the same result, files and output. The one other difference is
  that a refusal for want of a key is reported as a wrong key. The lines are none if the enumeration of
  Jades succeeds and none stays locked; the error of a failed enumeration goes to standard output, where
  the document goes. Asked of the third parties, as in C13: no panic of their own, results that fit in
  memory, and no template of \<open>2 ^ 32\<close> keys from miniscript's parser.
\<close>

theorem device_build_agrees:
  assumes "third_parties_return X" "bounded_templates M parse_template"
    and "from_wallet_policy (ext_backend X) = miniscript_from_wallet_policy M parse_template"
    and "\<And>network. found_devices L E network = None \<or> found_devices L E network = Some []"
    and "decrypt_device_main X K T S L E public_key h file key testnet prompting out w r w'"
  shows "\<exists>early late lost w1 w2.
    early @ late @ lost = list_lines L (if testnet then Testnet else Bitcoin) \<and>
    w1 = snd (for_each (print_line S) early w) \<and>
    (decrypt_main X K T S file key out w1 = (r, w2) \<or>
     (decrypt_main X K T S file key out w1 = (Err (FailedToDecrypt B_NoKey), w1) \<and>
      (r, w2) = (Err (FailedToDecrypt B_WrongKey), w1))) \<and>
    w' = snd (for_each (print_line S) late w2)"
  using assms(5)
proof cases
  case (device_main_early e)
  then have "decrypt_main X K T S file key out w = (Err e, w)"
    by (auto simp: decrypt_main_def decrypt_command_prepare then_step_def outcome_simps split: outcome.splits)
  with device_main_early show ?thesis
    by (intro exI [of _ "[]"] exI [of _ "list_lines L (if testnet then Testnet else Bitcoin)"] exI [of _ w]) simp
next
  case (device_main_end backup pk network devices n st message early late lost logged printed w1 w2)
  let ?P = "\<lparr>su_backup = backup, su_collector = decrypt_collector backup testnet prompting,
    su_devices = devices, su_public_key = public_key\<rparr>"
  have d: "devices = None \<or> devices = Some []" using device_main_end(3) assms(4) [of network] by auto
  have w1: "w1 = snd (for_each (print_line S) early w)" using device_main_end(7) by simp
  have "decrypt_main X K T S file key out w1 = (r, w2) \<or>
     (decrypt_main X K T S file key out w1 = (Err (FailedToDecrypt B_NoKey), w1) \<and>
      (r, w2) = (Err (FailedToDecrypt B_WrongKey), w1))"
    by (rule quiet_build_agrees [OF miniscript_externals_return [OF assms(3,2,1)] _ _ device_main_end(4,5,9)])
      (use device_main_end(1) d w1 in \<open>simp_all add: lines_keep_contents\<close>)
  moreover have "early @ late @ lost = list_lines L (if testnet then Testnet else Bitcoin)"
    using device_main_end(2,6) d by auto
  ultimately show ?thesis using w1 device_main_end(10) by blast
qed

text \<open>An enumeration of Jades that fails, on a system without a HID interface.\<close>

definition broken_library :: "(unit, u8, bool, unit, unit) device_library" where
  "broken_library = sample_library\<lparr>lib_jades := Inl [65], lib_hid := None\<rparr>"

theorem device_build_agrees_witness:
  "\<exists>w w' early late lost w1 w2. decrypt_device_main deaf_externals sample_parser sample_printers sample_system broken_library
      \<lparr>env_home = None, env_create_dir_all = (\<lambda>d. True)\<rparr> (\<lambda>x. x) () (Some [98]) (Some [107]) False False None w
      (Err (FailedToDecrypt B_WrongPayload)) w' \<and>
    wo_stdout w' = wo_stdout w @ [65, 10] \<and>
    early @ late @ lost = [To_Stdout [65]] \<and> w1 = snd (for_each (print_line sample_system) early w) \<and>
    decrypt_main deaf_externals sample_parser sample_printers sample_system (Some [98]) (Some [107]) None w1 =
      (Err (FailedToDecrypt B_WrongPayload), w2)"
proof -
  let ?w = "sample_world\<lparr>wo_files := [[98] \<mapsto> V0_MAGIC, [107] \<mapsto> [3]]\<rparr>"
  let ?E = "\<lparr>env_home = None, env_create_dir_all = (\<lambda>d. True)\<rparr>"
  let ?b = "eb_new\<lparr>eb_payload := Payload_DecryptV0 V0_MAGIC\<rparr> :: (u8, sample_dpk) encrypted_backup"
  let ?P = "\<lparr>su_backup = ?b, su_collector = decrypt_collector ?b False False,
    su_devices = None :: (unit, u8) device list option, su_public_key = (\<lambda>x. x)\<rparr>"
  have t: "trim [3] = [3]" "utf8_valid [3]" "\<not> starts_with V0_MAGIC MAGIC" "starts_with V0_MAGIC V0_MAGIC" by code_simp+
  have k: "read_key_file sample_parser (Some [3]) True =
      Ok (Some (DXPub (Some (0, DerivationPath [48])) 3 (DerivationPath []) Wildcard_None))"
    using t by (simp add: read_key_file_def read_to_string_def sample_parser_def)
  have p: "decrypt_prepare deaf_externals sample_parser (Some [3]) True (Some V0_MAGIC) = Ok (?b, Some 3)"
    using t by (simp add: decrypt_prepare_def k set_encrypted_payload_def dpk_to_root_pk_def deaf_externals_def
        sample_backend_def)
  have st: "steady_setup ?P ans" for ans by (simp add: steady_setup_def)
  have e: "attempt deaf_externals ?P 3 = Err B_WrongPayload"
    by (simp add: decrypt_def decrypt_with_def set_keys_def eb_new_def exposed_def deaf_externals_def sample_externals_def
        try_v0_decrypt_def Let_def)
  obtain n s message where r: "thread_run deaf_externals ?P n (threads_start (Some 3) ()) s" "th_main s = Main_Done message"
    using some_run_ends [OF externals_reply [OF deaf_externals_return], where P = ?P and key = "Some 3" and h = "()"] by blast
  have m: "message = Err (FailedToDecrypt B_WrongPayload)"
    using reply_without_device [OF threads_reply [OF deaf_externals_return st r]] e by simp
  have l: "list_lines broken_library network = [To_Stdout [65]]"
    and f: "found_devices broken_library ?E network = None" for network
    by (simp_all add: list_lines_def found_devices_def list_devices_eq broken_library_def)
  let ?w1 = "?w\<lparr>wo_stdout := wo_stdout ?w @ [65, 10]\<rparr>"
  have run: "decrypt_device_main deaf_externals sample_parser sample_printers sample_system broken_library ?E
      (\<lambda>x. x) () (Some [98]) (Some [107]) False False None ?w (Err (FailedToDecrypt B_WrongPayload)) ?w1"
    by (rule device_main_end [OF _ refl disjI1 [OF refl] _ r(2), where early = "[To_Stdout [65]]" and late = "[]"
          and lost = "[]" and printed = "Ok ()" and ?w1.0 = ?w1 and ?w2.0 = ?w1 and logged = "[]"])
      (use p r(1) in \<open>simp_all add: path_or_default_def contents_def m decrypt_output_def then_step_def l f println_def Let_def\<close>)
  from device_build_agrees [OF deaf_third_parties sample_templates_bounded deaf_rebuilds _ run] f obtain early late lost w1 w2 where
    a: "early @ late @ lost = [To_Stdout [65]]" "w1 = snd (for_each (print_line sample_system) early ?w)"
      "decrypt_main deaf_externals sample_parser sample_printers sample_system (Some [98]) (Some [107]) None w1 =
        (Err (FailedToDecrypt B_WrongPayload), w2)" unfolding l by auto
  show ?thesis
    by (rule exI [of _ ?w], rule exI [of _ ?w1]) (use run a in auto)
qed

section \<open>An output file that collects keys\<close>

text \<open>
  Fetching into one file again and again collects the keys: after any number of runs of fetch with
  the same output file, the file has the lines it had before, and then one line per run, in order.
\<close>

theorem fetches_collect_lines:
  assumes "for_each (\<lambda>line. fetch_main S (Ok line) (Some path)) ls w = (Ok (), w')" "sys_file S path = Some f"
    and "whole_lines (text_of w f)" "list_all line_text ls"
  shows "lines_of (text_of w' f) = lines_of (text_of w f) @ ls"
  using assms by (rule fetches_append)

theorem fetches_collect_lines_witness:
  "\<exists>w'. for_each (\<lambda>line. fetch_main sample_system (Ok line) (Some [120])) [[65], [66]] sample_world = (Ok (), w') \<and>
    lines_of (text_of w' [120]) = [[65], [66]]"
proof -
  have f: "\<exists>w'. fetch_main sample_system (Ok line) (Some [120]) w = (Ok (), w')" for line w
    by (simp add: fetch_main_def append_to_file_def then_step_def file_append_def write_all_def Let_def)
  obtain w' where r: "for_each (\<lambda>line. fetch_main sample_system (Ok line) (Some [120])) [[65], [66]] sample_world = (Ok (), w')"
    using sample_for_each [of "\<lambda>line. fetch_main sample_system (Ok line) (Some [120])"] f by blast
  have t: "text_of sample_world [120] = []" by (simp add: text_of_def sample_world_def path_push_def ascii_def)
  have l: "list_all line_text [[65], [66]]" by (simp add: line_text_def strip_cr_def)
  from fetches_collect_lines [OF r _ _ l, of "[120]"] r show ?thesis
    by (auto simp: t whole_lines_def lines_of_def)
qed

section \<open>A run of encrypt writes what the command computes\<close>

lemma key_file_Ok:
  "(case key_path of
       Some path \<Rightarrow> then_step (fs_read_to_string S path) (\<lambda>t. pure (parse_wrap_keys K t))
     | None \<Rightarrow> pure (Ok [])) w = (Ok levels, w') \<longleftrightarrow>
   w' = w \<and> (case map_option (contents S w) key_path of
       Some f \<Rightarrow> andThen (ok_or ReadError (read_to_string f)) (\<lambda>t. parse_wrap_keys K t)
     | None \<Rightarrow> Ok []) = Ok levels"
  by (cases key_path) (auto simp: step_simps fs_read_to_string_def outcome_simps)

text \<open>What a run that writes a backup leaves: the file, and the lines about paths and warnings.\<close>

definition backup_written ::
  "('pk, 'x) printers \<Rightarrow> bytes \<Rightarrow> 'f \<Rightarrow> bytes \<Rightarrow> deriv_path list \<Rightarrow> ('pk, ('pk, 'x) dpk) warning list \<Rightarrow>
   'f world \<Rightarrow> 'f world" where
  "backup_written T path f bs paths ws w =
     \<lparr>wo_files = (wo_files w)(f := Some bs),
      wo_stdout = wo_stdout w @ text_lines (map (\<lambda>p. ascii ''using derivation path '' @ pr_path T p) paths @
        [ascii ''descriptor written to '' @ pr_quoted T path]),
      wo_stderr = wo_stderr w @ text_lines (map (warning_text T) ws)\<rparr>"

lemma encrypt_rest_plain:
  assumes "encrypt_rest X K T S fill s msg [] descriptor path w = (Ok (), w')"
  shows "\<exists>b e s' f. descriptor_backup X msg descriptor = Ok b \<and> encrypt X fill s b = Ok (e, s') \<and>
    sys_file S path = Some f \<and> w' = backup_written T path f (enc_bytes e) (eb_derivation_paths b) (eb_warnings b) w"
proof -
  from assms obtain b v1 v2 e s' where b: "descriptor_backup X msg descriptor = Ok b"
    and v1: "for_each (\<lambda>path. println S (ascii ''using derivation path '' @ pr_path T path)) (eb_derivation_paths b) w = (Ok (), v1)"
    and v2: "print_warnings S T (eb_warnings b) v1 = (Ok (), v2)"
    and e: "encrypt X fill s b = Ok (e, s')" "write_backup S T path (enc_bytes e) v2 = (Ok (), w')"
    by (auto simp: encrypt_rest_def step_simps outcome_simps)
  from write_backup_Ok [OF e(2)] b e(1) println_all [OF v1] print_warnings_Ok [OF v2] show ?thesis
    by (auto simp: backup_written_def warned_def)
qed

lemma encrypt_rest_levels:
  assumes "encrypt_rest X K T S fill s msg levels descriptor path w = (Ok (), w')" "levels \<noteq> []"
  shows "\<exists>e1 s1 e s' f. descriptor_level_value X K fill s (last levels) msg descriptor = Ok (e1, s1) \<and>
    wrap_value X K fill s1 (rev (butlast levels)) e1 = Ok (e, s') \<and>
    sys_file S path = Some f \<and> w' = backup_written T path f (enc_bytes e) [] (enc_warnings e1) w"
proof -
  from assms obtain e1 s1 e s' v1 v2 where
    l: "encrypt_descriptor_level X K T S fill s (last levels) msg descriptor w = (Ok (e1, s1), v1)"
      "wrap_outer X K T S fill s1 (rev (butlast levels)) e1 v1 = (Ok (e, s'), v2)"
    and b: "write_backup S T path (enc_bytes e) v2 = (Ok (), w')"
    by (auto simp: encrypt_rest_def step_simps)
  from write_backup_Ok [OF b] encrypt_descriptor_level_Ok [OF l(1)] wrap_outer_Ok [OF l(2)] show ?thesis
    by (auto simp: backup_written_def warned_def)
qed

text \<open>
  C9. A run of encrypt that succeeds leaves in its output file, and nowhere else, exactly the bytes that
  the command computes from the contents of the input and of the key file. It has printed the derivation
  paths it uses, when there is no key file, and the name of the output, and on standard error the
  warnings of the backup of the descriptor, in either case; the levels around it have none.
\<close>

theorem encrypt_run_refines:
  assumes "main_command X K T S fill s
      (Ok (Some \<lparr>ca_command = Command_Encrypt file msg key_path, ca_output = out\<rparr>)) w = (Ok (), w')"
  shows "\<exists>input_path output_path f bs s' paths ws.
    path_or_default S file ''descriptor.txt'' = Ok input_path \<and> path_or_default S out ''descriptor.bin'' = Ok output_path \<and>
    encrypt_command X K fill s (contents S w input_path) msg (map_option (contents S w) key_path) = Ok (bs, s') \<and>
    encrypt_report X K fill s (contents S w input_path) msg (map_option (contents S w) key_path) = Ok (paths, ws) \<and>
    sys_file S output_path = Some f \<and> w' = backup_written T output_path f bs paths ws w"
proof -
  from assms obtain input_path output_path data levels descriptor where
    p: "path_or_default S file ''descriptor.txt'' = Ok input_path" "path_or_default S out ''descriptor.bin'' = Ok output_path"
    and d: "read_to_string (contents S w input_path) = Some data"
      "parse_descriptor (ext_backend X) (trim data) = Some descriptor"
    and l: "(case map_option (contents S w) key_path of
         Some f \<Rightarrow> andThen (ok_or ReadError (read_to_string f)) (\<lambda>t. parse_wrap_keys K t)
       | None \<Rightarrow> Ok []) = Ok levels"
    and r: "encrypt_rest X K T S fill s msg levels descriptor output_path w = (Ok (), w')"
    by (auto simp: encrypt_main_rest step_simps key_file_Ok fs_read_to_string_def outcome_simps)
  show ?thesis
  proof (cases "levels = []")
    case True
    from encrypt_rest_plain [OF r [unfolded True]] obtain b e s' f where
      "descriptor_backup X msg descriptor = Ok b" "encrypt X fill s b = Ok (e, s')" "sys_file S output_path = Some f"
      "w' = backup_written T output_path f (enc_bytes e) (eb_derivation_paths b) (eb_warnings b) w" by blast
    then show ?thesis
      using p d unfolding encrypt_command_def encrypt_report_def l by (auto simp: True)
  next
    case False
    from encrypt_rest_levels [OF r False] obtain e1 s1 e s' f where
      "descriptor_level_value X K fill s (last levels) msg descriptor = Ok (e1, s1)"
      "wrap_value X K fill s1 (rev (butlast levels)) e1 = Ok (e, s')" "sys_file S output_path = Some f"
      "w' = backup_written T output_path f (enc_bytes e) [] (enc_warnings e1) w" by blast
    then show ?thesis
      using p d unfolding encrypt_command_def encrypt_report_def l by (auto simp: False)
  qed
qed

theorem encrypt_run_refines_witness:
  "\<exists>w' bs s'. main_command sample_externals sample_parser sample_printers sample_system sample_fill 1
      (Ok (Some \<lparr>ca_command = Command_Encrypt None None None, ca_output = Some [111]\<rparr>)) sample_world = (Ok (), w') \<and>
    encrypt_command sample_externals sample_parser sample_fill 1 (Some [100]) None None = Ok (bs, s') \<and>
    wo_files w' [111] = Some bs"
proof -
  obtain w' where r: "main_command sample_externals sample_parser sample_printers sample_system sample_fill 1
      (Ok (Some \<lparr>ca_command = Command_Encrypt None None None, ca_output = Some [111]\<rparr>)) sample_world = (Ok (), w')"
    using sample_encrypt_run by blast
  have o: "path_or_default sample_system (Some [111]) name = Ok [111]" for name by (simp add: path_or_default_def)
  from encrypt_run_refines [OF r] obtain f bs s' paths ws where
    "encrypt_command sample_externals sample_parser sample_fill 1
      (contents sample_system sample_world (path_push [47] (ascii ''descriptor.txt''))) None None = Ok (bs, s')"
    "sys_file sample_system [111] = Some f" "w' = backup_written sample_printers [111] f bs paths ws sample_world"
    unfolding sample_input_path o by auto
  with r show ?thesis unfolding sample_input by (auto simp: backup_written_def)
qed

end
