(* ===== verification/Rust_Bitcoin.thy ===== *)
theory Rust_Bitcoin
  imports Scheme
begin

text \<open>
  The bundled provider of primitives (\<open>RustBitcoin\<close> in \<open>bip138-ll/src/crypto.rs\<close>), over the hash and the
  detached-tag cipher of the crates it calls. Shown: the laws the scheme asks of a provider follow from
  what these crates document, and what the provider does with a ciphertext that is too short.
\<close>

section \<open>The crates\<close>

text \<open>
  \<open>encrypt\<close> works in place on a copy of the plaintext and returns the tag; \<open>decrypt\<close> fails when the tag does
  not verify.
\<close>

record cipher_library =
  lib_sha256 :: "bytes \<Rightarrow> bytes"
  lib_encrypt :: "bytes \<Rightarrow> bytes \<Rightarrow> bytes \<Rightarrow> bytes \<times> bytes"
  lib_decrypt :: "bytes \<Rightarrow> bytes \<Rightarrow> bytes \<Rightarrow> bytes \<Rightarrow> bytes option"

text \<open>RFC 8439: tags of 16 bytes, a stream cipher, and decryption that inverts encryption.\<close>

definition cipher_laws :: "cipher_library \<Rightarrow> bool" where
  "cipher_laws L \<longleftrightarrow>
     (\<forall>d. length (lib_sha256 L d) = 32) \<and>
     (\<forall>k n p. length (fst (lib_encrypt L k n p)) = length p \<and> length (snd (lib_encrypt L k n p)) = 16 \<and>
        lib_decrypt L k n (fst (lib_encrypt L k n p)) (snd (lib_encrypt L k n p)) = Some p) \<and>
     (\<forall>k n c t p. lib_decrypt L k n c t = Some p \<longrightarrow> length p = length c)"

section \<open>The provider\<close>

definition TAG_LEN :: nat where
  "TAG_LEN = 16"

definition rust_bitcoin_encrypt :: "cipher_library \<Rightarrow> bytes \<Rightarrow> bytes \<Rightarrow> bytes \<Rightarrow> bytes option" where
  "rust_bitcoin_encrypt L key nonce plaintext =
     (let (out, tag) = lib_encrypt L key nonce plaintext in Some (out @ tag))"

definition rust_bitcoin_decrypt :: "cipher_library \<Rightarrow> bytes \<Rightarrow> bytes \<Rightarrow> bytes \<Rightarrow> bytes option" where
  "rust_bitcoin_decrypt L key nonce ciphertext =
     Option.bind (if length ciphertext < TAG_LEN then None else Some (length ciphertext - TAG_LEN)) (\<lambda>split.
     let (ciphertext, tag) = (take split ciphertext, drop split ciphertext) in
     if length tag \<noteq> TAG_LEN then None else lib_decrypt L key nonce ciphertext tag)"

definition rust_bitcoin :: "cipher_library \<Rightarrow> crypto" where
  "rust_bitcoin L =
     \<lparr>sha256 = lib_sha256 L, aead_encrypt = rust_bitcoin_encrypt L, aead_decrypt = rust_bitcoin_decrypt L\<rparr>"

section \<open>Its laws\<close>

lemma rust_bitcoin_opens:
  assumes "cipher_laws L"
  shows "rust_bitcoin_decrypt L k n c = Some p \<Longrightarrow> length c = length p + 16"
proof -
  assume "rust_bitcoin_decrypt L k n c = Some p"
  then have s: "16 \<le> length c" and d: "lib_decrypt L k n (take (length c - 16) c) (drop (length c - 16) c) = Some p"
    by (auto simp: rust_bitcoin_decrypt_def TAG_LEN_def Let_def split: if_splits)
  from assms d have "length p = length (take (length c - 16) c)" unfolding cipher_laws_def by blast
  with s show ?thesis by simp
qed

lemma rust_bitcoin_inverts:
  assumes "cipher_laws L" "rust_bitcoin_encrypt L k n p = Some c"
  shows "rust_bitcoin_decrypt L k n c = Some p \<and> length c = length p + 16"
proof -
  obtain out tag where e: "lib_encrypt L k n p = (out, tag)" by fastforce
  with assms(1) have l: "length out = length p" "length tag = 16" "lib_decrypt L k n out tag = Some p"
    unfolding cipher_laws_def by (metis fst_conv snd_conv)+
  with assms(2) e show ?thesis
    by (auto simp: rust_bitcoin_encrypt_def rust_bitcoin_decrypt_def TAG_LEN_def)
qed

text \<open>
  C22. The bundled provider meets what the scheme asks of a provider: hashes of 32 bytes, ciphertexts that
  decrypt to what was encrypted and are 16 bytes longer, encryption that never fails; and no ciphertext
  opens that is not 16 bytes longer than its plaintext, so one shorter than a tag is refused.
  Asked of the crates: what RFC 8439 says of the cipher.
\<close>

theorem bundled_provider_lawful:
  assumes "cipher_laws L"
  shows "sha256_sized (rust_bitcoin L) \<and> aead_correct (rust_bitcoin L) \<and> aead_total (rust_bitcoin L) \<and>
    (\<forall>k n c p. aead_decrypt (rust_bitcoin L) k n c = Some p \<longrightarrow> length c = length p + 16)"
proof (intro conjI)
  show "sha256_sized (rust_bitcoin L)"
    using assms by (simp add: sha256_sized_def rust_bitcoin_def cipher_laws_def)
  show "aead_correct (rust_bitcoin L)"
    unfolding aead_correct_def rust_bitcoin_def using rust_bitcoin_inverts [OF assms] by simp
  show "aead_total (rust_bitcoin L)"
    unfolding aead_total_def
  proof (intro allI)
    fix k n p
    obtain c where c: "rust_bitcoin_encrypt L k n p = Some c"
      by (cases "lib_encrypt L k n p") (simp add: rust_bitcoin_encrypt_def)
    with rust_bitcoin_inverts [OF assms c] show "\<exists>c. aead_encrypt (rust_bitcoin L) k n p = Some c \<and> c \<noteq> []"
      by (auto simp: rust_bitcoin_def)
  qed
  show "\<forall>k n c p. aead_decrypt (rust_bitcoin L) k n c = Some p \<longrightarrow> length c = length p + 16"
    using rust_bitcoin_opens [OF assms] by (simp add: rust_bitcoin_def)
qed

text \<open>A cipher that checks a constant tag.\<close>

definition plain_library :: cipher_library where
  "plain_library = \<lparr>lib_sha256 = (\<lambda>d. replicate 32 1), lib_encrypt = (\<lambda>k n p. (p, replicate 16 7)),
     lib_decrypt = (\<lambda>k n c t. if t = replicate 16 7 then Some c else None)\<rparr>"

theorem bundled_provider_lawful_witness:
  "aead_correct (rust_bitcoin plain_library) \<and> aead_decrypt (rust_bitcoin plain_library) [] [] (replicate 15 7) = None"
proof -
  have l: "cipher_laws plain_library" by (auto simp: cipher_laws_def plain_library_def)
  from bundled_provider_lawful [OF l] have a: "aead_correct (rust_bitcoin plain_library)"
    and b: "\<forall>k n c p. aead_decrypt (rust_bitcoin plain_library) k n c = Some p \<longrightarrow> length c = length p + 16" by blast+
  have "aead_decrypt (rust_bitcoin plain_library) [] [] (replicate 15 7) = None"
  proof (rule ccontr)
    assume "aead_decrypt (rust_bitcoin plain_library) [] [] (replicate 15 7) \<noteq> None"
    then obtain p where "aead_decrypt (rust_bitcoin plain_library) [] [] (replicate 15 7) = Some p" by blast
    with b have "length (replicate 15 (7 :: u8)) = length p + 16" by blast
    then show False by simp
  qed
  with a show ?thesis by blast
qed

end
