(* ===== verification/Policy_Json.thy ===== *)
theory Policy_Json
  imports Policy_Backup
begin

text \<open>
  The JSON of wallet policy documents, as the derived implementations of \<open>src/policy_backup.rs\<close> lay it
  out: which fields are written, under which names and in which order, which may be left out, and what
  is accepted for each. The text of JSON is serde_json's, the text of a key miniscript's. Shown: the round
  trip of the documents, and the form each of them is written in.
\<close>

section \<open>JSON\<close>

text \<open>What is written: the fields of an object in the order of the writer.\<close>

datatype json =
    JBool bool
  | JNumber nat
  | JString bytes
  | JArray "json list"
  | JObject "(string \<times> json) list"

text \<open>What is read, where the fields have no order; \<open>VFloat\<close> is any number that is no \<open>u64\<close>.\<close>

datatype json_value =
    VNull
  | VBool bool
  | VNumber nat
  | VFloat
  | VString bytes
  | VArray "json_value list"
  | VObject "string \<Rightarrow> json_value option"

fun value_of :: "json \<Rightarrow> json_value" where
  "value_of (JBool b) = VBool b"
| "value_of (JNumber n) = VNumber n"
| "value_of (JString s) = VString s"
| "value_of (JArray js) = VArray (map value_of js)"
| "value_of (JObject fs) = VObject (map_of (map (\<lambda>(name, j). (name, value_of j)) fs))"

section \<open>Writing\<close>

definition range_json :: "u32 \<times> u32 \<Rightarrow> json" where
  "range_json r = JArray [JNumber (unat (fst r)), JNumber (unat (snd r))]"

definition policy_set_json :: "('dk \<Rightarrow> bytes) \<Rightarrow> 'dk policy_set \<Rightarrow> json" where
  "policy_set_json key_text s =
     JObject ([(''keys'', JArray (map (\<lambda>k. JString (key_text k)) (ps_keys s))), (''policy'', JString (ps_policy s))] @
       (if ps_archived s then [(''archived'', JBool True)] else []) @
       (case ps_range s of Some r \<Rightarrow> [(''range'', range_json r)] | None \<Rightarrow> []) @
       (case ps_birth_time s of Some t \<Rightarrow> [(''birth_time'', JNumber (unat t))] | None \<Rightarrow> []))"

definition policy_backup_json :: "('dk \<Rightarrow> bytes) \<Rightarrow> 'dk policy_backup \<Rightarrow> json" where
  "policy_backup_json key_text backup =
     JObject [(''version'', JNumber (unat (pb_version backup))),
       (''policy_sets'', JArray (map (policy_set_json key_text) (pb_policy_sets backup)))]"

section \<open>Reading\<close>

fun read_bool :: "json_value \<Rightarrow> bool option" where
  "read_bool (VBool b) = Some b"
| "read_bool _ = None"

fun read_u32 :: "json_value \<Rightarrow> u32 option" where
  "read_u32 (VNumber n) = (if n < 2 ^ 32 then Some (word_of_nat n) else None)"
| "read_u32 _ = None"

fun read_u64 :: "json_value \<Rightarrow> u64 option" where
  "read_u64 (VNumber n) = (if n < 2 ^ 64 then Some (word_of_nat n) else None)"
| "read_u64 _ = None"

fun read_string :: "json_value \<Rightarrow> bytes option" where
  "read_string (VString s) = Some s"
| "read_string _ = None"

fun read_items :: "(json_value \<Rightarrow> 'a option) \<Rightarrow> json_value list \<Rightarrow> 'a list option" where
  "read_items f [] = Some []"
| "read_items f (v # vs) = Option.bind (f v) (\<lambda>x. map_option (Cons x) (read_items f vs))"

fun read_list :: "(json_value \<Rightarrow> 'a option) \<Rightarrow> json_value \<Rightarrow> 'a list option" where
  "read_list f (VArray vs) = read_items f vs"
| "read_list f _ = None"

fun read_pair :: "json_value \<Rightarrow> (u32 \<times> u32) option" where
  "read_pair (VArray [a, b]) = Option.bind (read_u32 a) (\<lambda>x. map_option (Pair x) (read_u32 b))"
| "read_pair _ = None"

definition read_option :: "(json_value \<Rightarrow> 'a option) \<Rightarrow> json_value \<Rightarrow> 'a option option" where
  "read_option f v = (if v = VNull then Some None else map_option Some (f v))"

text \<open>
  A struct is read from an object, by name and whatever the other fields are, or from an array with its
  fields in order. A field that is not there has its default, if it has one.
\<close>

definition struct_field ::
  "json_value \<Rightarrow> nat \<Rightarrow> string \<Rightarrow> 'a option \<Rightarrow> (json_value \<Rightarrow> 'a option) \<Rightarrow> 'a option" where
  "struct_field v i name missing f =
     (case v of
        VObject fs \<Rightarrow> (case fs name of Some x \<Rightarrow> f x | None \<Rightarrow> missing)
      | VArray vs \<Rightarrow> if i < length vs then f (vs ! i) else missing
      | _ \<Rightarrow> None)"

definition struct_size :: "json_value \<Rightarrow> nat \<Rightarrow> bool" where
  "struct_size v n = (case v of VArray vs \<Rightarrow> length vs \<le> n | _ \<Rightarrow> True)"

definition read_key :: "(bytes \<Rightarrow> 'dk option) \<Rightarrow> json_value \<Rightarrow> 'dk option" where
  "read_key key_of v = Option.bind (read_string v) key_of"

definition read_policy_set :: "(bytes \<Rightarrow> 'dk option) \<Rightarrow> json_value \<Rightarrow> 'dk policy_set option" where
  "read_policy_set key_of v =
     (if \<not> struct_size v 5 then None
      else
        Option.bind (struct_field v 0 ''keys'' None (read_list (read_key key_of))) (\<lambda>ks.
        Option.bind (struct_field v 1 ''policy'' None read_string) (\<lambda>policy.
        Option.bind (struct_field v 2 ''archived'' (Some False) read_bool) (\<lambda>archived.
        Option.bind (struct_field v 3 ''range'' (Some None) (read_option read_pair)) (\<lambda>range.
        Option.bind (struct_field v 4 ''birth_time'' (Some None) (read_option read_u64)) (\<lambda>birth_time.
        Some \<lparr>ps_keys = ks, ps_policy = policy, ps_archived = archived, ps_range = range, ps_birth_time = birth_time\<rparr>))))))"

definition read_policy_backup :: "(bytes \<Rightarrow> 'dk option) \<Rightarrow> json_value \<Rightarrow> 'dk policy_backup option" where
  "read_policy_backup key_of v =
     (if \<not> struct_size v 2 then None
      else
        Option.bind (struct_field v 0 ''version'' None read_u32) (\<lambda>version.
        Option.bind (struct_field v 1 ''policy_sets'' None (read_list (read_policy_set key_of))) (\<lambda>sets.
        Some \<lparr>pb_version = version, pb_policy_sets = sets\<rparr>)))"

text \<open>The JSON of the documents, over a writer and a reader of text.\<close>

definition derived_json ::
  "(json \<Rightarrow> bytes) \<Rightarrow> (bytes \<Rightarrow> json_value option) \<Rightarrow> ('dk \<Rightarrow> bytes) \<Rightarrow> (bytes \<Rightarrow> 'dk option) \<Rightarrow>
   (json_value, 'dk) policy_json" where
  "derived_json write read key_text key_of = \<lparr>
     json_to_value = read,
     value_object = (\<lambda>v. case v of VObject fs \<Rightarrow> Some (dom fs) | _ \<Rightarrow> None),
     value_to_policy_backup = read_policy_backup key_of,
     value_to_policy_set = read_policy_set key_of,
     policy_backup_to_json = (\<lambda>b. Some (write (policy_backup_json key_text b))),
     policy_set_to_json = (\<lambda>s. Some (write (policy_set_json key_text s)))\<rparr>"

section \<open>What is written is read\<close>

lemma map_of_values: "map_of (map (\<lambda>(name, j). (name, value_of j)) fs) name = map_option value_of (map_of fs name)"
  by (induction fs) auto

lemma read_items_map:
  "(\<And>x. x \<in> set xs \<Longrightarrow> f (g x) = Some x) \<Longrightarrow> read_items f (map g xs) = Some xs"
  by (induction xs) simp_all

lemma read_range: "read_option read_pair (value_of (range_json r)) = Some (Some r)"
  using unat_lt2p [of "fst r"] unat_lt2p [of "snd r"] by (simp add: range_json_def read_option_def)

lemma read_birth_time: "read_option read_u64 (VNumber (unat (t :: u64))) = Some (Some t)"
  using unat_lt2p [of t] by (simp add: read_option_def)

lemma read_written_set:
  assumes "\<And>k. k \<in> set (ps_keys s) \<Longrightarrow> key_of (key_text k) = Some k"
  shows "read_policy_set key_of (value_of (policy_set_json key_text s)) = Some s"
proof -
  have "read_items (read_key key_of) (map (\<lambda>k. VString (key_text k)) (ps_keys s)) = Some (ps_keys s)"
    by (rule read_items_map) (simp add: read_key_def assms)
  then show ?thesis
    by (cases s)
      (simp add: read_policy_set_def policy_set_json_def struct_field_def struct_size_def map_of_values comp_def
        read_range read_birth_time split: option.split)
qed

lemma read_written_backup:
  assumes "\<And>k. k \<in> set (all_keys backup) \<Longrightarrow> key_of (key_text k) = Some k"
  shows "read_policy_backup key_of (value_of (policy_backup_json key_text backup)) = Some backup"
proof -
  have "read_items (read_policy_set key_of) (map (\<lambda>s. value_of (policy_set_json key_text s)) (pb_policy_sets backup)) =
      Some (pb_policy_sets backup)"
    by (rule read_items_map, rule read_written_set) (use assms in \<open>auto simp: all_keys_def\<close>)
  moreover have "unat (pb_version backup) < 2 ^ 32" using unat_lt2p [of "pb_version backup"] by simp
  ultimately show ?thesis
    by (simp add: read_policy_backup_def policy_backup_json_def struct_field_def struct_size_def comp_def)
qed

text \<open>What the text of one document has to do: be an object in UTF-8 that is read as it was written.\<close>

definition reads_back :: "(json \<Rightarrow> bytes) \<Rightarrow> (bytes \<Rightarrow> json_value option) \<Rightarrow> json \<Rightarrow> bool" where
  "reads_back write read j \<longleftrightarrow>
     utf8_valid (write j) \<and> starts_with (write j) [0x7B] \<and> read (write j) = Some (value_of j)"

text \<open>The set that a document of one set without metadata has.\<close>

definition lone_bare_set :: "'dk policy_backup \<Rightarrow> 'dk policy_set option" where
  "lone_bare_set backup =
     (case pb_policy_sets backup of
        [s] \<Rightarrow> if ps_archived s \<or> ps_range s \<noteq> None \<or> ps_birth_time s \<noteq> None then None else Some s
      | _ \<Rightarrow> None)"

definition policy_document :: "('dk \<Rightarrow> bytes) \<Rightarrow> 'dk policy_backup \<Rightarrow> json" where
  "policy_document key_text backup =
     (case lone_bare_set backup of
        Some s \<Rightarrow> JObject [(''keys'', JArray (map (\<lambda>k. JString (key_text k)) (ps_keys s))), (''policy'', JString (ps_policy s))]
      | None \<Rightarrow> policy_backup_json key_text backup)"

lemma policy_payload_document:
  assumes "pb_version backup = 1"
  shows "policy_payload (derived_json write read key_text key_of) backup = Ok (write (policy_document key_text backup))"
  using assms
  by (auto simp: policy_payload_def is_single_def is_bare_def lone_bare_set_def policy_document_def VERSION_def
      to_single_json_def policy_to_json_def derived_json_def policy_set_json_def index_at_def
      split: list.splits option.splits)

lemma parse_policy_document:
  assumes "reads_back write read (policy_document key_text backup)" "policy_valid B backup"
    and keys: "\<And>k. k \<in> set (all_keys backup) \<Longrightarrow> key_of (key_text k) = Some k"
  shows "parse_policy_backup B (derived_json write read key_text key_of) (write (policy_document key_text backup)) = Ok backup"
proof -
  let ?J = "derived_json write read key_text key_of" and ?j = "policy_document key_text backup"
  from assms(1) have r: "utf8_valid (write ?j)" "write ?j \<noteq> []" "hd (write ?j) = 0x7B" "json_to_value ?J (write ?j) = Some (value_of ?j)"
    by (auto simp: reads_back_def starts_with_def derived_json_def take_Suc_conv_app_nth split: if_splits)
      (cases "write ?j"; simp)+
  show ?thesis
  proof (cases "lone_bare_set backup")
    case None
    then have j: "?j = policy_backup_json key_text backup" by (simp add: policy_document_def)
    have "value_to_policy_backup ?J (value_of ?j) = Some backup"
      using read_written_backup [of backup key_of key_text] keys by (simp add: j derived_json_def)
    moreover have "value_object ?J (value_of ?j) = Some {''version'', ''policy_sets''}"
      by (simp add: j derived_json_def policy_backup_json_def)
    ultimately show ?thesis using r assms(2) by (simp add: parse_policy_backup_Ok)
  next
    case (Some s)
    then have s: "pb_policy_sets backup = [s]" "\<not> ps_archived s" "ps_range s = None" "ps_birth_time s = None"
      by (auto simp: lone_bare_set_def simp del: not_None_eq split: list.splits if_splits)
    then have j: "?j = policy_set_json key_text s" using Some by (simp add: policy_document_def policy_set_json_def)
    have "value_to_policy_set ?J (value_of ?j) = Some s"
      using read_written_set [of s key_of key_text] keys s(1) by (simp add: j derived_json_def all_keys_def)
    moreover have "value_object ?J (value_of ?j) = Some {''keys'', ''policy''}"
      by (auto simp: j derived_json_def policy_set_json_def s)
    moreover have "backup = \<lparr>pb_version = 1, pb_policy_sets = [s]\<rparr>"
      using s(1) assms(2) by (cases backup) (simp add: policy_valid_def)
    ultimately show ?thesis
      using r assms(2) by (simp add: parse_policy_backup_Ok)
  qed
qed

section \<open>Properties\<close>

text \<open>
  C37. A valid policy document round trips, and it is written in the form the code picks: a lone set that is
  neither archived nor has a range or a birth time as an object of its keys and its policy, every other
  document as an object of a version and the sets. Asked of serde_json: the text of the document is an
  object in UTF-8 that is read as it was written; of miniscript: a printed key parses to the key.
\<close>

theorem policy_documents_roundtrip:
  assumes "reads_back write read (policy_document key_text backup)" "policy_valid B backup"
    and "\<And>k. k \<in> set (all_keys backup) \<Longrightarrow> key_of (key_text k) = Some k"
  shows "tp_payload (policy_backup_item B (derived_json write read key_text key_of) backup) =
      Ok (write (policy_document key_text backup)) \<and>
    parse_policy_backup B (derived_json write read key_text key_of) (write (policy_document key_text backup)) = Ok backup"
proof
  have "pb_version backup = 1" using assms(2) by (simp add: policy_valid_def)
  then show "tp_payload (policy_backup_item B (derived_json write read key_text key_of) backup) =
      Ok (write (policy_document key_text backup))"
    by (simp add: policy_backup_item_def policy_payload_document)
  show "parse_policy_backup B (derived_json write read key_text key_of) (write (policy_document key_text backup)) = Ok backup"
    by (rule parse_policy_document [OF assms])
qed

text \<open>A set without metadata and one that is archived, and texts for their documents only.\<close>

definition archived_policy :: "nat policy_backup" where
  "archived_policy = \<lparr>pb_version = 1, pb_policy_sets =
     [\<lparr>ps_keys = [0], ps_policy = [64], ps_archived = True, ps_range = None, ps_birth_time = None\<rparr>]\<rparr>"

definition bare_document :: json where
  "bare_document = JObject [(''keys'', JArray [JString [48]]), (''policy'', JString [64])]"

definition full_document :: json where
  "full_document = JObject [(''version'', JNumber 1), (''policy_sets'',
     JArray [JObject [(''keys'', JArray [JString [48]]), (''policy'', JString [64]), (''archived'', JBool True)]])]"

definition sample_write :: "json \<Rightarrow> bytes" where
  "sample_write j = (if j = bare_document then [0x7B, 0x31, 0x7D] else [0x7B, 0x32, 0x7D])"

definition sample_read :: "bytes \<Rightarrow> json_value option" where
  "sample_read bs =
     (if bs = [0x7B, 0x31, 0x7D] then Some (value_of bare_document)
      else if bs = [0x7B, 0x32, 0x7D] then Some (value_of full_document) else None)"

theorem policy_documents_roundtrip_witness:
  "let J = derived_json sample_write sample_read (\<lambda>k. [48]) (\<lambda>t. Some 0) in
   tp_payload (policy_backup_item one_key_backend J one_policy) = Ok [0x7B, 0x31, 0x7D] \<and>
   parse_policy_backup one_key_backend J [0x7B, 0x31, 0x7D] = Ok one_policy \<and>
   tp_payload (policy_backup_item one_key_backend J archived_policy) = Ok [0x7B, 0x32, 0x7D] \<and>
   parse_policy_backup one_key_backend J [0x7B, 0x32, 0x7D] = Ok archived_policy"
proof -
  have u: "utf8_valid [0x7B, 0x31, 0x7D]" "utf8_valid [0x7B, 0x32, 0x7D]" by code_simp+
  have d: "policy_document (\<lambda>k. [48]) one_policy = bare_document"
    "policy_document (\<lambda>k. [48]) archived_policy = full_document"
    by (simp_all add: policy_document_def lone_bare_set_def one_policy_def archived_policy_def bare_document_def
        full_document_def policy_backup_json_def policy_set_json_def)
  have w: "sample_write bare_document = [0x7B, 0x31, 0x7D]" "sample_write full_document = [0x7B, 0x32, 0x7D]"
    by (simp_all add: sample_write_def bare_document_def full_document_def)
  have r: "reads_back sample_write sample_read bare_document" "reads_back sample_write sample_read full_document"
    by (simp_all add: reads_back_def w u starts_with_def sample_read_def)
  have v: "policy_valid one_key_backend archived_policy"
    by (simp add: policy_valid_def policy_set_valid_def archived_policy_def one_key_backend_def)
  have k: "k \<in> set (all_keys one_policy) \<Longrightarrow> Some (0 :: nat) = Some k"
    "k \<in> set (all_keys archived_policy) \<Longrightarrow> Some (0 :: nat) = Some k" for k
    by (simp_all add: all_keys_def one_policy_def archived_policy_def)
  show ?thesis
    using policy_documents_roundtrip [OF r(1) [folded d(1)] one_policy_valid k(1)]
      policy_documents_roundtrip [OF r(2) [folded d(2)] v k(2)]
    by (simp add: d w Let_def)
qed

end
