(* ===== verification/Spec2Isabelle.thy ===== *)
theory Spec2Isabelle
  imports Sample_Wallet Decrypt_Threads Wallet_Policy Fuzz_Oracles Explicit_Randomness Runs Device_List Rust_Bitcoin Policy_Json
begin

text \<open>
  A verification library for the bip138 repository: encrypted backups of wallet descriptors for every
  holder of a key of the wallet. Paths below are relative to the root of the repository.

  How the program works. A backup holds the derivation paths of its recipients in clear, one individual
  secret per recipient, and a ciphertext. The decryption secret is a hash of all the keys; what is stored
  for a recipient is its XOR with a hash of the recipient's key, so that any one key recovers it.
  Decoy secrets and padding hide how many recipients there are and how long the content is.

  Parts and theories, from the bottom up.

  The low-level crate, \<open>bip138-ll/src\<close>.
  \<open>Ll_Types\<close>: constants, errors, versions, encryptions, contents (\<open>lib.rs\<close>).
  \<open>Varint\<close>: \<open>varint.rs\<close>. \<open>Cursor\<close>: the offset helpers and one-byte fields. \<open>Derivation\<close>:
  \<open>derivation.rs\<close> and the common paths. \<open>Content_Codec\<close>: \<open>try_into\<close> and \<open>parse_content\<close>. \<open>Padding\<close>:
  \<open>doubling_bucket\<close>, \<open>geometric_bucket\<close>. \<open>Plaintext\<close>: \<open>build_v1_payload\<close>, \<open>encode_plaintext\<close>,
  \<open>decode_plaintext\<close>. \<open>Wire\<close>: the encoders and parsers of paths, secrets and encrypted payloads.
  \<open>Envelope\<close>: \<open>encode_v1\<close>, \<open>parse_v1_header\<close>, \<open>decode_v1\<close> and the decoders of single fields. \<open>Secrets\<close>: the
  hashes, the secrets, the nonce, the decoys, with the primitives of \<open>crypto.rs\<close> as a record of
  functions. \<open>Scheme\<close>: encryption and decryption of a list of items. \<open>Ffi\<close>: the C binding, \<open>ffi.rs\<close>.
  \<open>Rust_Bitcoin\<close>: the bundled provider of \<open>crypto.rs\<close>.

  The main crate, \<open>src\<close>.
  \<open>Backend\<close>: \<open>backend/mod.rs\<close> and \<open>backend/rust_miniscript.rs\<close>. \<open>Descriptor_Rules\<close>: \<open>descriptor.rs\<close>.
  \<open>Payload_Items\<close>: the \<open>ToPayload\<close> trait and its simple implementations. \<open>Descriptor_Backup\<close>,
  \<open>Policy_Backup\<close>: the two JSON documents. \<open>Wallet_Policy\<close>: \<open>backend/rust_miniscript/wallet_policy.rs\<close>.
  \<open>Backup\<close>: \<open>EncryptedBackup\<close>, \<open>EncryptedMetadata\<close> and extraction (\<open>lib.rs\<close>); \<open>Explicit_Randomness\<close>: its \<open>encrypt\<close> in
  a build without \<open>rand\<close>. \<open>Devices\<close>: fetching keys, and \<open>Device_List\<close>: enumerating devices
  (\<open>signing_devices.rs\<close>).

  The command line, \<open>src/bin/main.rs\<close>. \<open>Cli\<close>: what the commands compute. \<open>Device_Commands\<close>: the parts of
  encrypt and fetch that use a device. \<open>Decrypt_Threads\<close>: the three threads of decrypt in a build with
  devices, as a step relation. \<open>World\<close>: files and terminal, with failing reads and writes. \<open>Main_Command\<close>:
  \<open>parse_cli\<close> and \<open>main\<close>, in the order of the code's effects. \<open>Runs\<close>: what holds of runs of the program.

  The fuzzing crate, \<open>fuzz\<close>. \<open>Fuzz_Rust\<close>: the Rust arm (\<open>src/lib.rs\<close>) and the target
  \<open>fuzz_targets/encode.rs\<close>. \<open>Fuzz_Arms\<close>: the C and C++ arms (\<open>c_impl.rs\<close>, \<open>cpp_impl.rs\<close>). \<open>Fuzz_Oracles\<close>: inputs,
  their normalization and the differential comparisons (\<open>src/lib.rs\<close>).

  Shared: \<open>Prelude\<close> (results of Rust code, checked arithmetic, slices, bytes of integers),
  \<open>Ordered_Sets\<close> (\<open>BTreeSet\<close> as a strictly increasing list), \<open>Codec\<close> (the contract of an encoder and a
  decoder of one field, from which fields, counted sequences and concatenations round trip), \<open>Text\<close>
  (UTF-8 and the string functions of the standard library on bytes). \<open>Sample\<close> and \<open>Sample_Wallet\<close> hold a
  toy cipher, hash, random source, wallet and builder, used by the witnesses only.

  How code becomes a definition. A function that can fail gives an \<open>outcome\<close>: \<open>Ok\<close>, \<open>Err\<close> with the
  error of the source, \<open>Panic\<close> for an index out of range, an assertion or an overflow, \<open>Diverges\<close> for a
  loop that never ends. Errors, and the order of the checks, are those of the code. A \<open>while\<close> loop is
  \<open>run_loop\<close> over its body, which has no fuel: what does not end is \<open>Diverges\<close>, so that a theorem that
  something is \<open>Ok\<close> includes that it returns. \<open>usize\<close> is \<open>nat\<close> up to \<open>2 ^ 64 - 1\<close>, with the checks and
  overflow panics written out; bytes and child numbers are words. A byte string of the program fits in
  \<open>isize\<close>, which is the hypothesis \<open>rust_slice\<close>. The geometric padding has at most fifty buckets
  before its numerator leaves 128 bits, which \<open>geometric_bucket_exact\<close> shows.

  Parameters, since their code is not in the repository: the hash, the cipher and the random source; the
  parser, printer and traversal of descriptors (miniscript), JSON, base64, the reader of version 0
  backups, the signing devices and their library, the C and C++ implementations that are fuzzed, and what
  the operating system answers. Laws asked of them are named predicates (\<open>sha256_sized\<close>,
  \<open>aead_correct\<close>, \<open>rng_sized\<close>, \<open>rng_fair\<close>, \<open>policy_json_laws\<close>, \<open>backup_json_laws\<close>, \<open>externals_return\<close>,
  \<open>translates\<close>, \<open>cipher_laws\<close>, \<open>steady_setup\<close>). \<open>backup_agrees\<close> excludes the accident that a key opens the ciphertext with a secret
  stored for somebody else and gets a different plaintext.

  What is shown. Round trips of each layer, from the varint to nested encryption levels; the decoder of
  payloads against a grammar; what decoded data satisfies whoever wrote it; that readers return on every
  input; when and with which size a backup is produced, and that key order does not show; who becomes a
  recipient, for builders reached by any sequence of public calls; padding against its closed form, with
  the bound above which it fails; the decoy loop, which returns under a fair source and not under a stuck
  one; the error codes of the C binding, and an input on which it panics; key rules, warnings and the
  documents they feed; wallet policies; that both builds of \<open>encrypt\<close> produce the same backups; key files,
  the decrypt worker and the inspect command; which devices are listed, the paths a device is asked for
  and what a collection gives. Of the threads of decrypt: what the main thread can receive under any
  schedule, that runs are bounded and no thread waits for ever, and the race between a key that fits and
  a device that fails. Of runs of the program: that a failed run keeps the files, that a written backup is
  read back, that the default file names do not fit together, and that a build with devices agrees with
  one without when none is plugged in. Of the fuzzing crate: that the encode target passes on every
  input, that the generator of decoys ends, and what a passing differential run means.

  Bounds. Runs of the decrypt threads have at most twelve steps plus five for each path to ask for
  (\<open>start_weight\<close>, \<open>run_bounded\<close>); nothing else has fuel.

  Not modelled. In \<open>bin/main.rs\<close>: clap itself, the \<open>Display\<close> text of errors, which the program does not
  print, and what the device code and its threads log. In \<open>signing_devices.rs\<close>: the pairing cache of macOS
  and Windows, and log lines. In \<open>ffi.rs\<close>: the two functions that free memory, which have no result, and
  pointer validity, which it documents as its caller's duty. \<open>OsRandom\<close>, one call of the operating system,
  and the base64 and version 0 adapters, one call of a crate each. In \<open>fuzz\<close>: the declarations of foreign
  functions, the build script, and the targets that call one function and drop its result. Getters, tests and
  examples. What is left out is foreign code, text for people, or has no behaviour to state.
\<close>

section \<open>The scheme\<close>

text \<open>
  C1. Every recipient reads back what was encrypted. A backup that the encoder produces for a list of
  items decodes, whatever bytes follow it, to the stored derivation paths, and decryption with the key
  of any recipient gives exactly the items, for every source of randomness. Asked of the parameters:
  hashes of 32 bytes, buffers filled whole, decryption that inverts encryption, and that no other stored
  secret opens the ciphertext to a different plaintext for this key.
\<close>

theorem scheme_roundtrip:
  assumes "sha256_sized C" "aead_correct C" "rng_sized fill"
    and "encrypt_chacha20_poly1305_v1_items C fill s paths store items keys padding = Ok (bs, s')"
    and "rust_slice (bs @ rest)" "key \<in> recipients keys" "backup_agrees C bs key"
  shows "\<exists>ss nonce c.
    decode_v1 (bs @ rest) = Ok (sorted_list_of_set (stored_paths store paths), ss, 1, nonce, c) \<and>
    decrypt_chacha20_poly1305_v1 C key ss c nonce = Ok (map norm_item items)"
proof -
  from encrypt_items_roundtrip [OF assms(1-4) rust_slice_append1 [OF assms(5)]] obtain ss nonce c where
    d: "decode_v1 bs = Ok (sorted_list_of_set (stored_paths store paths), ss, 1, nonce, c)"
    and r: "\<forall>key \<in> recipients keys. candidates_agree C key ss c nonce \<longrightarrow>
       decrypt_chacha20_poly1305_v1 C key ss c nonce = Ok (map norm_item items)" by blast
  from d assms(7) have "candidates_agree C key ss c nonce" unfolding backup_agrees_def by blast
  with r assms(6) decode_v1_append [OF assms(5) d] show ?thesis by blast
qed

theorem scheme_roundtrip_witness:
  "\<exists>bs s' ss nonce c. encrypt_chacha20_poly1305_v1_items sample_crypto sample_fill 1 [] False sample_items
      [sample_key 3, sample_key 2] Padding_None = Ok (bs, s') \<and>
    decode_v1 (bs @ [10]) = Ok ([], ss, 1, nonce, c) \<and>
    decrypt_chacha20_poly1305_v1 sample_crypto (sample_key 2) ss c nonce = Ok [(Content_String, [65])]"
proof -
  from sample_backup [OF sample_request sample_payload, of 1] obtain bs s' where
    e: "encrypt_chacha20_poly1305_v1_items sample_crypto sample_fill 1 [] False sample_items
      [sample_key 3, sample_key 2] Padding_None = Ok (bs, s')" and l: "rust_slice (bs @ [10])" by auto
  have k: "sample_key 2 \<in> recipients [sample_key 3, sample_key 2]" by (simp add: sample_recipients)
  from e scheme_roundtrip [OF sample_sized sample_correct sample_fill_sized e l k sample_agrees] show ?thesis
    by (simp add: stored_paths_def sample_items_def)
qed

text \<open>
  C12. When a backup is produced. For 1 to 255 different recipients, at most 255 stored paths of a
  length that fits, secrets that do not collapse and a payload that can be built, the encoder returns a
  backup, with a cipher that does not fail, a nonce that is not zero, and a random source that does not
  get stuck. The loop that draws decoys is among what returns.
\<close>

theorem scheme_produces:
  assumes "request_ok C paths store keys" "aead_total C" "rng_fair fill"
    and "fst (draw_nonce fill s) \<noteq> ZERO_NONCE"
    and "build_v1_payload items padding = Ok payload"
  shows "\<exists>bs s'. encrypt_chacha20_poly1305_v1_items C fill s paths store items keys padding = Ok (bs, s')"
  using assms build_v1_payload_not_Nil [OF assms(5)] by (rule encrypt_items_returns)

theorem scheme_produces_witness:
  "\<exists>bs s'. encrypt_chacha20_poly1305_v1_items sample_crypto sample_fill 1 [] False sample_items
      [sample_key 3, sample_key 2] Padding_None = Ok (bs, s')"
  by (rule scheme_produces [OF sample_request sample_total sample_fair sample_nonce sample_payload])

text \<open>
  C39. Neither the order nor the repetition of the keys and of the derivation paths shows: two requests
  with the same sets give the same outcome, byte for byte, errors and panics included.
\<close>

theorem backup_ignores_order:
  assumes "set keys = set keys'" "set paths = set paths'"
  shows "encrypt_chacha20_poly1305_v1_items C fill s paths store items keys padding =
         encrypt_chacha20_poly1305_v1_items C fill s paths' store items keys' padding"
  by (simp add: encrypt_chacha20_poly1305_v1_items_def encode_v1_backup_cong [OF assms])

theorem backup_ignores_order_witness:
  "encrypt_chacha20_poly1305_v1_items sample_crypto sample_fill 1 [] False sample_items
      [sample_key 3, sample_key 2] Padding_None =
   encrypt_chacha20_poly1305_v1_items sample_crypto sample_fill 1 [] False sample_items
      [sample_key 2, sample_key 3, sample_key 2] Padding_None"
  by (rule backup_ignores_order) auto

text \<open>
  C34. What the number of stored secrets tells: with distinct real secrets a produced backup holds
  exactly as many secrets as the least bucket for the number of recipients, so recipient counts of one
  bucket look alike, whatever the decoys.
\<close>

theorem stored_secrets_bucket:
  assumes "rng_sized fill" "rust_slice bs" "distinct (real_secrets C keys)"
    and "encrypt_chacha20_poly1305_v1_items C fill s paths store items keys padding = Ok (bs, s')"
  shows "\<exists>ps ss nonce c. decode_v1 bs = Ok (ps, ss, 1, nonce, c) \<and>
    doubling_bucket (card (recipients keys)) = Ok (length ss)"
proof -
  let ?p = "(fill, snd (draw_nonce fill s))"
  from assms(4) obtain payload where
    e: "encode_v1_backup C paths store keys payload (fst (draw_nonce fill s))
      (case ?p of (fill, s) \<Rightarrow> pad_individual_secrets fill s) = Ok (bs, s')"
    by (auto simp: encrypt_items_Ok)
  have "case ?p of (fill, s) \<Rightarrow> rng_sized fill" using assms(1) by simp
  from random_pad.stored_count [OF this e length_draw_nonce [OF assms(1)] assms(2,3)] show ?thesis by blast
qed

lemma sample_secrets_distinct: "distinct (real_secrets sample_crypto [sample_key 3, sample_key 2])"
  by code_simp

theorem stored_secrets_bucket_witness:
  "\<exists>bs ps ss nonce c. decode_v1 bs = Ok (ps, ss, 1, nonce, c) \<and> length ss = 5"
proof -
  from sample_backup [OF sample_request sample_payload, of 1] obtain bs s' where
    e: "encrypt_chacha20_poly1305_v1_items sample_crypto sample_fill 1 [] False sample_items
      [sample_key 3, sample_key 2] Padding_None = Ok (bs, s')" and l: "rust_slice (bs @ [10])" by auto
  have "rust_slice bs" using l by (simp add: rust_slice_def)
  have "card (recipients [sample_key 3, sample_key 2]) = 2" by code_simp
  then have "doubling_bucket (card (recipients [sample_key 3, sample_key 2])) = Ok 5"
    by (simp add: doubling_bucket_eq)
  with stored_secrets_bucket [OF sample_fill_sized \<open>rust_slice bs\<close> sample_secrets_distinct e]
  obtain ps ss nonce c where "decode_v1 bs = Ok (ps, ss, 1, nonce, c)" "length ss = 5" by auto
  then show ?thesis by blast
qed

text \<open>
  C38. The size of a produced backup: with distinct real secrets it is a function of the stored paths, of
  the bucket of the number of recipients and of the size of the padded payload.
\<close>

theorem backup_size_exact:
  assumes "sha256_sized C" "aead_correct C" "rng_sized fill" "distinct (real_secrets C keys)"
    and "build_v1_payload items padding = Ok payload"
    and "encrypt_chacha20_poly1305_v1_items C fill s paths store items keys padding = Ok (bs, s')"
  shows "\<exists>bucket. doubling_bucket (card (recipients keys)) = Ok bucket \<and>
    length bs = backup_size (stored_paths store paths) bucket (length payload)"
proof -
  let ?p = "(fill, snd (draw_nonce fill s))"
  from assms(5,6) have e: "encode_v1_backup C paths store keys payload (fst (draw_nonce fill s))
      (case ?p of (fill, s) \<Rightarrow> pad_individual_secrets fill s) = Ok (bs, s')"
    by (auto simp: encrypt_items_Ok)
  have "case ?p of (fill, s) \<Rightarrow> rng_sized fill" using assms(3) by simp
  from random_pad.backup_length [OF this assms(2,1) length_draw_nonce [OF assms(3)] e] assms(4) show ?thesis by blast
qed

theorem backup_size_exact_witness:
  "\<exists>bs s'. encrypt_chacha20_poly1305_v1_items sample_crypto sample_fill 1 [] False sample_items
      [sample_key 3, sample_key 2] Padding_None = Ok (bs, s') \<and> length bs = backup_size {} 5 4"
proof -
  from sample_backup [OF sample_request sample_payload, of 1] obtain bs s' where
    e: "encrypt_chacha20_poly1305_v1_items sample_crypto sample_fill 1 [] False sample_items
      [sample_key 3, sample_key 2] Padding_None = Ok (bs, s')" by auto
  have "card (recipients [sample_key 3, sample_key 2]) = 2" by code_simp
  then have "doubling_bucket (card (recipients [sample_key 3, sample_key 2])) = Ok 5"
    by (simp add: doubling_bucket_eq)
  moreover have "length [3, 0, 1, 65 :: u8] = 4" by simp
  ultimately have "length bs = backup_size {} 5 4"
    using backup_size_exact [OF sample_sized sample_correct sample_fill_sized sample_secrets_distinct sample_payload e]
    by (simp only: stored_paths_def) simp
  with e show ?thesis by blast
qed

section \<open>The padding of the secrets\<close>

text \<open>
  The padding loop returns under a source that keeps moving, and the set it returns keeps the real
  secrets in front, adds decoys that are new, distinct, not zero and of 32 bytes, and has the size of
  the least bucket.
\<close>

theorem secrets_padding_returns:
  assumes "rng_fair fill" "rng_sized fill" "length secrets \<le> 255" "list_all secret_ok secrets"
  shows "\<exists>decoys s'. pad_individual_secrets fill s secrets = Ok (secrets @ decoys, s') \<and>
    decoys_ok secrets decoys \<and> list_all secret_ok decoys \<and>
    doubling_bucket (length secrets) = Ok (length secrets + length decoys)"
proof -
  obtain ps s' where r: "pad_individual_secrets fill s secrets = Ok (ps, s')"
    using pad_individual_secrets_returns [OF assms(1,3), of s] by (metis surj_pair)
  from pad_individual_secrets_Ok [OF r] obtain ds where ps: "ps = secrets @ ds" "decoys_ok secrets ds"
    and b: "doubling_bucket (length secrets) = Ok (length ps)" unfolding padded_with_def by blast
  from pad_individual_secrets_sized [OF r assms(2,4)] ps(1) have "list_all secret_ok ds" by simp
  with r ps b show ?thesis by auto
qed

theorem secrets_padding_returns_witness:
  "\<exists>decoys s'. pad_individual_secrets sample_fill 0 [sample_key 9] = Ok ([sample_key 9] @ decoys, s') \<and>
    length decoys = 4"
  using secrets_padding_returns [OF sample_fair sample_fill_sized, of "[sample_key 9]" 0]
  by (auto simp: secret_ok_def sample_key_def doubling_bucket_eq)

text \<open>
  C40. A source that always fills the same 32 bytes makes the padding loop run forever as soon as two
  decoys are missing: unlike the nonce, the decoys are redrawn without a bound.
\<close>

theorem stuck_source_diverges:
  assumes "\<forall>s. fst (fill s 32) = d" "doubling_bucket (length secrets) = Ok t" "length secrets + 2 \<le> t"
  shows "pad_individual_secrets fill s secrets = Diverges"
  by (rule pad_individual_secrets_stuck [where d = d and t = t]) (use assms in auto)

theorem stuck_source_diverges_witness:
  "pad_individual_secrets (\<lambda>s n. (replicate n 7, s)) () [sample_key 9] = Diverges"
  by (rule stuck_source_diverges [where d = "replicate 32 7" and t = 5]) (simp_all add: doubling_bucket_eq)

section \<open>The C binding\<close>

text \<open>
  C32. What \<open>bip138_encrypt\<close> wrote, \<open>bip138_decrypt\<close> reads with the key of any recipient: one item with
  the content type of the request and the payload, and the success code. The callbacks enter through
  the provider that wraps them.
\<close>

theorem ffi_encrypt_decrypt:
  assumes "bip138_encrypt (Some vt) s (Some ks) n_keys paths n_paths t bip tag tag_len (Some data) payload_len
      pad False err_null = Ok (BIP138_OK, Some bs, None)"
    and "aead_correct (provider vt)" "vt_aead_decrypt vt \<noteq> None" "rust_slice bs"
    and "take XONLY_KEY_SIZE k \<in> recipients (chunks_exact XONLY_KEY_SIZE (take (n_keys * XONLY_KEY_SIZE) ks))"
    and "backup_agrees (provider vt) bs (take XONLY_KEY_SIZE k)"
  shows "\<exists>c. content_from_ffi t bip (case tag of None \<Rightarrow> [] | Some mem \<Rightarrow> take tag_len mem) = Ok c \<and>
    bip138_decrypt (Some vt) (Some k) (Some bs) (length bs) False err_null' =
      Ok (BIP138_OK, Some [(content_norm c, take payload_len data)], None)"
  using assms by (rule ffi_roundtrip)

theorem ffi_encrypt_decrypt_witness:
  "\<exists>bs. bip138_encrypt (Some sample_vtable) 1 (Some sample_keys) 2 None 0 8 0 None 0 (Some [65]) 1 0 False False =
      Ok (BIP138_OK, Some bs, None) \<and>
    bip138_decrypt (Some sample_vtable) (Some (sample_key 2)) (Some bs) (length bs) False False =
      Ok (BIP138_OK, Some [(Content_String, [65])], None)"
proof -
  from sample_bip138_encrypt obtain bs where
    e: "bip138_encrypt (Some sample_vtable) 1 (Some sample_keys) 2 None 0 8 0 None 0 (Some [65]) 1 0 False False =
      Ok (BIP138_OK, Some bs, None)" and l: "rust_slice bs" by blast
  have k: "take XONLY_KEY_SIZE (sample_key 2) = sample_key 2"
    by (simp add: sample_key_def XONLY_KEY_SIZE_def)
  have m: "take XONLY_KEY_SIZE (sample_key 2) \<in>
      recipients (chunks_exact XONLY_KEY_SIZE (take (2 * XONLY_KEY_SIZE) sample_keys))"
    by (simp add: k sample_chunks sample_recipients)
  from ffi_encrypt_decrypt [OF e _ _ l m, where err_null' = False] sample_vtable_some(3) e show ?thesis
    by (auto simp: sample_provider sample_correct sample_agrees content_from_ffi_def ffi_content_defs)
qed

text \<open>
  C35. Whatever the callbacks, the buffers and the input are, \<open>bip138_decrypt\<close> comes back to C with a
  code: success with the items, or an error in one of the two documented ranges with nothing written.
\<close>

theorem ffi_decrypt_returns:
  assumes "rust_slice (take n (case encrypted of None \<Rightarrow> [] | Some mem \<Rightarrow> mem))"
  shows "\<exists>code out msg. bip138_decrypt vtable key encrypted n out_null err_null = Ok (code, out, msg) \<and>
    (code = BIP138_OK \<and> out \<noteq> None \<or> code \<in> {100..125} \<union> {500..504} \<and> out = None)"
proof -
  have r: "decrypt_request vtable key encrypted n out_null \<noteq> Panic \<and>
      decrypt_request vtable key encrypted n out_null \<noteq> Diverges"
    using assms by (intro decrypt_request_returns) auto
  then consider (ok) items where "decrypt_request vtable key encrypted n out_null = Ok items"
    | (err) e where "decrypt_request vtable key encrypted n out_null = Err e"
    by (cases "decrypt_request vtable key encrypted n out_null") auto
  then show ?thesis
  proof cases
    case (err e)
    with info_range [of e] show ?thesis
      by (cases "info e") (simp add: bip138_decrypt_def fail_def)
  qed (simp add: bip138_decrypt_def)
qed

theorem ffi_decrypt_returns_witness:
  "\<exists>code out msg. bip138_decrypt (Some sample_vtable) None (Some [1, 2, 3]) 3 False True = Ok (code, out, msg)"
  using ffi_decrypt_returns [of 3 "Some [1, 2, 3]" "Some sample_vtable" None False True]
  by (auto simp: rust_slice_def isize_MAX_def)

text \<open>
  Error codes name the error: no two errors share a code, none has the success code, and the codes
  of the core and of the binding keep to their ranges.
\<close>

lemma ffi_codes_name_errors:
  "inj (fst \<circ> info) \<and> range (fst \<circ> info) \<subseteq> {100..125} \<union> {500..504} \<and> BIP138_OK \<notin> range (fst \<circ> info)"
proof -
  have "inj (fst \<circ> info)" by (rule injI) (simp add: info_inject)
  moreover have "range (fst \<circ> info) \<subseteq> {100..125} \<union> {500..504}"
    using info_range by (simp add: image_subset_iff)
  ultimately show ?thesis by (auto simp: BIP138_OK_def)
qed

text \<open>
  A hash callback that always writes the same bytes makes \<open>bip138_encrypt\<close> panic: the decryption
  secret and the hash of a key are then equal, and an assertion of the core fails. Every other argument
  of the call is in order.
\<close>

theorem ffi_constant_hash_panics:
  assumes "vt_sha256 vt = Some (\<lambda>_. h)" "vt_aead_encrypt vt \<noteq> None" "vt_fill_random vt \<noteq> None"
    and "n_keys * XONLY_KEY_SIZE \<le> usize_MAX" "read_paths paths n_paths = Ok ps"
    and "content_from_ffi t bip (case tag of None \<Rightarrow> [] | Some mem \<Rightarrow> take tag_len mem) = Ok c"
    and "padding_from_ffi pad = Ok p" "build_v1_payload [(c, take payload_len data)] p = Ok payload"
    and "keys = chunks_exact XONLY_KEY_SIZE (take (n_keys * XONLY_KEY_SIZE) ks)"
    and "recipients keys \<noteq> {}" "card (recipients keys) \<le> 255" "card (stored_paths False ps) \<le> 255"
  shows "bip138_encrypt (Some vt) s (Some ks) n_keys paths n_paths t bip tag tag_len (Some data) payload_len
      pad False err_null = Panic"
  using assms by (rule encrypt_request_panics)

theorem ffi_constant_hash_panics_witness:
  "bip138_encrypt (Some (sample_vtable\<lparr>vt_sha256 := Some (\<lambda>_. [])\<rparr>)) 1 (Some sample_keys) 2 None 0 8 0 None 0
     (Some [65]) 1 0 False False = Panic"
proof (rule ffi_constant_hash_panics [where h = "[]" and ps = "[]" and c = Content_String and p = Padding_None
      and payload = "[3, 0, 1, 65]", OF _ _ _ _ _ _ _ _ refl])
  show "build_v1_payload [(Content_String, take 1 [65])] Padding_None = Ok [3, 0, 1, 65]"
    using sample_payload by (simp add: sample_items_def)
  have "card (recipients [sample_key 3, sample_key 2]) = 2" by code_simp
  then show "card (recipients (chunks_exact XONLY_KEY_SIZE (take (2 * XONLY_KEY_SIZE) sample_keys))) \<le> 255"
    by (simp add: sample_chunks)
  show "recipients (chunks_exact XONLY_KEY_SIZE (take (2 * XONLY_KEY_SIZE) sample_keys)) \<noteq> {}"
    by (simp add: sample_chunks sample_recipients)
qed (simp_all add: sample_vtable_def XONLY_KEY_SIZE_def usize_MAX_def read_paths_def content_from_ffi_def
    ffi_content_defs padding_from_ffi_def BIP138_PADDING_NONE_def stored_paths_def)

section \<open>The backup builder and reader\<close>

text \<open>
  C2. A backup that \<open>encrypt\<close> produces for a builder is read back by any of the builder's keys: the
  binary form, with anything after it, loads with the stored derivation paths, and decrypting gives what
  the items of the builder extract to, in their order.
\<close>

theorem encrypted_backup_roundtrip:
  assumes "sha256_sized (ext_crypto X)" "aead_correct (ext_crypto X)" "rng_sized fill"
    and "encrypt X fill s b = Ok (e, s')" "rust_slice (enc_bytes e @ rest)"
    and "k \<in> set (eb_keys b)" "xonly (ext_backend X) k \<noteq> NUMS_XONLY"
    and "backup_agrees (ext_crypto X) (enc_bytes e) (xonly (ext_backend X) k)"
  shows "\<exists>items r. (eb_payload b = Payload_EncryptMany items \<or>
       (\<exists>p. eb_payload b = Payload_Encrypt p \<and> items = [(eb_content b, p)])) \<and>
    set_encrypted_payload X (enc_bytes e @ rest) eb_new = Ok r \<and>
    set (eb_derivation_paths r) = stored_paths (eb_store_common_paths b) (eb_derivation_paths b) \<and>
    decrypt_with X P (set_keys (ext_backend X) [k] r) = extract_all X P (map norm_item items)"
  using assms by (rule backup_roundtrip)

theorem encrypted_backup_roundtrip_witness:
  "\<exists>e s' r. encrypt sample_externals sample_fill 1 sample_builder = Ok (e, s') \<and>
    set_encrypted_payload sample_externals (enc_bytes e @ [10]) eb_new = Ok r \<and>
    decrypt_with sample_externals no_proprietary (set_keys sample_backend [2] r) = Ok [Dec_String [65]]"
proof -
  from sample_builder_encrypts obtain e s' where e: "encrypt sample_externals sample_fill 1 sample_builder = Ok (e, s')"
    and l: "rust_slice (enc_bytes e @ [10])" by blast
  have k: "2 \<in> set (eb_keys sample_builder)" by (simp add: sample_builder_fields)
  have n: "xonly (ext_backend sample_externals) 2 \<noteq> NUMS_XONLY" by code_simp
  have a: "backup_agrees (ext_crypto sample_externals) (enc_bytes e) (xonly (ext_backend sample_externals) 2)"
    by (simp add: sample_agrees)
  have u: "utf8_valid [65]" by code_simp
  from encrypted_backup_roundtrip [OF sample_externals_laws e l k n a, where P = no_proprietary] obtain r where
    "set_encrypted_payload sample_externals (enc_bytes e @ [10]) eb_new = Ok r"
    "decrypt_with sample_externals no_proprietary (set_keys sample_backend [2] r) = Ok [Dec_String [65]]"
    using u by (auto simp: sample_builder_fields)
  with e show ?thesis by blast
qed

text \<open>
  C11. The two builds of \<open>encrypt\<close> produce the same backups. Whatever the build with randomness returns, the
  build without it returns for the nonce that was drawn and some decoys; and whatever that build returns
  for a nonce and decoys, the other returns when its source yields just these, which it uses up.
\<close>

theorem builds_agree:
  "(encrypt X fill s b = Ok (e, s') \<longrightarrow>
     (\<exists>decoys. encrypt_without_rand X (fst (draw_nonce fill s)) decoys b = Ok e)) \<and>
   (encrypt_without_rand X nonce decoys b = Ok e \<longrightarrow> encrypt X tape (nonce # decoys) b = Ok (e, []))"
  by (intro conjI impI; erule encrypt_explicit encrypt_tape)

theorem builds_agree_witness:
  "\<exists>e s' decoys. encrypt sample_externals sample_fill 1 sample_builder = Ok (e, s') \<and>
    encrypt_without_rand sample_externals (fst (draw_nonce sample_fill 1)) decoys sample_builder = Ok e \<and>
    encrypt sample_externals tape (fst (draw_nonce sample_fill 1) # decoys) sample_builder = Ok (e, [])"
proof -
  from sample_builder_encrypts obtain e s' where e: "encrypt sample_externals sample_fill 1 sample_builder = Ok (e, s')"
    by blast
  from builds_agree [THEN conjunct1, THEN mp, OF e] obtain decoys where
    d: "encrypt_without_rand sample_externals (fst (draw_nonce sample_fill 1)) decoys sample_builder = Ok e" by blast
  from e d builds_agree [THEN conjunct2, THEN mp, OF d] show ?thesis by blast
qed

text \<open>
  C4. No key that the payload exposes on chain becomes a recipient. Whatever public calls built a
  builder, in whatever order, the loading of an encrypted backup among them, a backup it produces is
  addressed to the x coordinates of its keys, none of which is among the exposed ones, and never to the
  NUMS point.
\<close>

theorem no_exposed_recipient:
  assumes "built X b" "encrypt X fill s b = Ok (e, s')"
  shows "\<exists>items. encrypt_chacha20_poly1305_v1_items (ext_crypto X) fill s (eb_derivation_paths b)
      (eb_store_common_paths b) items (map (xonly (ext_backend X)) (eb_keys b)) (eb_padding b) = Ok (enc_bytes e, s') \<and>
    recipients (map (xonly (ext_backend X)) (eb_keys b)) \<inter> (set (eb_exposed_keys b) \<union> {NUMS_XONLY}) = {}"
proof -
  have "unexposed (ext_backend X) b" by (rule built_unexposed [OF assms(1)])
  then have "recipients (map (xonly (ext_backend X)) (eb_keys b)) \<inter> (set (eb_exposed_keys b) \<union> {NUMS_XONLY}) = {}"
    by (auto simp: unexposed_def exposed_def recipients_def)
  with assms(2) show ?thesis by (auto simp: encrypt_Ok)
qed

theorem no_exposed_recipient_witness:
  "recipients (map sample_key (eb_keys sample_builder)) \<inter> (set (eb_exposed_keys sample_builder) \<union> {NUMS_XONLY}) = {}"
proof -
  from sample_builder_encrypts obtain e s' where
    e: "encrypt sample_externals sample_fill 1 sample_builder = Ok (e, s')" by blast
  from no_exposed_recipient [OF sample_built e] show ?thesis by simp
qed

text \<open>
  C5. The derivation paths of a builder that is fed with the crate's own items only are exactly those
  of the keys it keeps: no path of a dropped key stays behind, none of a kept key is lost.
\<close>

theorem backup_paths_of_keys:
  assumes "fed (builtin_item X) B b"
  shows "p \<in> set (eb_derivation_paths b) \<longleftrightarrow> (\<exists>k. k \<in> set (eb_keys b) \<and> (k, p) \<in> set (eb_key_paths b))"
  using builtin.fed_paths [OF assms] by (auto simp: paths_of_keys_def)

theorem backup_paths_of_keys_witness:
  "\<exists>b. set_payload sample_backend (descriptor_item sample_backend sample_descriptor) eb_new = Ok b \<and>
    set (eb_keys b) = {2, 3} \<and>
    (DerivationPath [48] \<in> set (eb_derivation_paths b) \<longleftrightarrow>
      (\<exists>k. k \<in> set (eb_keys b) \<and> (k, DerivationPath [48]) \<in> set (eb_key_paths b)))"
proof -
  let ?x = "descriptor_item sample_backend sample_descriptor"
  have keys: "tp_keys ?x = Ok [2, 3]" and exposed: "tp_exposed_keys ?x = [sample_key 4]" by code_simp+
  obtain kps ws where "tp_key_paths ?x = Ok kps" "tp_warnings ?x = Ok ws" "tp_payload ?x = Ok [100]"
    by (simp add: descriptor_item_def descr_warnings_eq sample_backend_def)
  with keys obtain b where b: "set_payload sample_backend ?x eb_new = Ok b"
    by (simp add: set_payload_def add_item_def Let_def)
  have "builtin_item sample_externals ?x" by (auto simp: builtin_item_def)
  then have f: "fed (builtin_item sample_externals) sample_backend b" by (rule fed_payload [OF fed_new _ b])
  have "set (eb_keys b) = {2, 3}"
    using b keys exposed by (auto simp: set_payload_def add_item_Ok outcome_simps exposed_def eb_new_def
        sample_key_def Let_def split: if_splits)
  with b backup_paths_of_keys [OF f] show ?thesis by blast
qed

text \<open>
  C13. Reading never panics and never hangs: loading any byte string as a backup, reporting its
  metadata, and decrypting in any state of the builder each return a value or an error, with the
  crate's own way of rebuilding a descriptor from a wallet policy. Asked of the third parties: no panic of
  their own, results that fit in memory, and no template of \<open>2 ^ 32\<close> keys or more from miniscript's
  parser, on which the crate's check of the order of keys would overflow.
\<close>

theorem reading_returns:
  assumes "from_wallet_policy (ext_backend X) = miniscript_from_wallet_policy M parse_template"
    and "bounded_templates M parse_template" "third_parties_return X" "rust_slice bs"
  shows "set_encrypted_payload X bs b \<noteq> Panic \<and> set_encrypted_payload X bs b \<noteq> Diverges \<and>
    metadata_of X bs \<noteq> Panic \<and> metadata_of X bs \<noteq> Diverges \<and>
    decrypt X b \<noteq> Panic \<and> decrypt X b \<noteq> Diverges"
proof -
  note r = miniscript_externals_return [OF assms(1-3)]
  show ?thesis
    using set_encrypted_payload_returns [OF r assms(4)] metadata_of_returns [OF r assms(4)] decrypt_returns [OF r] by blast
qed

theorem reading_returns_witness:
  "metadata_of deaf_externals [66, 69, 66, 1, 255] \<noteq> Panic \<and>
   set_encrypted_payload deaf_externals [66, 73, 80, 88, 1] eb_new \<noteq> Panic"
proof -
  have "rust_slice [66, 69, 66, 1, 255]" "rust_slice [66, 73, 80, 88, 1]"
    by (simp_all add: rust_slice_def isize_MAX_def)
  with reading_returns [OF deaf_rebuilds sample_templates_bounded deaf_third_parties, of _ eb_new] show ?thesis by blast
qed

section \<open>The command line\<close>

text \<open>
  C3. Nested levels come off one by one. After a run of \<open>wrap_outer\<close> has wrapped a backup in any number of
  levels, decrypting again and again, with one fitting key file per level from the outermost, gives the
  innermost backup and a newline. What decrypt prints of a level starts with the note of the level and
  a newline, if it has one, and this has to be cut off before the next run; the newline at the end does not
  get in the way.
\<close>

theorem nested_levels_roundtrip:
  assumes "sha256_sized (ext_crypto X)" "aead_correct (ext_crypto X)" "rng_sized fill"
    and "wrap_outer X K T S fill s levels e0 w = (Ok (e, s'), w')" "keys_fit X K fill s levels kts e0"
    and "\<And>level m. level \<in> set levels \<Longrightarrow> wl_msg level = Some m \<Longrightarrow> utf8_valid m"
  shows "unwrap X K (rev (zip kts (map level_note levels))) (enc_bytes e) =
    Ok (enc_bytes e0 @ (if levels = [] then [] else [0x0A]))"
  using unwrap_outer [OF assms(1-3) conjunct1 [OF wrap_outer_Ok [OF assms(4)]] assms(5,6), where rest = "[]"] by simp

lemma sample_opens_level:
  assumes "wrap_level_public_keys sample_backend sample_parser level = [51]"
  shows "opens_level sample_externals sample_parser level [51] bs"
proof -
  have "utf8_valid [51]" "trim [51] = [51]" by code_simp+
  moreover have "sample_key 51 \<noteq> NUMS_XONLY" by code_simp
  ultimately show ?thesis
    unfolding opens_level_def
    by (intro exI [of _ "DXPub (Some (0, DerivationPath [48])) 51 (DerivationPath []) Wildcard_None"] exI [of _ 51])
      (simp add: sample_parser_def sample_agrees assms [unfolded sample_parser_def] dpk_to_root_pk_def,
        simp add: sample_backend_def)
qed

theorem nested_levels_roundtrip_witness:
  "\<exists>e s' w'. wrap_outer sample_externals sample_parser sample_printers sample_system sample_fill 7 [sample_noted, sample_level]
      \<lparr>enc_bytes = [66], enc_warnings = []\<rparr> sample_world = (Ok (e, s'), w') \<and>
    unwrap sample_externals sample_parser [([51], []), ([51], [65, 10])] (enc_bytes e) = Ok [66, 10]"
proof -
  let ?w = "wrap_level_value sample_externals sample_parser sample_fill"
  obtain e1 s1 where e1: "?w 7 sample_noted [66] = Ok (e1, s1)"
    and l1: "enc_bytes e1 \<noteq> []" "length (enc_bytes e1) < 2000001" "rust_slice (enc_bytes e1 @ [10])"
    using sample_noted_wraps [of 7] by auto
  from l1(2) have "length (enc_bytes e1) < 2 ^ 30" by simp
  from sample_level_wraps [OF l1(1) this, of s1] obtain e2 s2 where e2: "?w s1 sample_level (enc_bytes e1) = Ok (e2, s2)"
    and l2: "rust_slice (enc_bytes e2 @ [10])" by blast
  let ?e0 = "\<lparr>enc_bytes = [66], enc_warnings = []\<rparr> :: (u8, sample_dpk) encrypted"
  let ?run = "encrypt_wrap_level sample_externals sample_parser sample_printers sample_system sample_fill"
  obtain v where v: "?run 7 sample_noted [66] sample_world = (Ok (e1, s1), v)" using sample_wrap_runs [OF e1] by blast
  obtain w' where w': "?run s1 sample_level (enc_bytes e1) v = (Ok (e2, s2), w')" using sample_wrap_runs [OF e2] by blast
  have "wrap_outer sample_externals sample_parser sample_printers sample_system sample_fill 7 [sample_noted, sample_level]
      ?e0 sample_world = (Ok (e2, s2), w')" using v w' by simp
  moreover have f: "keys_fit sample_externals sample_parser sample_fill 7 [sample_noted, sample_level] [[51], [51]] ?e0"
    using l1(3) l2 by (simp add: e1 e2 sample_opens_level sample_noted_keys sample_level_keys)
  have "utf8_valid [65]" by code_simp
  then have u: "level \<in> set [sample_noted, sample_level] \<Longrightarrow> wl_msg level = Some m \<Longrightarrow> utf8_valid m" for level m
    by (auto simp: sample_noted_def sample_level_def)
  moreover have "map level_note [sample_noted, sample_level] = [[65, 10], []]"
    by (simp add: level_note_def sample_noted_def sample_level_def)
  ultimately show ?thesis using nested_levels_roundtrip [OF sample_externals_laws _ f u] by fastforce
qed

text \<open>
  What a key file means: the lines, trimmed, without the blank ones and those that start with a
  hash sign, are the levels in order, and the first line that is no level is the error.
\<close>

lemma key_file_levels:
  "parse_wrap_keys K data =
     collect_results (parse_level K)
       (filter (\<lambda>l. l \<noteq> [] \<and> \<not> starts_with l [0x23]) (map trim (lines_of data)))"
  by (cases "collect_results (parse_level K)
      (filter (\<lambda>l. l \<noteq> [] \<and> \<not> starts_with l [0x23]) (map trim (lines_of data)))")
    (simp_all add: parse_wrap_keys_def parse_levels_eq)

text \<open>
  Every level of a key file that parses has at least one key, all of them with an origin, no empty
  note, and at least one public key to encrypt to, so wrapping it never fails for want of keys.
\<close>

lemma key_file_levels_usable:
  assumes "parse_wrap_keys K data = Ok levels" "cli_backend x_only B K" "level \<in> set levels"
  shows "wl_keys level \<noteq> [] \<and> list_all key_has_origin (wl_keys level) \<and> wl_msg level \<noteq> Some [] \<and>
    wrap_level_public_keys B K level \<noteq> []"
proof -
  have "list_all level_ok levels"
    using parse_levels_ok [of K "lines_of data" "[]"] assms(1) by (simp add: parse_wrap_keys_def)
  with assms(3) have "level_ok level" by (simp add: list_all_iff)
  with level_has_keys [OF assms(2) this] show ?thesis by (simp add: level_ok_def)
qed

lemma key_file_levels_usable_witness:
  "parse_wrap_keys sample_parser [35, 10, 51] = Ok [sample_level] \<and>
   wrap_level_public_keys sample_backend sample_parser sample_level \<noteq> []"
proof -
  have p: "parse_wrap_keys sample_parser [35, 10, 51] = Ok [sample_level]" by code_simp
  have "cli_backend sample_key sample_backend sample_parser"
    by (simp add: cli_backend_def sample_backend_def sample_parser_def)
  from p key_file_levels_usable [OF p this, of sample_level] show ?thesis by simp
qed

text \<open>
  What the worker of the decrypt command reports when nobody stops it: the outcome for the first
  key that is not refused as wrong, a document or an error, and otherwise that no key fits, or that no
  key came at all.
\<close>

lemma worker_reports:
  "decrypt_worker X b False (map (Pair False) ks) False =
     (case List.find (\<lambda>k. \<not> missed (decrypt X (set_keys (ext_backend X) [k] b))) ks of
        Some k \<Rightarrow> Some (worker_message X (decrypt X (set_keys (ext_backend X) [k] b)))
      | None \<Rightarrow> Some (Err (if ks = [] then NoKeys else FailedToDecrypt B_WrongKey)))"
  by (simp add: decrypt_worker_eq split: option.split)

text \<open>
  What the inspect command prints of a backup in binary form that decodes: its fields, the secrets
  and the nonce in hexadecimal that reads back as the bytes, and the length of its ciphertext first.
\<close>

lemma inspect_reports:
  assumes "rust_slice bs" "decode_v1 bs = Ok (ps, ss, e, nonce, c)"
  shows "\<exists>i. inspect_command X (Some bs) = Ok i \<and> in_version i = V1 \<and>
    in_encryption i = encryption_of_u8 e \<and> in_derivation_paths i = ps \<and>
    map hex_decode (in_individual_secrets i) = ss \<and> hex_decode (in_nonce i) = nonce \<and>
    hd (in_ciphertext_bytes i) = length c"
  using inspect_v1 [OF assms, of X] by (auto simp: hex_decode_encode comp_def)

lemma inspect_reports_witness:
  "\<exists>i. inspect_command sample_externals (Some small_envelope) = Ok i \<and> hex_decode (in_nonce i) = replicate 12 1"
  using inspect_reports [of small_envelope "[]" "[replicate 32 5]" 1 "replicate 12 1" "[9]" sample_externals]
    small_envelope_slice [of "[]"] small_envelope_decodes [of "[]"] by auto

text \<open>
  C23. A signing device added with \<open>--device\<close> opens the backup. When encrypt with a device produces one,
  it has added the key the device gave, and the holder of that key decrypts it to the note and the
  descriptor, unless the descriptor puts that very key on chain. Asked of miniscript: what it prints of
  the descriptor parses back to it.
\<close>

theorem device_holder_reads:
  assumes "sha256_sized (ext_crypto X)" "aead_correct (ext_crypto X)" "rng_sized fill"
    and "encrypt_with_device X K D list fill s h (Some data) msg None (Some dp) = (Ok (bs, s'), h')"
    and "rust_slice (bs @ rest)" "parse_descriptor (ext_backend X) (trim data) = Some descriptor"
    and "parse_descriptor (ext_backend X) (show_descriptor (ext_backend X) descriptor) = Some descriptor"
    and "utf8_valid (show_descriptor (ext_backend X) descriptor)" "\<And>m. msg = Some m \<Longrightarrow> utf8_valid m"
  shows "\<exists>b path key p. descriptor_backup X msg descriptor = Ok b \<and> device_path D dp = Ok path \<and>
    fst (fetch_encryption_device_key D list h (eb_derivation_paths b) path) = Ok (key, p) \<and>
    (xonly (ext_backend X) key \<notin> set (eb_exposed_keys b) \<union> {NUMS_XONLY} \<and>
      backup_agrees (ext_crypto X) bs (xonly (ext_backend X) key) \<longrightarrow>
     (\<exists>r. set_encrypted_payload X (bs @ rest) eb_new = Ok r \<and>
       decrypt X (set_keys (ext_backend X) [key] r) =
         Ok ((case msg of None \<Rightarrow> [] | Some m \<Rightarrow> [Dec_String m]) @ [Dec_Descriptor descriptor])))"
proof -
  from encrypt_with_device_Ok [OF assms(4)] assms(6) obtain b path key p e where
    b: "descriptor_backup X msg descriptor = Ok b" and p: "device_path D dp = Ok path"
    and f: "fst (fetch_encryption_device_key D list h (eb_derivation_paths b) path) = Ok (key, p)"
    and e: "encrypt X fill s (add_device_key (ext_backend X) b (key, p)) = Ok (e, s')" "enc_bytes e = bs" by auto
  have l: "rust_slice (enc_bytes e @ rest)" using assms(5) e(2) by simp
  from device_holder_decrypts [OF assms(1-3) b e(1) l assms(7-9)] e(2) b p f show ?thesis
    by (auto simp: exposed_def)
qed

theorem device_holder_reads_witness:
  "\<exists>bs s' r. encrypt_with_device sample_externals sample_parser sample_text (\<lambda>network. Some [sample_device]) sample_fill 1 ()
      (Some [100]) None None (Some (Some [49])) = (Ok (bs, s'), ()) \<and>
    set_encrypted_payload sample_externals (bs @ [10]) eb_new = Ok r \<and>
    decrypt sample_externals (set_keys sample_backend [9] r) = Ok [Dec_Descriptor sample_descriptor]"
proof -
  from sample_device_encrypts obtain bs s' where
    e: "encrypt_with_device sample_externals sample_parser sample_text (\<lambda>network. Some [sample_device]) sample_fill 1 ()
      (Some [100]) None None (Some (Some [49])) = (Ok (bs, s'), ())" and l: "rust_slice (bs @ [10])" by blast
  have t: "trim [100] = [100]" "utf8_valid [100]" by code_simp+
  have d: "parse_descriptor (ext_backend sample_externals) (trim [100]) = Some sample_descriptor"
    "parse_descriptor (ext_backend sample_externals) (show_descriptor (ext_backend sample_externals) sample_descriptor) =
       Some sample_descriptor"
    "utf8_valid (show_descriptor (ext_backend sample_externals) sample_descriptor)"
    using t by (simp_all add: sample_backend_def)
  have k: "sample_key 9 \<noteq> NUMS_XONLY" "sample_key 9 \<noteq> sample_key 4" by code_simp+
  have p: "device_path sample_text (Some [49]) = Ok (Some (DerivationPath [48]))"
    by (simp add: device_path_def sample_text_def)
  from device_holder_reads [OF sample_externals_laws e l d] e k show ?thesis
    by (auto simp: sample_descriptor_backup p sample_fetch sample_agrees)
qed

section \<open>The threads of the decrypt command\<close>

text \<open>
  C16. What the decrypt command reports does not depend on the schedule unless the device fails. In any
  interleaving of its threads, with a device whose answers depend on the path only, and if decrypting with
  a key never panics (see C13), the main thread gets
  the outcome for the first key, that of the key file and then those of the device in the order asked,
  that is not refused as wrong; with no such key it is told that no key fits, or that there was none. A
  device failure may be reported instead of the outcome of a key that was delivered before it.
\<close>

theorem decrypt_threads_outcome:
  assumes "externals_return X" "steady_setup P ans"
    and "thread_run X P n (threads_start key h) s" "th_main s = Main_Done r"
  shows "case settling X P (offered_keys P key ans) of
      Some k \<Rightarrow> r = worker_message X (attempt X P k) \<or>
        (\<exists>f. device_failure P ans = Some f \<and> r = Err (FailedToFetchXpub f))
    | None \<Rightarrow>
        (case device_failure P ans of
           Some f \<Rightarrow> r = Err (FailedToFetchXpub f)
         | None \<Rightarrow> r = Err (if offered_keys P key ans = [] then NoKeys else FailedToDecrypt B_WrongKey))"
proof -
  have "threads_inv X P key ans s" by (rule run_inv [OF assms(3) externals_reply [OF assms(1)] assms(2)])
  with assms(4) have "possible_reply X P key ans r" by (simp add: threads_inv_def messages_def)
  then show ?thesis by (simp add: possible_reply_def)
qed

text \<open>
  C17. The threads of decrypt always end, whatever a device answers and however it changes its answers. A
  run has at most twelve steps and five per path of the collector, and as long as the main thread has no
  result some thread can go on; in particular no two threads wait for each other. Asked of the third
  parties, as in C13: no panic of their own, results that fit in memory, and no template of \<open>2 ^ 32\<close> keys.
\<close>

theorem decrypt_threads_finish:
  assumes "from_wallet_policy (ext_backend X) = miniscript_from_wallet_policy M parse_template"
    and "bounded_templates M parse_template" "third_parties_return X"
    and "thread_run X P n (threads_start key h) s"
  shows "n \<le> 12 + 5 * length (asked_paths P) \<and>
    ((\<exists>r. th_main s = Main_Done r) \<or> (\<exists>s'. thread_step X P s s'))"
proof
  show "n \<le> 12 + 5 * length (asked_paths P)"
    using run_bounded [OF assms(4)] start_weight [of P key h] by linarith
  have r: "replies X P" by (rule externals_reply [OF miniscript_externals_return [OF assms(1-3)]])
  show "(\<exists>r. th_main s = Main_Done r) \<or> (\<exists>s'. thread_step X P s s')"
    using some_thread_steps [OF _ r run_from_start_sendable [OF assms(4) r]] by blast
qed

text \<open>A backup with one secret, and no device.\<close>

definition sample_setup :: "(u8, sample_dpk, unit, u8) decrypt_setup" where
  "sample_setup = \<lparr>su_backup = eb_new\<lparr>eb_payload := Payload_DecryptV1 [9] [replicate 32 5] (replicate 12 1)\<rparr>,
     su_collector = decrypt_collector (eb_new :: (u8, sample_dpk) encrypted_backup) False False, su_devices = None, su_public_key = (\<lambda>x. x)\<rparr>"

lemma deaf_misses: "attempt deaf_externals sample_setup k = Err B_WrongKey"
  by (simp add: sample_setup_def decrypt_def decrypt_with_def set_keys_def eb_new_def exposed_def deaf_externals_def
      decrypt_chacha20_poly1305_v1_def try_decrypt_chacha20_poly1305_def Let_def)

lemma sample_setup_steady: "steady_setup sample_setup ans"
  by (simp add: steady_setup_def sample_setup_def)

lemma sample_run_ends:
  "\<exists>n s r. thread_run deaf_externals sample_setup n (threads_start (Some 2) ()) s \<and> th_main s = Main_Done r"
  by (rule some_run_ends [OF externals_reply [OF deaf_externals_return]])

theorem decrypt_threads_outcome_witness:
  "\<exists>n s. thread_run deaf_externals sample_setup n (threads_start (Some 2) ()) s \<and>
     th_main s = Main_Done (Err (FailedToDecrypt B_WrongKey))"
proof -
  obtain n s r where r: "thread_run deaf_externals sample_setup n (threads_start (Some 2) ()) s" "th_main s = Main_Done r"
    using sample_run_ends by blast
  have "settling deaf_externals sample_setup (offered_keys sample_setup (Some 2) (\<lambda>p. CallTimedOut)) = None"
    "device_failure sample_setup (\<lambda>p. CallTimedOut) = None"
    "offered_keys sample_setup (Some 2) (\<lambda>p. CallTimedOut) \<noteq> []"
    by (simp_all add: settling_def deaf_misses find_None_iff device_failure_def offered_keys_def)
      (simp add: sample_setup_def)
  with decrypt_threads_outcome [OF deaf_externals_return sample_setup_steady [of "\<lambda>p. CallTimedOut"] r]
  have "r = Err (FailedToDecrypt B_WrongKey)" by simp
  with r show ?thesis by blast
qed

theorem decrypt_threads_finish_witness:
  "\<exists>s'. thread_step deaf_externals sample_setup (threads_start (Some 2) ()) s'"
  using decrypt_threads_finish [OF deaf_rebuilds sample_templates_bounded deaf_third_parties run_start, of sample_setup "Some 2" "()"]
  by (simp add: threads_start_def)

text \<open>
  C24. A key file that opens the backup does not settle the outcome when a device is plugged in and
  fails: one schedule of the threads prints the document, another reports the failure of the device and
  prints nothing.
\<close>

theorem decrypt_threads_race:
  assumes "steady_setup P ans" "device_failure P ans = Some f"
    and "decrypt X (set_keys (ext_backend X) [key] (su_backup P)) = Ok ds" "decrypted_to_document X ds = Ok document"
  shows "(\<exists>n s. thread_run X P n (threads_start (Some key) h) s \<and> th_main s = Main_Done (Ok document)) \<and>
    (\<exists>n s. thread_run X P n (threads_start (Some key) h) s \<and> th_main s = Main_Done (Err (FailedToFetchXpub f)))"
  using worker_first [OF assms(3,4)] fetcher_first [OF assms(1,2)] by blast

text \<open>A cipher that opens everything, and a device that gives no key.\<close>

definition keen_externals :: "(u8, sample_dpk, sample_dpk list, unit) externals" where
  "keen_externals = sample_externals\<lparr>ext_crypto := sample_crypto\<lparr>aead_decrypt := (\<lambda>k n c. Some [1, 0, 138, 1, 65])\<rparr>\<rparr>"

definition broken_device :: "(unit, u8) device" where
  "broken_device = sample_device\<lparr>dev_kind := BitBox02, dev_call := (\<lambda>h p limit. (RecvTimeout, h))\<rparr>"

definition race_setup :: "(u8, sample_dpk, unit, u8) decrypt_setup" where
  "race_setup = sample_setup\<lparr>su_devices := Some [broken_device]\<rparr>"

lemma race_opens:
  "decrypt keen_externals (set_keys (ext_backend keen_externals) [2] (su_backup race_setup)) = Ok [Dec_Bip138 [65]]"
  by (simp add: keen_externals_def race_setup_def sample_setup_def decrypt_def decrypt_with_def set_keys_def eb_new_def
      exposed_def decrypt_chacha20_poly1305_v1_def try_decrypt_chacha20_poly1305_def sample_plaintext Let_def)

theorem decrypt_threads_race_witness:
  "(\<exists>n s. thread_run keen_externals race_setup n (threads_start (Some 2) ()) s \<and> th_main s = Main_Done (Ok [65])) \<and>
   (\<exists>n s f. thread_run keen_externals race_setup n (threads_start (Some 2) ()) s \<and>
     th_main s = Main_Done (Err (FailedToFetchXpub f)) \<and> ff_device f = BitBox02)"
proof -
  have s: "steady_setup race_setup (\<lambda>p. CallTimedOut)"
    by (simp add: steady_setup_def race_setup_def broken_device_def steady_def get_extended_pubkey_def)
  obtain f where f: "device_failure race_setup (\<lambda>p. CallTimedOut) = Some f" and d: "ff_device f = BitBox02"
    by (simp add: device_failure_def race_setup_def broken_device_def unlock_failure_def bitbox_unlock_path_eq)
  have "decrypted_to_document keen_externals [Dec_Bip138 [65]] = Ok [65]"
    by (simp add: decrypted_to_document_def)
  from decrypt_threads_race [OF s f race_opens this] d show ?thesis by blast
qed

end
